(* ===== verification/Prelude.thy ===== *)
theory Prelude
  imports Main "HOL-Library.Word" "HOL-Library.AList"
begin

unbundle bit_operations_syntax

text \<open>
  The vocabulary every component theory shares.

  Machine integers are words of their Rust width; arithmetic on them wraps, which is what the
  release profile (the one README.md builds and runs) does. A \<open>usize\<close> is a \<open>nat\<close>: it only
  ever holds lengths and indices of in-memory buffers here. A byte buffer (\<open>Vec<u8>\<close>, \<open>Bytes\<close>,
  \<open>BytesMut\<close>, \<open>&[u8]\<close> and the fixed arrays) is a \<open>u8 list\<close>.

  A fallible operation returns an \<open>outcome\<close>: \<open>Ok\<close>, \<open>Err\<close>, or \<open>Panic\<close> for an index or a subslice
  out of range. A \<open>HashMap\<close> is an association list with distinct keys whose order stands for
  the iteration order of the hash table.
\<close>

section \<open>Integers, bytes and outcomes\<close>

type_synonym u8 = "8 word"
type_synonym u16 = "16 word"
type_synonym u32 = "32 word"
type_synonym u64 = "64 word"
type_synonym bytes = "u8 list"

text \<open>The six bytes that name a peer: four of IPv4 address, two of port.\<close>
type_synonym peer_ip = bytes

text \<open>A reading of the monotonic clock, in nanoseconds.\<close>
type_synonym instant = nat

datatype ('e, 'a) outcome = Ok 'a | Err 'e | Panic

text \<open>Sequencing, as the \<open>?\<close> operator does it: an error or a panic ends the function.\<close>

fun obind :: "('e, 'a) outcome \<Rightarrow> ('a \<Rightarrow> ('e, 'b) outcome) \<Rightarrow> ('e, 'b) outcome" where
  "obind (Ok x) f = f x"
| "obind (Err e) f = Err e"
| "obind Panic f = Panic"

text \<open>\<open>map_err\<close>, with which an error of one layer becomes an error of the next.\<close>

fun map_err :: "('e \<Rightarrow> 'f) \<Rightarrow> ('e, 'a) outcome \<Rightarrow> ('f, 'a) outcome" where
  "map_err g (Ok x) = Ok x"
| "map_err g (Err e) = Err (g e)"
| "map_err g Panic = Panic"

text \<open>\<open>Result::ok\<close> on results that cannot panic.\<close>

fun outcome_ok :: "('e, 'a) outcome \<Rightarrow> 'a option" where
  "outcome_ok (Ok x) = Some x"
| "outcome_ok (Err e) = None"
| "outcome_ok Panic = None"

named_theorems outcome_intro \<open>facts that rule out a panic\<close>

lemma obind_Ok_iff [simp]: "obind r f = Ok y \<longleftrightarrow> (\<exists>x. r = Ok x \<and> f x = Ok y)"
  by (cases r) auto

lemma obind_Panic_iff: "obind r f = Panic \<longleftrightarrow> r = Panic \<or> (\<exists>x. r = Ok x \<and> f x = Panic)"
  by (cases r) auto

lemma obind_no_panic [outcome_intro]:
  "r \<noteq> Panic \<Longrightarrow> (\<And>x. r = Ok x \<Longrightarrow> f x \<noteq> Panic) \<Longrightarrow> obind r f \<noteq> Panic"
  by (cases r) auto

lemma map_err_Ok_iff [simp]: "map_err g r = Ok x \<longleftrightarrow> r = Ok x"
  by (cases r) auto

lemma map_err_Panic_iff [simp]: "map_err g r = Panic \<longleftrightarrow> r = Panic"
  by (cases r) auto

lemma map_err_Err_iff: "map_err g r = Err e \<longleftrightarrow> (\<exists>e'. r = Err e' \<and> e = g e')"
  by (cases r) auto

lemma outcome_ok_Some_iff [simp]: "outcome_ok r = Some x \<longleftrightarrow> r = Ok x"
  by (cases r) auto

lemma obind_cong [fundef_cong]:
  "r = r' \<Longrightarrow> (\<And>x. r' = Ok x \<Longrightarrow> f x = f' x) \<Longrightarrow> obind r f = obind r' f'"
  by (cases r') auto

text \<open>A loop that pushes the result of a fallible step for each element and stops at the first error.\<close>

fun try_map :: "('a \<Rightarrow> ('e, 'b) outcome) \<Rightarrow> 'a list \<Rightarrow> ('e, 'b list) outcome" where
  "try_map f [] = Ok []"
| "try_map f (x # xs) = obind (f x) (\<lambda>y. obind (try_map f xs) (\<lambda>ys. Ok (y # ys)))"

lemma try_map_Ok_iff: "try_map f xs = Ok ys \<longleftrightarrow> list_all2 (\<lambda>x y. f x = Ok y) xs ys"
  by (induction xs arbitrary: ys) (auto simp: list_all2_Cons1)

lemma try_map_no_panic [outcome_intro]: "(\<And>x. x \<in> set xs \<Longrightarrow> f x \<noteq> Panic) \<Longrightarrow> try_map f xs \<noteq> Panic"
  by (induction xs) (auto simp: obind_Panic_iff)

text \<open>\<open>find\<close> answers with the first element that qualifies.\<close>

lemma find_Some_first:
  "find P xs = Some x \<longleftrightarrow> (\<exists>ys zs. xs = ys @ x # zs \<and> P x \<and> (\<forall>y \<in> set ys. \<not> P y))"
proof
  show "find P xs = Some x \<Longrightarrow> \<exists>ys zs. xs = ys @ x # zs \<and> P x \<and> (\<forall>y \<in> set ys. \<not> P y)"
  proof (induction xs)
    case (Cons a xs)
    show ?case
    proof (cases "P a")
      case True
      with Cons.prems have "a # xs = [] @ x # xs \<and> P x \<and> (\<forall>y \<in> set []. \<not> P y)" by simp
      then show ?thesis by blast
    next
      case False
      with Cons obtain ys zs where "xs = ys @ x # zs" "P x" "\<forall>y \<in> set ys. \<not> P y" by auto
      with False have "a # xs = (a # ys) @ x # zs \<and> P x \<and> (\<forall>y \<in> set (a # ys). \<not> P y)" by simp
      then show ?thesis by blast
    qed
  qed simp
  have "find P (ys @ x # zs) = Some x" if "P x" "\<forall>y \<in> set ys. \<not> P y" for ys zs
    using that by (induction ys) auto
  then show "\<exists>ys zs. xs = ys @ x # zs \<and> P x \<and> (\<forall>y \<in> set ys. \<not> P y) \<Longrightarrow> find P xs = Some x" by blast
qed

section \<open>Checked indexing and slicing\<close>

definition idx :: "'a list \<Rightarrow> nat \<Rightarrow> ('e, 'a) outcome" where
  "idx xs i = (if i < length xs then Ok (xs ! i) else Panic)"

definition subslice :: "'a list \<Rightarrow> nat \<Rightarrow> nat \<Rightarrow> ('e, 'a list) outcome" where
  "subslice xs a b = (if a \<le> b \<and> b \<le> length xs then Ok (take (b - a) (drop a xs)) else Panic)"

lemma idx_Ok [simp]: "i < length xs \<Longrightarrow> idx xs i = Ok (xs ! i)"
  by (simp add: idx_def)

lemma subslice_Ok [simp]: "a \<le> b \<Longrightarrow> b \<le> length xs \<Longrightarrow> subslice xs a b = Ok (take (b - a) (drop a xs))"
  by (simp add: subslice_def)

text \<open>\<open>copy_from_slice\<close> into \<open>buf[a..a + len]\<close>, for ranges that fit.\<close>

definition splice :: "'a list \<Rightarrow> nat \<Rightarrow> 'a list \<Rightarrow> 'a list" where
  "splice buf a xs = take a buf @ xs @ drop (a + length xs) buf"

lemma length_splice [simp]: "a + length xs \<le> length buf \<Longrightarrow> length (splice buf a xs) = length buf"
  by (simp add: splice_def)

section \<open>Big-endian integers\<close>

text \<open>
  \<open>to_be_bytes\<close> and \<open>put_u16/u32\<close> write the most significant byte first; \<open>to_be k\<close> gives the
  \<open>k\<close> low bytes of a word in that order, and \<open>from_be_bytes\<close> is \<open>of_be\<close> at every width.
\<close>

definition to_be :: "nat \<Rightarrow> 'a::len word \<Rightarrow> bytes" where
  "to_be k w = map (\<lambda>i. ucast (drop_bit (8 * i) w)) (rev [0..<k])"

definition of_be :: "bytes \<Rightarrow> 'a::len word" where
  "of_be bs = foldl (\<lambda>acc b. push_bit 8 acc OR ucast b) 0 bs"

definition be16 :: "u16 \<Rightarrow> bytes" where
  "be16 w = to_be 2 w"

definition be32 :: "u32 \<Rightarrow> bytes" where
  "be32 w = to_be 4 w"

definition be64 :: "u64 \<Rightarrow> bytes" where
  "be64 w = to_be 8 w"

lemma length_to_be [simp]: "length (to_be k w) = k"
  by (simp add: to_be_def)

lemma length_be [simp]: "length (be16 a) = 2" "length (be32 b) = 4" "length (be64 c) = 8"
  by (simp_all add: be16_def be32_def be64_def)

lemma of_be_snoc: "of_be (bs @ [b]) = push_bit 8 (of_be bs) OR (ucast b :: 'a::len word)"
  by (simp add: of_be_def)

lemma rev_to_be_nth: "i < k \<Longrightarrow> rev (to_be k w) ! i = ucast (drop_bit (8 * i) w)"
  by (simp add: to_be_def rev_map)

text \<open>Bit \<open>n\<close> of a decoded integer is bit \<open>n mod 8\<close> of the byte \<open>n div 8\<close> places from the end.\<close>

lemma bit_of_be:
  "bit (of_be bs :: 'a::len word) n \<longleftrightarrow>
     n < LENGTH('a) \<and> n div 8 < length bs \<and> bit (rev bs ! (n div 8)) (n mod 8)"
proof (induction bs arbitrary: n rule: rev_induct)
  case Nil
  then show ?case by (simp add: of_be_def)
next
  case (snoc b bs)
  show ?case
  proof (cases "n < 8")
    case True
    then have "n div 8 = 0" "n mod 8 = n" by simp_all
    with True show ?thesis by (auto simp: of_be_snoc bit_simps)
  next
    case False
    then have *: "n div 8 = Suc ((n - 8) div 8)" "n mod 8 = (n - 8) mod 8"
      by (simp_all add: le_div_geq le_mod_geq not_less)
    have "\<not> bit b n" using False by (auto dest: bit_imp_le_length)
    with False * snoc.IH [of "n - 8"] show ?thesis
      by (auto simp: of_be_snoc bit_simps not_less)
  qed
qed

lemma of_be_to_be:
  fixes w :: "'a::len word"
  assumes "LENGTH('a) = 8 * k"
  shows "of_be (to_be k w) = w"
proof (rule bit_word_eqI)
  fix n assume n: "n < LENGTH('a)"
  then have "n div 8 < k" using assms by simp
  then show "bit (of_be (to_be k w) :: 'a word) n = bit w n"
    using n assms by (simp add: bit_of_be rev_to_be_nth bit_simps)
qed

lemma to_be_of_be:
  assumes "length bs = k" and "8 * k \<le> LENGTH('a::len)"
  shows "to_be k (of_be bs :: 'a word) = bs"
proof -
  have "rev (to_be k (of_be bs :: 'a word)) = rev bs"
  proof (rule nth_equalityI)
    show "length (rev (to_be k (of_be bs :: 'a word))) = length (rev bs)"
      using assms by simp
  next
    fix i assume "i < length (rev (to_be k (of_be bs :: 'a word)))"
    then have i: "i < k" by simp
    then show "rev (to_be k (of_be bs :: 'a word)) ! i = rev bs ! i"
      using assms by (auto simp: rev_to_be_nth intro!: bit_word_eqI)
         (auto simp: bit_simps bit_of_be)
  qed
  then show ?thesis by simp
qed

lemma of_be_be [simp]: "of_be (be16 a) = a" "of_be (be32 b) = b" "of_be (be64 c) = c"
  by (simp_all add: be16_def be32_def be64_def of_be_to_be)

lemma be_of_be:
  "length bs = 2 \<Longrightarrow> be16 (of_be bs) = bs"
  "length bs = 4 \<Longrightarrow> be32 (of_be bs) = bs"
  "length bs = 8 \<Longrightarrow> be64 (of_be bs) = bs"
  by (simp_all add: be16_def be32_def be64_def to_be_of_be)

lemma be32_eq: "be32 w = [ucast (drop_bit 24 w), ucast (drop_bit 16 w), ucast (drop_bit 8 w), ucast w]"
  by (simp add: be32_def to_be_def numeral_eq_Suc)

lemma be16_eq: "be16 w = [ucast (drop_bit 8 w), ucast w]"
  by (simp add: be16_def to_be_def numeral_eq_Suc)

text \<open>A four-byte read at offset \<open>i\<close> of a buffer, an index panic when it is too short.\<close>

definition be32_at :: "bytes \<Rightarrow> nat \<Rightarrow> ('e, u32) outcome" where
  "be32_at bs i = obind (subslice bs i (i + 4)) (\<lambda>s. Ok (of_be s))"

lemma be32_at_Ok [simp]: "i + 4 \<le> length bs \<Longrightarrow> be32_at bs i = Ok (of_be (take 4 (drop i bs)))"
  by (simp add: be32_at_def)

lemma take_be32 [simp]: "take 4 (be32 w @ xs) = be32 w" "drop 4 (be32 w @ xs) = xs"
  by simp_all

text \<open>The bytes of a string literal.\<close>

definition ascii :: "string \<Rightarrow> bytes" where
  "ascii s = map of_char s"

lemma length_ascii [simp]: "length (ascii s) = length s"
  by (simp add: ascii_def)

section \<open>Byte-length conversions\<close>

text \<open>\<open>len() as u32\<close>.\<close>

definition len_u32 :: "'a list \<Rightarrow> u32" where
  "len_u32 xs = word_of_nat (length xs)"

lemma unat_len_u32: "length xs < 2 ^ 32 \<Longrightarrow> unat (len_u32 xs) = length xs"
  by (simp add: len_u32_def unat_of_nat take_bit_eq_mod)

text \<open>Casts between \<open>u32\<close> and \<open>u64\<close>, and words made from small numbers.\<close>

lemma unat_up64 [simp]: "unat (ucast (x :: u32) :: u64) = unat x"
proof -
  have "unat x < 2 ^ 32" using unsigned_less [of x] by simp
  then have "unat x < 2 ^ 64" by simp
  then show ?thesis by (simp add: unsigned_ucast_eq take_bit_eq_mod)
qed

lemma unat_down32: "unat (x :: u64) < 2 ^ 32 \<Longrightarrow> unat (ucast x :: u32) = unat x"
  by (simp add: unsigned_ucast_eq take_bit_eq_mod)

lemma unat_down32_mod: "unat (ucast (x :: u64) :: u32) = unat x mod 2 ^ 32"
  by (simp add: unsigned_ucast_eq take_bit_eq_mod)

lemma unat_word_of_nat64: "n < 2 ^ 64 \<Longrightarrow> unat (word_of_nat n :: u64) = n"
  by (simp add: unat_of_nat take_bit_eq_mod)

lemma unat_word_of_nat32: "n < 2 ^ 32 \<Longrightarrow> unat (word_of_nat n :: u32) = n"
  by (simp add: unat_of_nat take_bit_eq_mod)

lemma unat_u32_less: "unat (x :: u32) < 4294967296"
  using unsigned_less [of x] by simp

lemma unat_u64_less: "unat (x :: u64) < 18446744073709551616"
  using unsigned_less [of x] by simp

lemma unat_add64: "unat (x :: u64) + unat y < 2 ^ 64 \<Longrightarrow> unat (x + y) = unat x + unat y"
  by (simp add: unat_word_ariths)

lemma ucast_down_up: "ucast (ucast (x :: u32) :: u64) = x"
  by transfer (simp add: take_bit_take_bit)

section \<open>Hash maps\<close>

type_synonym ('k, 'v) hash_map = "('k \<times> 'v) list"

definition hm_get :: "('k, 'v) hash_map \<Rightarrow> 'k \<Rightarrow> 'v option" where
  "hm_get m k = map_of m k"

definition hm_insert :: "'k \<Rightarrow> 'v \<Rightarrow> ('k, 'v) hash_map \<Rightarrow> ('k, 'v) hash_map" where
  "hm_insert k v m = AList.update k v m"

definition hm_remove :: "'k \<Rightarrow> ('k, 'v) hash_map \<Rightarrow> ('k, 'v) hash_map" where
  "hm_remove k m = AList.delete k m"

definition hm_values :: "('k, 'v) hash_map \<Rightarrow> 'v list" where
  "hm_values m = map snd m"

text \<open>\<open>values_mut\<close> with the same update for every value.\<close>

definition hm_map :: "('v \<Rightarrow> 'v) \<Rightarrow> ('k, 'v) hash_map \<Rightarrow> ('k, 'v) hash_map" where
  "hm_map f m = map (\<lambda>(k, v). (k, f v)) m"

definition hm_wf :: "('k, 'v) hash_map \<Rightarrow> bool" where
  "hm_wf m \<longleftrightarrow> distinct (map fst m)"

named_theorems hm_simps \<open>lookup after every operation of a hash map\<close>

lemma hm_get_Nil [simp]: "hm_get [] k = None"
  by (simp add: hm_get_def)

lemma hm_get_insert [hm_simps, simp]:
  "hm_get (hm_insert k v m) k' = (if k' = k then Some v else hm_get m k')"
  by (simp add: hm_get_def hm_insert_def update_conv')

lemma hm_get_remove [hm_simps, simp]:
  "hm_get (hm_remove k m) k' = (if k' = k then None else hm_get m k')"
  by (simp add: hm_get_def hm_remove_def delete_conv')

lemma hm_get_map [hm_simps, simp]: "hm_get (hm_map f m) k = map_option f (hm_get m k)"
  by (simp add: hm_get_def hm_map_def map_of_map)

lemma hm_wf_Nil [simp]: "hm_wf []"
  by (simp add: hm_wf_def)

lemma hm_wf_insert [simp]: "hm_wf m \<Longrightarrow> hm_wf (hm_insert k v m)"
  by (simp add: hm_wf_def hm_insert_def distinct_update)

lemma hm_wf_remove [simp]: "hm_wf m \<Longrightarrow> hm_wf (hm_remove k m)"
  by (simp add: hm_wf_def hm_remove_def distinct_delete)

lemma hm_wf_map [simp]: "hm_wf (hm_map f m) = hm_wf m"
  by (simp add: hm_wf_def hm_map_def comp_def case_prod_unfold)

lemma hm_get_entry: "hm_wf m \<Longrightarrow> (k, v) \<in> set m \<longleftrightarrow> hm_get m k = Some v"
  by (simp add: hm_wf_def hm_get_def)

lemma set_hm_values_insert: "set (hm_values (hm_insert k v m)) \<subseteq> insert v (set (hm_values m))"
  by (induction m) (auto simp: hm_values_def hm_insert_def)

lemma hm_values_iff: "hm_wf m \<Longrightarrow> v \<in> set (hm_values m) \<longleftrightarrow> (\<exists>k. hm_get m k = Some v)"
  by (force simp: hm_values_def hm_get_entry [symmetric])

lemma hm_keys_insert: "set (map fst (hm_insert k v m)) = insert k (set (map fst m))"
  by (auto simp: hm_insert_def update_keys insert_absorb)

lemma hm_get_None: "hm_get m k = None \<longleftrightarrow> k \<notin> set (map fst m)"
  by (simp add: hm_get_def map_of_eq_None_iff)

end
