(* ===== verification/Block.thy ===== *)
theory Block
  imports Prelude
begin

text \<open>
  A block of a piece, the unit of transfer: \<open>src/core/peer/piece/block.rs\<close>. The operations that read
  the clock take the reading as an argument.
\<close>

section \<open>Blocks\<close>

datatype block_state =
    BlockMissing
  | BlockRequested peer_ip instant
  | BlockReceived bytes
  | BlockWritten

record block =
  b_index :: u32
  b_offset :: u64
  b_length :: u32
  b_state :: block_state

text \<open>\<open>Duration::from_secs(120)\<close>, in nanoseconds.\<close>

definition block_timeout :: nat where
  "block_timeout = 120 * 1000000000"

definition block_new :: "u32 \<Rightarrow> u64 \<Rightarrow> u32 \<Rightarrow> block" where
  "block_new index offset lgth =
    \<lparr> b_index = index, b_offset = offset, b_length = lgth, b_state = BlockMissing \<rparr>"

definition block_request_from_peer :: "instant \<Rightarrow> peer_ip \<Rightarrow> block \<Rightarrow> block" where
  "block_request_from_peer now ip b = b\<lparr> b_state := BlockRequested ip now \<rparr>"

definition cancle :: "block \<Rightarrow> block" where
  "cancle b = b\<lparr> b_state := BlockMissing \<rparr>"

text \<open>\<open>instant.elapsed()\<close> is zero when the clock reads earlier, as subtraction on \<open>nat\<close> is.\<close>

definition block_reset :: "instant \<Rightarrow> block \<Rightarrow> peer_ip option \<times> block" where
  "block_reset now b =
    (case b_state b of
       BlockRequested ip inst \<Rightarrow>
         if now - inst > block_timeout then (Some ip, cancle b) else (None, b)
     | _ \<Rightarrow> (None, b))"

definition receive_data :: "bytes \<Rightarrow> block \<Rightarrow> block" where
  "receive_data bs b = (if len_u32 bs = b_length b then b\<lparr> b_state := BlockReceived bs \<rparr> else b)"

definition block_mask_written :: "block \<Rightarrow> block" where
  "block_mask_written b = b\<lparr> b_state := BlockWritten \<rparr>"

definition block_is_complete :: "block \<Rightarrow> bool" where
  "block_is_complete b =
    (case b_state b of BlockReceived _ \<Rightarrow> True | BlockWritten \<Rightarrow> True | _ \<Rightarrow> False)"

section \<open>What the operations keep\<close>

text \<open>The identity of a block (its piece, its place and its length) is fixed at creation.\<close>

definition block_id :: "block \<Rightarrow> u32 \<times> u64 \<times> u32" where
  "block_id b = (b_index b, b_offset b, b_length b)"

lemma block_id_simps [simp]:
  "block_id (block_new i off n) = (i, off, n)"
  "block_id (block_request_from_peer now ip b) = block_id b"
  "block_id (cancle b) = block_id b"
  "block_id (receive_data bs b) = block_id b"
  "block_id (block_mask_written b) = block_id b"
  "block_id (snd (block_reset now b)) = block_id b"
  by (auto simp: block_id_def block_new_def block_request_from_peer_def cancle_def
      receive_data_def block_mask_written_def block_reset_def split: block_state.splits)

text \<open>A block's data always matches its length.\<close>

definition block_wf :: "block \<Rightarrow> bool" where
  "block_wf b \<longleftrightarrow> (\<forall>bs. b_state b = BlockReceived bs \<longrightarrow> len_u32 bs = b_length b)"

named_theorems block_intros \<open>every operation keeps a block well-formed\<close>

lemma block_wf_new [block_intros, simp]: "block_wf (block_new i off n)"
  by (simp add: block_wf_def block_new_def)

lemma block_wf_request [block_intros, simp]: "block_wf (block_request_from_peer now ip b)"
  by (simp add: block_wf_def block_request_from_peer_def)

lemma block_wf_cancle [block_intros, simp]: "block_wf (cancle b)"
  by (simp add: block_wf_def cancle_def)

lemma block_wf_receive [block_intros]: "block_wf b \<Longrightarrow> block_wf (receive_data bs b)"
  by (auto simp: block_wf_def receive_data_def)

lemma block_wf_reset [block_intros]: "block_wf b \<Longrightarrow> block_wf (snd (block_reset now b))"
  by (auto simp: block_wf_def block_reset_def cancle_def split: block_state.splits)

lemma complete_simps [simp]:
  "\<not> block_is_complete (block_new i off n)"
  "\<not> block_is_complete (block_request_from_peer now ip b)"
  "\<not> block_is_complete (cancle b)"
  by (simp_all add: block_is_complete_def block_new_def block_request_from_peer_def cancle_def)

lemma complete_receive_data:
  "block_is_complete (receive_data bs b) \<longleftrightarrow> len_u32 bs = b_length b \<or> block_is_complete b"
  by (auto simp: block_is_complete_def receive_data_def)

section \<open>Properties\<close>

text \<open>
  A pending request is given up exactly when more than 120 seconds have passed since it was
  sent: the block goes back to missing and the peer is named. In every other state, and up to and
  including the 120th second, the block is left alone.
\<close>

theorem block_reset_exact:
  "block_reset now b =
    (if (\<exists>ip inst. b_state b = BlockRequested ip inst \<and> inst + 120 * 1000000000 < now)
     then (Some (case b_state b of BlockRequested ip inst \<Rightarrow> ip), b\<lparr> b_state := BlockMissing \<rparr>)
     else (None, b))"
  by (cases "b_state b") (auto simp: block_reset_def block_timeout_def cancle_def)

end
