(* ===== verification/Pieces.thy ===== *)
theory Pieces
  imports Block
begin

text \<open>
  A piece and its verification: \<open>src/core/peer/piece/piece.rs\<close>. SHA-1 comes from the \<open>sha1\<close> crate
  and is the parameter \<open>sha1\<close>. The three \<open>while\<close> loops over offsets are not structurally bounded, so
  they are partial functions into \<open>option\<close>: \<open>None\<close> is a loop that never ends.
\<close>

section \<open>Pieces\<close>

datatype piece_state =
    PieceMissing
  | PieceIncomplete
  | PieceComplete
  | PieceWritten

record piece =
  p_index :: u32
  p_length :: u64
  p_hash :: bytes
  p_blocks :: "(u64, block) hash_map"
  p_state :: piece_state
  p_block_size :: u32
  p_priority :: u8

partial_function (option) new_blocks ::
  "u32 \<Rightarrow> u64 \<Rightarrow> u32 \<Rightarrow> u64 \<Rightarrow> (u64, block) hash_map \<Rightarrow> (u64, block) hash_map option" where
  "new_blocks index lgth block_size offset blocks =
    (if offset < lgth then
       let block_length = min block_size (ucast (lgth - offset))
       in new_blocks index lgth block_size (offset + ucast block_length)
            (hm_insert offset (block_new index offset block_length) blocks)
     else Some blocks)"

definition piece_new :: "u32 \<Rightarrow> u64 \<Rightarrow> bytes \<Rightarrow> u32 \<Rightarrow> piece option" where
  "piece_new index lgth hash block_size =
    map_option (\<lambda>blocks.
      \<lparr> p_index = index, p_length = lgth, p_hash = hash, p_blocks = blocks,
        p_state = PieceMissing, p_block_size = block_size, p_priority = 1 \<rparr>)
      (new_blocks index lgth block_size 0 [])"

definition piece_request_from_peer :: "instant \<Rightarrow> u64 \<Rightarrow> peer_ip \<Rightarrow> piece \<Rightarrow> piece" where
  "piece_request_from_peer now offset ip p =
    (case hm_get (p_blocks p) offset of
       Some b \<Rightarrow> p\<lparr> p_blocks := hm_insert offset (block_request_from_peer now ip b) (p_blocks p) \<rparr>
     | None \<Rightarrow> p)"

definition is_fully_downloaded :: "piece \<Rightarrow> bool" where
  "is_fully_downloaded p = list_all block_is_complete (hm_values (p_blocks p))"

text \<open>
  The first loop of \<open>verify\<close>: the concatenated data, \<open>Some None\<close> where it returns \<open>false\<close> early. It
  advances by the block size.
\<close>

partial_function (option) verify_buf :: "piece \<Rightarrow> u64 \<Rightarrow> bytes \<Rightarrow> bytes option option" where
  "verify_buf p offset buf =
    (if offset < p_length p then
       (case hm_get (p_blocks p) offset of
          Some b \<Rightarrow>
            (case b_state b of
               BlockReceived bs \<Rightarrow> verify_buf p (offset + ucast (p_block_size p)) (buf @ bs)
             | _ \<Rightarrow> Some None)
        | None \<Rightarrow> Some None)
     else Some (Some buf))"

definition verify :: "(bytes \<Rightarrow> bytes) \<Rightarrow> piece \<Rightarrow> (bool \<times> piece) option" where
  "verify sha1 p =
    (case verify_buf p 0 [] of
       None \<Rightarrow> None
     | Some None \<Rightarrow> Some (False, p)
     | Some (Some buf) \<Rightarrow>
         if sha1 buf = p_hash p then Some (True, p\<lparr> p_state := PieceComplete \<rparr>)
         else Some (False, p\<lparr> p_blocks := hm_map cancle (p_blocks p), p_state := PieceMissing \<rparr>))"

definition piece_receive_block ::
  "(bytes \<Rightarrow> bytes) \<Rightarrow> u64 \<Rightarrow> bytes \<Rightarrow> piece \<Rightarrow> (bool \<times> piece) option" where
  "piece_receive_block sha1 offset data p =
    (case hm_get (p_blocks p) offset of
       Some b \<Rightarrow>
         (let p = p\<lparr> p_blocks := hm_insert offset (receive_data data b) (p_blocks p) \<rparr> in
          if is_fully_downloaded p then map_option (\<lambda>(_, p). (True, p)) (verify sha1 p)
          else Some (True, p))
     | None \<Rightarrow> Some (False, p))"

definition piece_mask_written :: "piece \<Rightarrow> piece" where
  "piece_mask_written p = p\<lparr> p_state := PieceWritten \<rparr>"

text \<open>The blocks are visited in the iteration order of the hash map.\<close>

definition get_next_missing_block :: "piece \<Rightarrow> u64 option" where
  "get_next_missing_block p =
    map_option fst (find (\<lambda>(offset, b). \<not> block_is_complete b) (p_blocks p))"

definition reset_timeout_requests ::
  "instant \<Rightarrow> piece \<Rightarrow> (u64, peer_ip) hash_map \<times> piece" where
  "reset_timeout_requests now p =
    (fold (\<lambda>(offset, b) reset_ip.
        (case fst (block_reset now b) of
           Some ip \<Rightarrow> hm_insert offset ip reset_ip
         | None \<Rightarrow> reset_ip)) (p_blocks p) [],
     p\<lparr> p_blocks := hm_map (\<lambda>b. snd (block_reset now b)) (p_blocks p) \<rparr>)"

definition piece_is_complete :: "piece \<Rightarrow> bool" where
  "piece_is_complete p = (p_state p = PieceComplete \<or> p_state p = PieceWritten)"

text \<open>The loop of \<open>get_piece_data\<close>, which advances by the length of each block.\<close>

partial_function (option) piece_data_from :: "piece \<Rightarrow> u64 \<Rightarrow> bytes \<Rightarrow> bytes option option" where
  "piece_data_from p offset data =
    (if offset < p_length p then
       (case hm_get (p_blocks p) offset of
          Some b \<Rightarrow>
            (case b_state b of
               BlockReceived bs \<Rightarrow> piece_data_from p (offset + ucast (b_length b)) (data @ bs)
             | _ \<Rightarrow> Some None)
        | None \<Rightarrow> Some None)
     else Some (Some data))"

definition piece_get_data :: "piece \<Rightarrow> bytes option option" where
  "piece_get_data p =
    (if p_state p = PieceComplete then piece_data_from p 0 [] else Some None)"

end
