(* ===== verification/Piece_Layout.thy ===== *)
theory Piece_Layout
  imports Pieces
begin

text \<open>
  How a piece is cut into blocks: the loop of \<open>Piece::new\<close>, when it ends, what it builds, and that
  every later operation of \<open>src/core/peer/piece/piece.rs\<close> keeps that layout. \<open>nblocks\<close> counts the
  blocks, \<open>off\<close> and \<open>blen\<close> give the offset and the length of the \<open>k\<close>-th.
\<close>

section \<open>Layout\<close>

definition nblocks :: "u64 \<Rightarrow> u32 \<Rightarrow> nat" where
  "nblocks len bs = (unat len + unat bs - 1) div unat bs"

definition off :: "u32 \<Rightarrow> nat \<Rightarrow> u64" where
  "off bs k = word_of_nat (k * unat bs)"

definition blen :: "u64 \<Rightarrow> u32 \<Rightarrow> nat \<Rightarrow> u32" where
  "blen len bs k = min bs (ucast (len - off bs k))"

definition piece_fits :: "u64 \<Rightarrow> u32 \<Rightarrow> bool" where
  "piece_fits len bs \<longleftrightarrow> unat len < 2 ^ 32 \<and> (len = 0 \<or> bs \<noteq> 0)"

lemma less_nblocks_iff: "piece_fits len bs \<Longrightarrow> k < nblocks len bs \<longleftrightarrow> k * unat bs < unat len"
proof -
  assume fits: "piece_fits len bs"
  show ?thesis
  proof (cases "unat bs = 0")
    case True
    with fits have "bs = 0" "len = 0" by (auto simp: piece_fits_def unat_eq_0)
    then show ?thesis by (simp add: nblocks_def)
  next
    case False
    have "k < nblocks len bs \<longleftrightarrow> Suc k * unat bs \<le> unat len + unat bs - 1"
      using False by (simp add: nblocks_def Suc_le_eq [symmetric] less_eq_div_iff_mult_less_eq)
    then show ?thesis using False by auto
  qed
qed

lemma nblocks_bound: "piece_fits len bs \<Longrightarrow> k \<le> nblocks len bs \<Longrightarrow> k * unat bs < 2 ^ 33"
proof (cases k)
  case (Suc j)
  assume fits: "piece_fits len bs" and "k \<le> nblocks len bs"
  with Suc have "j * unat bs < unat len" using less_nblocks_iff [OF fits, of j] by simp
  moreover have "unat bs < 2 ^ 32" using unat_u32_less [of bs] by simp
  ultimately show ?thesis using fits Suc by (simp add: piece_fits_def)
qed simp

lemma unat_off: "piece_fits len bs \<Longrightarrow> k \<le> nblocks len bs \<Longrightarrow> unat (off bs k) = k * unat bs"
  unfolding off_def by (rule unat_word_of_nat64) (use nblocks_bound [of len bs k] in simp)

lemma off_0 [simp]: "off bs 0 = 0"
  by (simp add: off_def)

lemma off_Suc: "off bs (Suc k) = off bs k + ucast bs"
  by (simp add: off_def algebra_simps)

lemma off_less_iff:
  "piece_fits len bs \<Longrightarrow> k \<le> nblocks len bs \<Longrightarrow> off bs k < len \<longleftrightarrow> k < nblocks len bs"
  by (simp add: word_less_nat_alt unat_off less_nblocks_iff)

lemma unat_blen:
  assumes "piece_fits len bs" "k < nblocks len bs"
  shows "unat (blen len bs k) = min (unat bs) (unat len - k * unat bs)"
proof -
  have le: "off bs k \<le> len" using assms off_less_iff [of len bs k] by simp
  have "unat (len - off bs k) = unat len - k * unat bs"
    using assms le by (simp add: unat_sub unat_off)
  moreover from this have "unat (ucast (len - off bs k) :: u32) = unat len - k * unat bs"
    using assms(1) by (subst unat_down32) (simp_all add: piece_fits_def less_imp_diff_less)
  ultimately show ?thesis
    by (auto simp: blen_def min_def word_le_nat_alt)
qed

definition step_off :: "u64 \<Rightarrow> u32 \<Rightarrow> nat \<Rightarrow> u64" where
  "step_off len bs k = (if k = nblocks len bs then len else off bs k)"

lemma step_off_0: "piece_fits len bs \<Longrightarrow> step_off len bs 0 = 0"
proof -
  assume fits: "piece_fits len bs"
  have "len = 0" if "nblocks len bs = 0"
    using less_nblocks_iff [OF fits, of 0] that by (simp add: unat_eq_0)
  then show ?thesis by (auto simp: step_off_def)
qed

lemma step_off_Suc:
  assumes "piece_fits len bs" "k < nblocks len bs"
  shows "off bs k + ucast (blen len bs k) = step_off len bs (Suc k)"
proof (cases "Suc k < nblocks len bs")
  case True
  then have "Suc k * unat bs < unat len" using assms less_nblocks_iff by blast
  then have "unat (blen len bs k) = unat bs" using unat_blen [OF assms] by simp
  then have "blen len bs k = bs" by (simp add: word_unat_eq_iff)
  with True show ?thesis by (simp add: step_off_def off_Suc)
next
  case False
  then have "\<not> Suc k * unat bs < unat len" using assms less_nblocks_iff by blast
  then have "unat (blen len bs k) = unat len - k * unat bs" using unat_blen [OF assms] by simp
  then have "unat (off bs k) + unat (ucast (blen len bs k) :: u64) = unat len"
    using assms less_nblocks_iff [of len bs k] by (simp add: unat_off)
  then have "off bs k + ucast (blen len bs k) = len"
    using unat_u64_less [of len] by (simp add: word_unat_eq_iff unat_add64)
  with False assms(2) show ?thesis by (simp add: step_off_def)
qed

section \<open>Creation\<close>

definition layout_block :: "u32 \<Rightarrow> u64 \<Rightarrow> u32 \<Rightarrow> nat \<Rightarrow> block" where
  "layout_block i len bs k = block_new i (off bs k) (blen len bs k)"

definition layout_blocks ::
  "u32 \<Rightarrow> u64 \<Rightarrow> u32 \<Rightarrow> nat list \<Rightarrow> (u64, block) hash_map \<Rightarrow> (u64, block) hash_map" where
  "layout_blocks i len bs ks m = foldl (\<lambda>m k. hm_insert (off bs k) (layout_block i len bs k) m) m ks"

lemma new_blocks_run:
  assumes fits: "piece_fits len bs"
  shows "k \<le> nblocks len bs \<Longrightarrow>
    new_blocks i len bs (step_off len bs k) m =
      Some (layout_blocks i len bs [k..<nblocks len bs] m)"
proof (induction "nblocks len bs - k" arbitrary: k m)
  case 0
  then show ?case
    by (simp add: step_off_def layout_blocks_def new_blocks.simps [of i len])
next
  case (Suc d)
  then have k: "k < nblocks len bs" by simp
  then have "off bs k < len" using off_less_iff [OF fits] by simp
  then have "new_blocks i len bs (off bs k) m =
      new_blocks i len bs (step_off len bs (Suc k)) (hm_insert (off bs k) (layout_block i len bs k) m)"
    using step_off_Suc [OF fits k]
    by (subst new_blocks.simps) (simp add: Let_def layout_block_def blen_def)
  also have "\<dots> = Some (layout_blocks i len bs [Suc k..<nblocks len bs]
      (hm_insert (off bs k) (layout_block i len bs k) m))"
    using Suc.hyps k by (intro Suc.hyps(1)) auto
  finally show ?case
    using k by (simp add: step_off_def layout_blocks_def upt_conv_Cons)
qed

lemma new_blocks_stuck:
  assumes "new_blocks i len bs q m = Some r"
  shows "q < len \<longrightarrow> bs \<noteq> 0 \<and> unat (len - q) < 2 ^ 32"
proof (rule new_blocks.raw_induct
    [OF _ assms, where P = "\<lambda>i len bs q m r. q < len \<longrightarrow> bs \<noteq> 0 \<and> unat (len - q) < 2 ^ 32"])
  fix f :: "u32 \<Rightarrow> u64 \<Rightarrow> u32 \<Rightarrow> u64 \<Rightarrow> (u64, block) hash_map \<Rightarrow> (u64, block) hash_map option"
    and i :: u32 and len :: u64 and bs :: u32 and q :: u64 and m r
  assume IH: "\<And>i len bs q m r. f i len bs q m = Some r \<Longrightarrow> q < len \<longrightarrow> bs \<noteq> 0 \<and> unat (len - q) < 2 ^ 32"
    and eq: "(if q < len then
       let block_length = min bs (ucast (len - q))
       in f i len bs (q + ucast block_length) (hm_insert q (block_new i q block_length) m)
     else Some m) = Some r"
  show "q < len \<longrightarrow> bs \<noteq> 0 \<and> unat (len - q) < 2 ^ 32"
  proof
    assume q: "q < len"
    let ?b = "min bs (ucast (len - q))"
    let ?r = "unat (len - q)"
    have r: "?r = unat len - unat q" using q by (simp add: unat_sub)
    have b: "unat ?b \<le> ?r mod 2 ^ 32"
      by (auto simp: min_def word_le_nat_alt unat_down32_mod)
    have "unat ?b \<le> ?r" using b mod_less_eq_dividend by (rule le_trans)
    then have sum: "unat (q + ucast ?b) = unat q + unat ?b"
      using r q unat_u64_less [of len] by (subst unat_add64) (auto simp: word_less_nat_alt)
    have next': "q + ucast ?b < len \<longrightarrow> bs \<noteq> 0 \<and> unat (len - (q + ucast ?b)) < 2 ^ 32"
      by (rule IH) (use eq q in \<open>simp add: Let_def\<close>)
    show "bs \<noteq> 0 \<and> unat (len - q) < 2 ^ 32"
    proof (cases "q + ucast ?b < len")
      case True
      with next' have bs: "bs \<noteq> 0" and small: "unat (len - (q + ucast ?b)) < 2 ^ 32" by auto
      have "unat (len - (q + ucast ?b)) = ?r - unat ?b"
        using True sum r by (simp add: unat_sub)
      with small have "?r - ?r mod 2 ^ 32 < 2 ^ 32" using b by linarith
      then have "?r div 2 ^ 32 = 0" by (simp add: minus_mod_eq_div_mult)
      with bs show ?thesis by simp
    next
      case False
      then have "unat len \<le> unat q + unat ?b" using sum by (simp add: word_less_nat_alt)
      then have "?r \<le> unat ?b" using r by simp
      with b have "?r \<le> ?r mod 2 ^ 32" by simp
      then have "?r < 2 ^ 32" by (metis le_less_trans mod_less_divisor zero_less_numeral zero_less_power)
      moreover have "0 < ?r" using q r by (simp add: word_less_nat_alt)
      ultimately show ?thesis using \<open>?r \<le> unat ?b\<close> by (auto simp: min_def split: if_splits)
    qed
  qed
qed


lemma off_inj:
  "piece_fits len bs \<Longrightarrow> j < nblocks len bs \<Longrightarrow> k < nblocks len bs \<Longrightarrow> off bs j = off bs k \<Longrightarrow> j = k"
proof -
  assume a: "piece_fits len bs" "j < nblocks len bs" "k < nblocks len bs" "off bs j = off bs k"
  then have "j * unat bs = k * unat bs" by (metis less_imp_le unat_off)
  moreover have "unat bs \<noteq> 0" using a(1,2) less_nblocks_iff [of len bs j] by (auto simp: piece_fits_def unat_eq_0)
  ultimately show "j = k" by simp
qed

lemma layout_blocks_snoc:
  "layout_blocks i len bs (ks @ [k]) m =
     hm_insert (off bs k) (layout_block i len bs k) (layout_blocks i len bs ks m)"
  by (simp add: layout_blocks_def)

lemma layout_blocks_other:
  "q \<notin> off bs ` set ks \<Longrightarrow> hm_get (layout_blocks i len bs ks m) q = hm_get m q"
  by (induction ks rule: rev_induct) (auto simp: layout_blocks_snoc layout_blocks_def)

lemma layout_blocks_get:
  assumes "piece_fits len bs" "k \<in> set ks" "set ks \<subseteq> {..<nblocks len bs}"
  shows "hm_get (layout_blocks i len bs ks m) (off bs k) = Some (layout_block i len bs k)"
  using assms(2,3)
proof (induction ks rule: rev_induct)
  case (snoc j ks)
  show ?case
  proof (cases "off bs k = off bs j")
    case True
    with snoc.prems have "k = j" by (intro off_inj [OF assms(1)]) auto
    then show ?thesis by (simp add: layout_blocks_snoc)
  next
    case False
    with snoc show ?thesis by (auto simp: layout_blocks_snoc)
  qed
qed simp

lemma layout_blocks_wf: "hm_wf m \<Longrightarrow> hm_wf (layout_blocks i len bs ks m)"
  by (induction ks rule: rev_induct) (simp_all add: layout_blocks_snoc layout_blocks_def)

text \<open>
  The shape every operation keeps: the block at each multiple of the block size below the length,
  and nothing else.
\<close>

definition piece_layout :: "piece \<Rightarrow> bool" where
  "piece_layout p \<longleftrightarrow>
     piece_fits (p_length p) (p_block_size p) \<and> hm_wf (p_blocks p) \<and>
     (\<forall>q b. hm_get (p_blocks p) q = Some b \<longrightarrow> block_wf b \<and>
        (\<exists>k < nblocks (p_length p) (p_block_size p).
           q = off (p_block_size p) k \<and>
           block_id b = (p_index p, q, blen (p_length p) (p_block_size p) k))) \<and>
     (\<forall>k < nblocks (p_length p) (p_block_size p). hm_get (p_blocks p) (off (p_block_size p) k) \<noteq> None)"

lemma piece_new_eq:
  assumes "piece_fits len bs"
  shows "piece_new i len h bs =
    Some \<lparr> p_index = i, p_length = len, p_hash = h,
      p_blocks = layout_blocks i len bs [0..<nblocks len bs] [],
      p_state = PieceMissing, p_block_size = bs, p_priority = 1 \<rparr>"
  using new_blocks_run [OF assms, of 0 i "[]"] by (simp add: piece_new_def step_off_0 [OF assms])

lemma piece_new_fits: "piece_new i len h bs = Some p \<Longrightarrow> piece_fits len bs"
  using new_blocks_stuck [of i len bs 0 "[]"]
  by (auto simp: piece_new_def piece_fits_def word_gt_0)

lemma layout_blocks_Some:
  assumes fits: "piece_fits len bs"
  shows "hm_get (layout_blocks i len bs [0..<nblocks len bs] []) q = Some b \<longleftrightarrow>
     (\<exists>k < nblocks len bs. q = off bs k \<and> b = layout_block i len bs k)"
proof (cases "\<exists>k < nblocks len bs. q = off bs k")
  case True
  then obtain k where k: "k < nblocks len bs" "q = off bs k" by blast
  then have "hm_get (layout_blocks i len bs [0..<nblocks len bs] []) q = Some (layout_block i len bs k)"
    using layout_blocks_get [OF fits, of k "[0..<nblocks len bs]"] by (auto simp: lessThan_atLeast0)
  with k show ?thesis by (auto dest: off_inj [OF fits])
next
  case False
  then have "q \<notin> off bs ` set [0..<nblocks len bs]" by auto
  from layout_blocks_other [OF this] False show ?thesis by auto
qed

lemma piece_layout_block:
  assumes "piece_layout p" "k < nblocks (p_length p) (p_block_size p)"
  obtains b where "hm_get (p_blocks p) (off (p_block_size p) k) = Some b" "block_wf b"
    "block_id b = (p_index p, off (p_block_size p) k, blen (p_length p) (p_block_size p) k)"
proof -
  from assms obtain b where b: "hm_get (p_blocks p) (off (p_block_size p) k) = Some b"
    by (auto simp: piece_layout_def)
  with assms obtain j where j: "j < nblocks (p_length p) (p_block_size p)"
    "off (p_block_size p) k = off (p_block_size p) j" "block_wf b"
    "block_id b = (p_index p, off (p_block_size p) k, blen (p_length p) (p_block_size p) j)"
    unfolding piece_layout_def by blast
  moreover have "j = k" using assms j off_inj by (metis piece_layout_def)
  ultimately show ?thesis using b that by blast
qed

lemma piece_new_layout:
  assumes "piece_new i len h bs = Some p"
  shows "piece_layout p"
proof -
  note fits = piece_new_fits [OF assms]
  show ?thesis
    using assms
    by (auto simp: piece_new_eq [OF fits] piece_layout_def fits layout_blocks_wf
        layout_blocks_Some layout_block_def layout_blocks_get) blast
qed

named_theorems layout_intros \<open>every operation keeps the layout of a piece\<close>

lemma piece_layout_insert:
  assumes "piece_layout p" "hm_get (p_blocks p) q = Some b" "block_id b' = block_id b" "block_wf b'"
  shows "piece_layout (p\<lparr> p_blocks := hm_insert q b' (p_blocks p) \<rparr>)"
  using assms unfolding piece_layout_def by auto

lemma piece_layout_map:
  assumes "piece_layout p" "\<And>b. block_id (f b) = block_id b" "\<And>b. block_wf b \<Longrightarrow> block_wf (f b)"
  shows "piece_layout (p\<lparr> p_blocks := hm_map f (p_blocks p) \<rparr>)"
  using assms unfolding piece_layout_def by auto

lemma piece_layout_state [simp]: "piece_layout (p\<lparr> p_state := s \<rparr>) = piece_layout p"
  by (simp add: piece_layout_def)

lemma piece_layout_request [layout_intros]:
  "piece_layout p \<Longrightarrow> piece_layout (piece_request_from_peer now q ip p)"
  by (auto simp: piece_request_from_peer_def split: option.split intro: piece_layout_insert)

lemma piece_layout_mask_written [layout_intros]:
  "piece_layout p \<Longrightarrow> piece_layout (piece_mask_written p)"
  by (simp add: piece_mask_written_def)

lemma piece_layout_reset [layout_intros]:
  "piece_layout p \<Longrightarrow> piece_layout (snd (reset_timeout_requests now p))"
  by (auto simp: reset_timeout_requests_def intro!: piece_layout_map block_intros)

lemma piece_layout_verify [layout_intros]:
  "piece_layout p \<Longrightarrow> verify sha1 p = Some (r, p') \<Longrightarrow> piece_layout p'"
  using piece_layout_map [of p cancle]
  by (auto simp: verify_def split: option.splits if_splits)

lemma piece_layout_receive [layout_intros]:
  "piece_layout p \<Longrightarrow> piece_receive_block sha1 q data p = Some (r, p') \<Longrightarrow> piece_layout p'"
  by (auto simp: piece_receive_block_def Let_def split: option.splits if_splits
      intro!: piece_layout_insert block_wf_receive elim!: piece_layout_verify [rotated])
    (auto simp: piece_layout_def)

section \<open>Properties\<close>

text \<open>
  C35: The loop that cuts a piece into blocks ends exactly for an empty piece or for a non-zero block
  size and a length below 2 to the 32. The remaining length is truncated to 32 bits, so from 4 GiB
  on the loop reaches a remainder whose low 32 bits are zero and then adds nothing for ever.
\<close>

theorem piece_new_terminates_iff:
  "(\<exists>p. piece_new i len h bs = Some p) \<longleftrightarrow> len = 0 \<or> bs \<noteq> 0 \<and> unat len < 2 ^ 32"
proof
  assume "\<exists>p. piece_new i len h bs = Some p"
  then obtain r where "new_blocks i len bs 0 [] = Some r" by (auto simp: piece_new_def)
  from new_blocks_stuck [OF this] show "len = 0 \<or> bs \<noteq> 0 \<and> unat len < 2 ^ 32"
    by (auto simp: word_gt_0)
next
  assume "len = 0 \<or> bs \<noteq> 0 \<and> unat len < 2 ^ 32"
  then have fits: "piece_fits len bs" by (auto simp: piece_fits_def)
  from new_blocks_run [OF fits, of 0 i "[]"] show "\<exists>p. piece_new i len h bs = Some p"
    by (simp add: piece_new_def step_off_0 [OF fits])
qed

text \<open>
  What a new piece holds: one missing block at each multiple of the block size below the length,
  as long as the block size except for the last, which takes the rest; and nothing else.
\<close>

theorem piece_new_blocks:
  assumes new: "piece_new i len h bs = Some p"
  shows "hm_get (p_blocks p) q = Some b \<longleftrightarrow>
    q < len \<and> unat bs dvd unat q \<and>
    b = block_new i q (word_of_nat (min (unat bs) (unat len - unat q)))"
proof -
  note fits = piece_new_fits [OF new]
  have blocks: "p_blocks p = layout_blocks i len bs [0..<nblocks len bs] []"
    using new by (auto simp: piece_new_eq [OF fits])
  have k: "off bs k < len \<and> unat bs dvd unat (off bs k) \<and>
      layout_block i len bs k =
        block_new i (off bs k) (word_of_nat (min (unat bs) (unat len - unat (off bs k))))"
    if "k < nblocks len bs" for k
    using that off_less_iff [OF fits, of k] unat_blen [OF fits that, symmetric]
    by (simp add: unat_off [OF fits] layout_block_def)
  have "\<exists>k < nblocks len bs. q = off bs k" if "q < len" "unat bs dvd unat q"
  proof -
    from that(2) obtain k where "unat q = k * unat bs" by (metis dvdE mult.commute)
    moreover from this that(1) have "k < nblocks len bs"
      by (simp add: less_nblocks_iff [OF fits] word_less_nat_alt)
    ultimately show ?thesis by (metis word_unat_eq_iff unat_off [OF fits] less_imp_le)
  qed
  with k show ?thesis unfolding blocks layout_blocks_Some [OF fits] by metis
qed

theorem piece_new_blocks_witness:
  "\<exists>p. piece_new 0 40000 [] 16384 = Some p \<and>
    hm_get (p_blocks p) 32768 = Some (block_new 0 32768 7232)"
proof -
  obtain p where p: "piece_new 0 40000 [] 16384 = Some p"
    using piece_new_eq [of 40000 16384 0 "[]"] by (auto simp: piece_fits_def)
  from piece_new_blocks [OF p, of 32768 "block_new 0 32768 7232"] p show ?thesis by auto
qed

end
