(* ===== verification/Machine.thy ===== *)
theory Machine
  imports Prelude
begin

text \<open>
  What a stateful component promises, as a locale: each of its operations ends, keeps an invariant and
  leaves the fields that identify the component alone. A piece, the piece manager and the download
  manager are interpretations; that any sequence of operations then ends with the invariant is
  proved here once.
\<close>

section \<open>Sequences of operations\<close>

text \<open>\<open>None\<close> is an operation that does not come back.\<close>

fun run_ops :: "('op \<Rightarrow> 's \<Rightarrow> 's option) \<Rightarrow> 'op list \<Rightarrow> 's \<Rightarrow> 's option" where
  "run_ops step [] s = Some s"
| "run_ops step (x # xs) s = Option.bind (step x s) (run_ops step xs)"

lemma run_ops_append: "run_ops step (xs @ ys) s = Option.bind (run_ops step xs s) (run_ops step ys)"
  by (induction xs arbitrary: s) (simp_all split: Option.bind_split)

section \<open>Components\<close>

locale op_machine =
  fixes inv :: "'s \<Rightarrow> bool"
    and step :: "'op \<Rightarrow> 's \<Rightarrow> 's option"
    and ident :: "'s \<Rightarrow> 'i"
  assumes step_ok: "inv s \<Longrightarrow> \<exists>s'. step x s = Some s' \<and> inv s' \<and> ident s' = ident s"
begin

lemma run_ok: "inv s \<Longrightarrow> \<exists>s'. run_ops step xs s = Some s' \<and> inv s' \<and> ident s' = ident s"
proof (induction xs arbitrary: s)
  case (Cons x xs)
  from step_ok [OF Cons.prems] obtain s1
    where "step x s = Some s1" "inv s1" "ident s1 = ident s" by blast
  with Cons.IH [of s1] show ?case by auto
qed simp

lemma run_total: "inv s \<Longrightarrow> run_ops step xs s \<noteq> None"
  using run_ok [of s xs] by auto

lemma run_inv: "inv s \<Longrightarrow> run_ops step xs s = Some s' \<Longrightarrow> inv s'"
  using run_ok [of s xs] by auto

lemma run_ident: "inv s \<Longrightarrow> run_ops step xs s = Some s' \<Longrightarrow> ident s' = ident s"
  using run_ok [of s xs] by auto

end

text \<open>A component whose answer to a query, whenever it is asked, is right for its identity.\<close>

locale safe_machine = op_machine inv step ident
  for inv :: "'s \<Rightarrow> bool" and step :: "'op \<Rightarrow> 's \<Rightarrow> 's option" and ident :: "'s \<Rightarrow> 'i" +
  fixes query :: "'q \<Rightarrow> 's \<Rightarrow> 'r option"
    and right :: "'i \<Rightarrow> 'q \<Rightarrow> 'r \<Rightarrow> bool"
  assumes query_ok: "inv s \<Longrightarrow> \<exists>r. query q s = Some r \<and> right (ident s) q r"
begin

lemma run_query:
  assumes "inv s"
  shows "\<exists>s' r. run_ops step xs s = Some s' \<and> query q s' = Some r \<and> right (ident s) q r"
proof -
  from run_ok [OF assms, of xs] obtain s'
    where s': "run_ops step xs s = Some s'" "inv s'" "ident s' = ident s" by blast
  with query_ok [of s' q] show ?thesis by auto
qed

end

section \<open>Refinement\<close>

text \<open>
  A detailed system that implements an abstract one: every detailed step is some abstract steps, or
  none, between the states it stands for.
\<close>

locale simulation =
  fixes astep :: "'a \<Rightarrow> 'a \<Rightarrow> bool"
    and cstep :: "'c \<Rightarrow> 'c \<Rightarrow> bool"
    and inv :: "'c \<Rightarrow> bool"
    and abst :: "'c \<Rightarrow> 'a"
  assumes match: "inv s \<Longrightarrow> cstep s s' \<Longrightarrow> inv s' \<and> astep\<^sup>*\<^sup>* (abst s) (abst s')"
begin

lemma steps_match:
  assumes "cstep\<^sup>*\<^sup>* s s'" "inv s"
  shows "inv s' \<and> astep\<^sup>*\<^sup>* (abst s) (abst s')"
  using assms
proof (induction rule: rtranclp_induct)
  case (step s1 s2)
  with match [of s1 s2] show ?case by (meson rtranclp_trans)
qed simp

lemma inv_steps: "cstep\<^sup>*\<^sup>* s s' \<Longrightarrow> inv s \<Longrightarrow> inv s'"
  using steps_match by blast

end

text \<open>
  A system that is never stuck with work left: as long as it is not done it has a step that keeps what
  identifies the work and leaves less of it. Then it can always get to a state where it is done.
\<close>

locale draining =
  fixes step :: "'s \<Rightarrow> 's \<Rightarrow> bool"
    and inv :: "'s \<Rightarrow> bool"
    and finished :: "'s \<Rightarrow> bool"
    and ident :: "'s \<Rightarrow> 'i"
    and work :: "'s \<Rightarrow> nat"
  assumes progress: "inv s \<Longrightarrow> \<not> finished s \<Longrightarrow>
    \<exists>s'. step s s' \<and> inv s' \<and> ident s' = ident s \<and> work s' < work s"
begin

lemma can_finish:
  "inv s \<Longrightarrow> \<exists>s'. step\<^sup>*\<^sup>* s s' \<and> inv s' \<and> finished s' \<and> ident s' = ident s"
proof (induction "work s" arbitrary: s rule: less_induct)
  case less
  show ?case
  proof (cases "finished s")
    case False
    from progress [OF less.prems False] obtain s1
      where s1: "step s s1" "inv s1" "ident s1 = ident s" "work s1 < work s" by blast
    from less.hyps [OF s1(4,2)] s1 show ?thesis by (metis converse_rtranclp_into_rtranclp)
  qed (use less.prems in blast)
qed

end

end
