(* ===== verification/Piece_Verify.thy ===== *)
theory Piece_Verify
  imports Piece_Layout Machine
begin

text \<open>
  Verification of a piece, \<open>src/core/peer/piece/piece.rs\<close>: what its two loops compute (the
  concatenation of the blocks in order), that data which is all there has passed the hash check
  whatever the order of operations, that delivering the right blocks in any order completes the
  piece, and what late blocks and repeated requests do.
\<close>

section \<open>Content\<close>

text \<open>The data of the received block at an offset, and of the blocks from the \<open>k\<close>-th on.\<close>

definition block_data :: "piece \<Rightarrow> u64 \<Rightarrow> bytes option" where
  "block_data p q =
    (case hm_get (p_blocks p) q of
       Some b \<Rightarrow> (case b_state b of BlockReceived bs \<Rightarrow> Some bs | _ \<Rightarrow> None)
     | None \<Rightarrow> None)"

definition content_from :: "piece \<Rightarrow> nat \<Rightarrow> bytes option" where
  "content_from p k =
    map_option concat (those (map (\<lambda>j. block_data p (off (p_block_size p) j))
      [k..<nblocks (p_length p) (p_block_size p)]))"

definition piece_content :: "piece \<Rightarrow> bytes option" where
  "piece_content p = content_from p 0"

lemma content_from_end: "content_from p (nblocks (p_length p) (p_block_size p)) = Some []"
  by (simp add: content_from_def)

lemma content_from_step:
  "k < nblocks (p_length p) (p_block_size p) \<Longrightarrow>
   content_from p k =
     (case block_data p (off (p_block_size p) k) of
        None \<Rightarrow> None
      | Some d \<Rightarrow> map_option (\<lambda>rest. d @ rest) (content_from p (Suc k)))"
  by (simp add: content_from_def upt_conv_Cons option.map_comp comp_def split: option.split)

lemma verify_buf_content:
  assumes layout: "piece_layout p"
  shows "k \<le> nblocks (p_length p) (p_block_size p) \<Longrightarrow>
    verify_buf p (off (p_block_size p) k) acc = Some (map_option (\<lambda>d. acc @ d) (content_from p k))"
proof (induction "nblocks (p_length p) (p_block_size p) - k" arbitrary: k acc)
  case 0
  then have k: "k = nblocks (p_length p) (p_block_size p)" by simp
  have "\<not> off (p_block_size p) k < p_length p"
    using layout k off_less_iff [of "p_length p" "p_block_size p" k] by (auto simp: piece_layout_def)
  with k show ?case by (simp add: verify_buf.simps [of p] content_from_end)
next
  case (Suc d)
  then have k: "k < nblocks (p_length p) (p_block_size p)" by simp
  have less: "off (p_block_size p) k < p_length p"
    using layout k off_less_iff [of "p_length p" "p_block_size p" k] by (auto simp: piece_layout_def)
  have IH: "verify_buf p (off (p_block_size p) (Suc k)) acc' =
      Some (map_option (\<lambda>d. acc' @ d) (content_from p (Suc k)))" for acc'
    using Suc.hyps k by (intro Suc.hyps(1)) auto
  show ?case
    using less k IH
    by (subst verify_buf.simps)
      (simp add: content_from_step block_data_def off_Suc [symmetric] option.map_comp comp_def
        split: option.split block_state.split)
qed

lemma piece_data_content:
  assumes layout: "piece_layout p"
  shows "k \<le> nblocks (p_length p) (p_block_size p) \<Longrightarrow>
    piece_data_from p (step_off (p_length p) (p_block_size p) k) acc =
      Some (map_option (\<lambda>d. acc @ d) (content_from p k))"
proof (induction "nblocks (p_length p) (p_block_size p) - k" arbitrary: k acc)
  case 0
  then have k: "k = nblocks (p_length p) (p_block_size p)" by simp
  then show ?case by (simp add: piece_data_from.simps [of p] content_from_end step_off_def)
next
  case (Suc d)
  then have k: "k < nblocks (p_length p) (p_block_size p)" by simp
  have fits: "piece_fits (p_length p) (p_block_size p)" using layout by (simp add: piece_layout_def)
  have less: "off (p_block_size p) k < p_length p" using k off_less_iff [OF fits, of k] by simp
  from piece_layout_block [OF layout k]
  obtain b where b: "hm_get (p_blocks p) (off (p_block_size p) k) = Some b"
    and "b_length b = blen (p_length p) (p_block_size p) k"
    by (auto simp: block_id_def)
  then have nxt: "off (p_block_size p) k + ucast (b_length b) =
      step_off (p_length p) (p_block_size p) (Suc k)"
    using step_off_Suc [OF fits k] by simp
  have IH: "piece_data_from p (step_off (p_length p) (p_block_size p) (Suc k)) acc' =
      Some (map_option (\<lambda>d. acc' @ d) (content_from p (Suc k)))" for acc'
    using Suc.hyps k by (intro Suc.hyps(1)) auto
  have "step_off (p_length p) (p_block_size p) k = off (p_block_size p) k"
    using k by (simp add: step_off_def)
  with less k IH b nxt show ?case
    by (subst piece_data_from.simps)
      (simp add: content_from_step block_data_def option.map_comp comp_def split: block_state.split)
qed

lemma verify_eq:
  assumes "piece_layout p"
  shows "verify sha1 p =
    Some (case piece_content p of
        None \<Rightarrow> (False, p)
      | Some d \<Rightarrow>
          if sha1 d = p_hash p then (True, p\<lparr> p_state := PieceComplete \<rparr>)
          else (False, p\<lparr> p_blocks := hm_map cancle (p_blocks p), p_state := PieceMissing \<rparr>))"
  using verify_buf_content [OF assms, of 0 "[]"]
  by (simp add: verify_def piece_content_def option.map_ident split: option.split)

lemma piece_get_data_eq:
  assumes "piece_layout p"
  shows "piece_get_data p = Some (if p_state p = PieceComplete then piece_content p else None)"
  using piece_data_content [OF assms, of 0 "[]"] assms
  by (simp add: piece_get_data_def piece_content_def step_off_0 piece_layout_def option.map_ident)

lemma those_None_iff: "those xs = None \<longleftrightarrow> None \<in> set xs"
  by (induction xs) (auto split: option.splits)

lemma content_from_None_iff:
  "content_from p k = None \<longleftrightarrow>
     (\<exists>j. k \<le> j \<and> j < nblocks (p_length p) (p_block_size p) \<and>
        block_data p (off (p_block_size p) j) = None)"
  by (force simp: content_from_def those_None_iff)

lemma piece_content_None_iff:
  "piece_content p = None \<longleftrightarrow>
     (\<exists>j < nblocks (p_length p) (p_block_size p). block_data p (off (p_block_size p) j) = None)"
  by (simp add: piece_content_def content_from_None_iff)

lemma content_state [simp]:
  "piece_content (p\<lparr> p_state := s \<rparr>) = piece_content p"
  "block_data (p\<lparr> p_state := s \<rparr>) q = block_data p q"
  by (simp_all add: piece_content_def content_from_def block_data_def)

lemma content_blocks:
  assumes "\<And>q. block_data p' q = block_data p q" "p_length p' = p_length p"
    "p_block_size p' = p_block_size p"
  shows "piece_content p' = piece_content p"
  using assms by (simp add: piece_content_def content_from_def)

lemma block_data_insert:
  "block_data (p\<lparr> p_blocks := hm_insert q b (p_blocks p) \<rparr>) q' =
     (if q' = q then (case b_state b of BlockReceived bs \<Rightarrow> Some bs | _ \<Rightarrow> None) else block_data p q')"
  by (simp add: block_data_def)

lemma fully_downloaded_iff:
  assumes "piece_layout p"
  shows "is_fully_downloaded p \<longleftrightarrow>
    (\<forall>k < nblocks (p_length p) (p_block_size p).
       \<forall>b. hm_get (p_blocks p) (off (p_block_size p) k) = Some b \<longrightarrow> block_is_complete b)"
proof -
  have wf: "hm_wf (p_blocks p)" using assms by (simp add: piece_layout_def)
  show ?thesis
    unfolding is_fully_downloaded_def list_all_iff
  proof safe
    fix k b
    assume "\<forall>b \<in> set (hm_values (p_blocks p)). block_is_complete b"
      and "hm_get (p_blocks p) (off (p_block_size p) k) = Some b"
    then show "block_is_complete b" using hm_values_iff [OF wf] by blast
  next
    fix b
    assume *: "\<forall>k<nblocks (p_length p) (p_block_size p).
        \<forall>b. hm_get (p_blocks p) (off (p_block_size p) k) = Some b \<longrightarrow> block_is_complete b"
      and "b \<in> set (hm_values (p_blocks p))"
    then obtain q where "hm_get (p_blocks p) q = Some b" using hm_values_iff [OF wf] by blast
    with * assms show "block_is_complete b" unfolding piece_layout_def by blast
  qed
qed

lemma content_fully_downloaded:
  "piece_layout p \<Longrightarrow> piece_content p \<noteq> None \<Longrightarrow> is_fully_downloaded p"
  by (auto simp: fully_downloaded_iff piece_content_None_iff block_data_def block_is_complete_def
      split: option.splits block_state.splits)

lemma nblocks_pos:
  "piece_fits len bs \<Longrightarrow> k < nblocks len bs \<Longrightarrow> len \<noteq> 0"
  using less_nblocks_iff [of len bs k] by auto

lemma layout_length_pos: "piece_layout p \<Longrightarrow> hm_get (p_blocks p) q = Some b \<Longrightarrow> p_length p \<noteq> 0"
  by (metis nblocks_pos piece_layout_def)

lemma nblocks_pos_iff: "piece_fits len bs \<Longrightarrow> 0 < nblocks len bs \<longleftrightarrow> len \<noteq> 0"
  using less_nblocks_iff [of len bs 0] by (auto simp: unat_gt_0)

lemma content_cancelled:
  assumes "piece_layout p" "p_length p \<noteq> 0"
  shows "piece_content (p\<lparr> p_blocks := hm_map cancle (p_blocks p), p_state := s \<rparr>) = None"
proof -
  have "0 < nblocks (p_length p) (p_block_size p)"
    using assms nblocks_pos_iff by (auto simp: piece_layout_def)
  then show ?thesis
    by (auto simp: piece_content_None_iff block_data_def cancle_def split: option.split intro!: exI [of _ 0])
qed

section \<open>Soundness of verification\<close>

text \<open>
  What every operation keeps, in any order: data that is all there has passed the hash check.
\<close>

definition piece_sound :: "(bytes \<Rightarrow> bytes) \<Rightarrow> piece \<Rightarrow> bool" where
  "piece_sound sha1 p \<longleftrightarrow> piece_layout p \<and>
     (\<forall>d. p_length p \<noteq> 0 \<longrightarrow> piece_content p = Some d \<longrightarrow> sha1 d = p_hash p) \<and>
     (p_state p = PieceComplete \<longrightarrow> p_length p \<noteq> 0)"

lemma piece_sound_new: "piece_new i len h bs = Some p \<Longrightarrow> piece_sound sha1 p"
proof -
  assume new: "piece_new i len h bs = Some p"
  note fits = piece_new_fits [OF new]
  note layout = piece_new_layout [OF new]
  have p: "p_length p = len" "p_state p = PieceMissing" "p_block_size p = bs"
    "p_blocks p = layout_blocks i len bs [0..<nblocks len bs] []"
    using new by (auto simp: piece_new_eq [OF fits])
  have "piece_content p = None" if "len \<noteq> 0"
  proof -
    have "0 < nblocks len bs" using that fits nblocks_pos_iff by blast
    moreover from this have "hm_get (p_blocks p) (off bs 0) = Some (layout_block i len bs 0)"
      using layout_blocks_Some [OF fits, of i "off bs 0"] p by auto
    ultimately show ?thesis
      using p by (auto simp: piece_content_None_iff block_data_def layout_block_def block_new_def
          intro!: exI [of _ 0])
  qed
  with layout p show ?thesis by (auto simp: piece_sound_def)
qed

lemma piece_receive_total:
  "piece_layout p \<Longrightarrow> \<exists>r p'. piece_receive_block sha1 q data p = Some (r, p')"
proof -
  assume layout: "piece_layout p"
  show ?thesis
  proof (cases "hm_get (p_blocks p) q")
    case None
    then have "piece_receive_block sha1 q data p = Some (False, p)"
      by (simp add: piece_receive_block_def)
    then show ?thesis by blast
  next
    case (Some b)
    let ?p = "p\<lparr> p_blocks := hm_insert q (receive_data data b) (p_blocks p) \<rparr>"
    have "piece_layout ?p"
      using layout Some by (intro piece_layout_insert block_wf_receive) (auto simp: piece_layout_def)
    from verify_eq [OF this] Some show ?thesis
      by (auto simp: piece_receive_block_def Let_def split: option.splits if_splits)
  qed
qed

lemma piece_receive_cases:
  assumes layout: "piece_layout p" and b: "hm_get (p_blocks p) q = Some b"
    and res: "piece_receive_block sha1 q data p = Some (r, p')"
    and p1: "p1 = p\<lparr> p_blocks := hm_insert q (receive_data data b) (p_blocks p) \<rparr>"
  shows "r" and "piece_layout p1"
    and "(piece_content p1 = None \<and> p' = p1) \<or>
      (\<exists>d. piece_content p1 = Some d \<and> is_fully_downloaded p1 \<and>
         (if sha1 d = p_hash p then p' = p1\<lparr> p_state := PieceComplete \<rparr>
          else p' = p1\<lparr> p_blocks := hm_map cancle (p_blocks p1), p_state := PieceMissing \<rparr>))"
proof -
  show layout1: "piece_layout p1"
    unfolding p1 using layout b by (intro piece_layout_insert block_wf_receive) (auto simp: piece_layout_def)
  have res1: "(if is_fully_downloaded p1 then map_option (\<lambda>(_, p). (True, p)) (verify sha1 p1)
      else Some (True, p1)) = Some (r, p')"
    using res unfolding piece_receive_block_def Let_def b option.case p1 .
  have h: "p_hash p1 = p_hash p" by (simp add: p1)
  from res1 show r by (auto split: if_splits)
  show "(piece_content p1 = None \<and> p' = p1) \<or>
      (\<exists>d. piece_content p1 = Some d \<and> is_fully_downloaded p1 \<and>
         (if sha1 d = p_hash p then p' = p1\<lparr> p_state := PieceComplete \<rparr>
          else p' = p1\<lparr> p_blocks := hm_map cancle (p_blocks p1), p_state := PieceMissing \<rparr>))"
  proof (cases "piece_content p1")
    case None
    with res1 show ?thesis by (auto simp: verify_eq [OF layout1] split: if_splits)
  next
    case (Some d)
    with layout1 have "is_fully_downloaded p1" by (simp add: content_fully_downloaded)
    with Some res1 h show ?thesis by (auto simp: verify_eq [OF layout1])
  qed
qed

lemma piece_sound_receive:
  assumes "piece_sound sha1 p" "piece_receive_block sha1 q data p = Some (r, p')"
  shows "piece_sound sha1 p'"
proof (cases "hm_get (p_blocks p) q")
  case None
  with assms show ?thesis by (simp add: piece_receive_block_def)
next
  case (Some b)
  let ?p = "p\<lparr> p_blocks := hm_insert q (receive_data data b) (p_blocks p) \<rparr>"
  from assms(1) have layout: "piece_layout p" by (simp add: piece_sound_def)
  note cases = piece_receive_cases [OF layout Some assms(2) refl]
  have pos: "p_length p \<noteq> 0" using layout_length_pos [OF layout Some] .
  have layout': "piece_layout p'" using piece_layout_receive [OF layout assms(2)] .
  from cases(3) show ?thesis
  proof
    assume "piece_content ?p = None \<and> p' = ?p"
    with layout' pos show ?thesis by (simp add: piece_sound_def)
  next
    assume "\<exists>d. piece_content ?p = Some d \<and> is_fully_downloaded ?p \<and>
         (if sha1 d = p_hash p then p' = ?p\<lparr> p_state := PieceComplete \<rparr>
          else p' = ?p\<lparr> p_blocks := hm_map cancle (p_blocks ?p), p_state := PieceMissing \<rparr>)"
    then obtain d where d: "piece_content ?p = Some d"
      and p': "if sha1 d = p_hash p then p' = ?p\<lparr> p_state := PieceComplete \<rparr>
          else p' = ?p\<lparr> p_blocks := hm_map cancle (p_blocks ?p), p_state := PieceMissing \<rparr>"
      by blast
    show ?thesis
    proof (cases "sha1 d = p_hash p")
      case True
      then have "p' = ?p\<lparr> p_state := PieceComplete \<rparr>" using p' by simp
      with True d layout' pos show ?thesis by (simp add: piece_sound_def)
    next
      case False
      then have "p' = ?p\<lparr> p_blocks := hm_map cancle (p_blocks ?p), p_state := PieceMissing \<rparr>"
        using p' by simp
      with layout' content_cancelled [OF cases(2), of PieceMissing] pos show ?thesis
        by (simp add: piece_sound_def)
    qed
  qed
qed

lemma those_mono:
  "(\<And>x d. x \<in> set xs \<Longrightarrow> f x = Some d \<Longrightarrow> g x = Some d) \<Longrightarrow>
   those (map f xs) = Some ds \<Longrightarrow> those (map g xs) = Some ds"
  by (induction xs arbitrary: ds) (auto split: option.splits)

lemma content_mono:
  assumes "\<And>q d. block_data p' q = Some d \<Longrightarrow> block_data p q = Some d"
    and "p_length p' = p_length p" "p_block_size p' = p_block_size p"
    and "piece_content p' = Some d"
  shows "piece_content p = Some d"
  using assms(4) those_mono [of _ "\<lambda>j. block_data p' (off (p_block_size p') j)"
      "\<lambda>j. block_data p (off (p_block_size p) j)"]
  by (auto simp: piece_content_def content_from_def assms(1-3))

lemma piece_sound_mono:
  assumes "piece_sound sha1 p" "piece_layout p'"
    and "\<And>q d. block_data p' q = Some d \<Longrightarrow> block_data p q = Some d"
    and "p_length p' = p_length p" "p_block_size p' = p_block_size p" "p_hash p' = p_hash p"
    and "p_state p' = PieceComplete \<Longrightarrow> p_state p = PieceComplete"
  shows "piece_sound sha1 p'"
  using assms(1,2,4-7) content_mono [of p' p] assms(3) by (auto simp: piece_sound_def)

lemma piece_sound_layout: "piece_sound sha1 p \<Longrightarrow> piece_layout p"
  by (simp add: piece_sound_def)

lemma block_data_request:
  "block_data (piece_request_from_peer now q ip p) q' = Some d \<Longrightarrow> block_data p q' = Some d"
  by (auto simp: piece_request_from_peer_def block_data_insert block_request_from_peer_def
      split: option.splits if_splits)

lemma request_frame [simp]:
  "p_index (piece_request_from_peer now q ip p) = p_index p"
  "p_length (piece_request_from_peer now q ip p) = p_length p"
  "p_block_size (piece_request_from_peer now q ip p) = p_block_size p"
  "p_hash (piece_request_from_peer now q ip p) = p_hash p"
  "p_state (piece_request_from_peer now q ip p) = p_state p"
  by (simp_all add: piece_request_from_peer_def split: option.split)

lemma reset_frame [simp]:
  "p_index (snd (reset_timeout_requests now p)) = p_index p"
  "p_length (snd (reset_timeout_requests now p)) = p_length p"
  "p_block_size (snd (reset_timeout_requests now p)) = p_block_size p"
  "p_hash (snd (reset_timeout_requests now p)) = p_hash p"
  "p_state (snd (reset_timeout_requests now p)) = p_state p"
  by (simp_all add: reset_timeout_requests_def)

lemma piece_sound_request:
  assumes "piece_sound sha1 p"
  shows "piece_sound sha1 (piece_request_from_peer now q ip p)"
  by (rule piece_sound_mono [OF assms])
    (simp_all add: piece_layout_request piece_sound_layout [OF assms], erule block_data_request)

lemma piece_sound_mask_written:
  assumes "piece_sound sha1 p"
  shows "piece_sound sha1 (piece_mask_written p)"
  unfolding piece_mask_written_def
  by (rule piece_sound_mono [OF assms]) (simp_all add: piece_sound_layout [OF assms])

lemma block_data_reset [simp]: "block_data (snd (reset_timeout_requests now p)) q = block_data p q"
  by (auto simp: block_data_def reset_timeout_requests_def block_reset_def cancle_def
      split: option.splits block_state.splits)

lemma piece_sound_reset:
  assumes "piece_sound sha1 p"
  shows "piece_sound sha1 (snd (reset_timeout_requests now p))"
  by (rule piece_sound_mono [OF assms])
    (simp_all add: piece_layout_reset piece_sound_layout [OF assms])

lemmas piece_sound_intros = piece_sound_request piece_sound_mask_written piece_sound_reset
  piece_sound_receive

text \<open>Any sequence of the operations a piece offers.\<close>

datatype piece_op =
    OpRequest instant u64 peer_ip
  | OpReceive u64 bytes
  | OpReset instant
  | OpWritten

fun piece_apply :: "(bytes \<Rightarrow> bytes) \<Rightarrow> piece_op \<Rightarrow> piece \<Rightarrow> piece option" where
  "piece_apply sha1 (OpRequest now q ip) p = Some (piece_request_from_peer now q ip p)"
| "piece_apply sha1 (OpReceive q data) p = map_option snd (piece_receive_block sha1 q data p)"
| "piece_apply sha1 (OpReset now) p = Some (snd (reset_timeout_requests now p))"
| "piece_apply sha1 OpWritten p = Some (piece_mask_written p)"

definition piece_run :: "(bytes \<Rightarrow> bytes) \<Rightarrow> piece_op list \<Rightarrow> piece \<Rightarrow> piece option" where
  "piece_run sha1 = run_ops (piece_apply sha1)"

text \<open>The fields no operation writes.\<close>

definition piece_id :: "piece \<Rightarrow> u32 \<times> u64 \<times> bytes \<times> u32" where
  "piece_id p = (p_index p, p_length p, p_hash p, p_block_size p)"

lemma piece_receive_id: "piece_receive_block sha1 q data p = Some (r, p') \<Longrightarrow> piece_id p' = piece_id p"
  by (auto simp: piece_receive_block_def verify_def Let_def piece_id_def
      split: option.splits if_splits)

lemma piece_apply_sound:
  assumes "piece_sound sha1 p"
  obtains p' where "piece_apply sha1 x p = Some p'" "piece_sound sha1 p'" "piece_id p' = piece_id p"
proof (cases x)
  case (OpReceive q data)
  from piece_receive_total [of p sha1 q data] assms obtain r p' where
    "piece_receive_block sha1 q data p = Some (r, p')" by (auto simp: piece_sound_def)
  with OpReceive that assms show ?thesis by (auto dest: piece_sound_receive piece_receive_id)
qed (use assms that in \<open>auto simp: piece_id_def piece_sound_intros\<close>,
   use assms that in \<open>auto simp: piece_id_def piece_sound_intros piece_mask_written_def\<close>)

definition data_right :: "(bytes \<Rightarrow> bytes) \<Rightarrow> u32 \<times> u64 \<times> bytes \<times> u32 \<Rightarrow> unit \<Rightarrow> bytes option \<Rightarrow> bool" where
  "data_right sha1 i q r = (\<forall>d. r = Some d \<longrightarrow> sha1 d = fst (snd (snd i)))"

lemma piece_get_data_sound:
  assumes "piece_sound sha1 p"
  shows "\<exists>r. piece_get_data p = Some r \<and> data_right sha1 (piece_id p) q r"
  using piece_get_data_eq [OF piece_sound_layout [OF assms]] assms
  by (auto simp: piece_sound_def data_right_def piece_id_def)

interpretation piece_machine:
  safe_machine "piece_sound sha1" "piece_apply sha1" piece_id "\<lambda>_ :: unit. piece_get_data" "data_right sha1"
  for sha1
proof unfold_locales
  fix p x assume "piece_sound sha1 p"
  from piece_apply_sound [OF this, of x]
  show "\<exists>p'. piece_apply sha1 x p = Some p' \<and> piece_sound sha1 p' \<and> piece_id p' = piece_id p" by blast
qed (rule piece_get_data_sound)

section \<open>Delivery\<close>

text \<open>The part of the piece's data that belongs in its \<open>k\<close>-th block.\<close>

definition part :: "bytes \<Rightarrow> u64 \<Rightarrow> u32 \<Rightarrow> nat \<Rightarrow> bytes" where
  "part d len bs k = take (unat (blen len bs k)) (drop (k * unat bs) d)"

lemma length_part:
  assumes "piece_fits len bs" "k < nblocks len bs" "length d = unat len"
  shows "length (part d len bs k) = unat (blen len bs k)"
  using assms by (simp add: part_def unat_blen)

lemma len_part:
  assumes "piece_fits len bs" "k < nblocks len bs" "length d = unat len"
  shows "len_u32 (part d len bs k) = blen len bs k"
  using length_part [OF assms] by (simp add: len_u32_def)

lemma concat_parts_from:
  assumes fits: "piece_fits len bs" and len: "length d = unat len"
  shows "k \<le> nblocks len bs \<Longrightarrow>
    concat (map (part d len bs) [k..<nblocks len bs]) = drop (k * unat bs) d"
proof (induction "nblocks len bs - k" arbitrary: k)
  case 0
  then have "unat len \<le> k * unat bs" using less_nblocks_iff [OF fits, of k] by auto
  with 0 len show ?case by simp
next
  case (Suc m)
  then have k: "k < nblocks len bs" by simp
  have IH: "concat (map (part d len bs) [Suc k..<nblocks len bs]) = drop (Suc k * unat bs) d"
    using Suc.hyps k by (intro Suc.hyps(1)) auto
  have "part d len bs k = take (unat bs) (drop (k * unat bs) d)"
    using k by (simp add: part_def unat_blen [OF fits] len min_def)
  moreover have "drop (Suc k * unat bs) d = drop (unat bs) (drop (k * unat bs) d)"
    by (simp add: add.commute)
  ultimately show ?case
    using k IH by (simp add: upt_conv_Cons del: drop_drop)
qed

lemma concat_parts:
  "piece_fits len bs \<Longrightarrow> length d = unat len \<Longrightarrow>
   concat (map (part d len bs) [0..<nblocks len bs]) = d"
  using concat_parts_from [of len bs d 0] by simp

text \<open>The piece after the blocks with index in \<open>K\<close> have been delivered.\<close>

definition delivered :: "bytes \<Rightarrow> nat set \<Rightarrow> piece \<Rightarrow> bool" where
  "delivered d K p \<longleftrightarrow> piece_layout p \<and>
     (\<forall>k < nblocks (p_length p) (p_block_size p).
        \<forall>b. hm_get (p_blocks p) (off (p_block_size p) k) = Some b \<longrightarrow>
          (k \<in> K \<longrightarrow> b_state b = BlockReceived (part d (p_length p) (p_block_size p) k)) \<and>
          (k \<notin> K \<longrightarrow> \<not> block_is_complete b)) \<and>
     (if {..<nblocks (p_length p) (p_block_size p)} \<subseteq> K then piece_is_complete p
      else p_state p = PieceMissing)"

lemma those_map_Some: "(\<And>x. x \<in> set xs \<Longrightarrow> f x = Some (g x)) \<Longrightarrow> those (map f xs) = Some (map g xs)"
  by (induction xs) auto

lemma content_parts:
  assumes "piece_layout p" "length d = unat (p_length p)"
    and "\<And>k. k < nblocks (p_length p) (p_block_size p) \<Longrightarrow>
      block_data p (off (p_block_size p) k) = Some (part d (p_length p) (p_block_size p) k)"
  shows "piece_content p = Some d"
proof -
  have fits: "piece_fits (p_length p) (p_block_size p)" using assms(1) by (simp add: piece_layout_def)
  have "those (map (\<lambda>j. block_data p (off (p_block_size p) j))
      [0..<nblocks (p_length p) (p_block_size p)]) =
    Some (map (part d (p_length p) (p_block_size p)) [0..<nblocks (p_length p) (p_block_size p)])"
    by (rule those_map_Some) (simp add: assms(3))
  then show ?thesis
    by (simp add: piece_content_def content_from_def concat_parts [OF fits assms(2)])
qed

lemma delivered_block_data:
  assumes "delivered d K p" "k < nblocks (p_length p) (p_block_size p)"
  shows "block_data p (off (p_block_size p) k) =
    (if k \<in> K then Some (part d (p_length p) (p_block_size p) k) else None)"
proof -
  from assms have "piece_layout p" by (simp add: delivered_def)
  from piece_layout_block [OF this assms(2)] obtain b
    where "hm_get (p_blocks p) (off (p_block_size p) k) = Some b" by blast
  with assms show ?thesis
    by (auto simp: delivered_def block_data_def block_is_complete_def split: block_state.splits)
qed

lemma received_data:
  assumes layout: "piece_layout p"
    and blocks: "\<And>j b. j < nblocks (p_length p) (p_block_size p) \<Longrightarrow> hm_get (p_blocks p) (off (p_block_size p) j) = Some b \<Longrightarrow>
      (j \<in> K \<longrightarrow> b_state b = BlockReceived (f j)) \<and> (j \<notin> K \<longrightarrow> \<not> block_is_complete b)"
    and j: "j < nblocks (p_length p) (p_block_size p)"
  shows "block_data p (off (p_block_size p) j) = (if j \<in> K then Some (f j) else None)"
proof -
  from piece_layout_block [OF layout j] obtain b where b: "hm_get (p_blocks p) (off (p_block_size p) j) = Some b"
    by blast
  from blocks [OF j b] b show ?thesis
    by (cases "j \<in> K") (auto simp: block_data_def block_is_complete_def split: block_state.splits)
qed

lemma delivered_step:
  assumes del: "delivered d K p" and k: "k < nblocks (p_length p) (p_block_size p)"
    and len: "length d = unat (p_length p)" and hash: "sha1 d = p_hash p"
  shows "\<exists>p'. piece_receive_block sha1 (off (p_block_size p) k)
      (part d (p_length p) (p_block_size p) k) p = Some (True, p') \<and>
      delivered d (insert k K) p' \<and> piece_id p' = piece_id p \<and> p_state p' \<noteq> PieceWritten"
proof -
  let ?n = "nblocks (p_length p) (p_block_size p)"
  let ?q = "off (p_block_size p)"
  let ?part = "part d (p_length p) (p_block_size p)"
  from del have layout: "piece_layout p" by (simp add: delivered_def)
  then have fits: "piece_fits (p_length p) (p_block_size p)" by (simp add: piece_layout_def)
  from piece_layout_block [OF layout k] obtain b where b: "hm_get (p_blocks p) (?q k) = Some b"
    and bl: "b_length b = blen (p_length p) (p_block_size p) k" by (auto simp: block_id_def)
  let ?p1 = "p\<lparr> p_blocks := hm_insert (?q k) (receive_data (?part k) b) (p_blocks p) \<rparr>"
  from piece_receive_total [OF layout] obtain r p' where
    res: "piece_receive_block sha1 (?q k) (?part k) p = Some (r, p')" by blast
  note cases = piece_receive_cases [OF layout b res refl]
  have st: "b_state (receive_data (?part k) b) = BlockReceived (?part k)"
    using bl len_part [OF fits k len] by (simp add: receive_data_def)
  have blocks: "(j \<in> insert k K \<longrightarrow> b_state b' = BlockReceived (?part j)) \<and>
      (j \<notin> insert k K \<longrightarrow> \<not> block_is_complete b')"
    if "j < ?n" "hm_get (p_blocks ?p1) (?q j) = Some b'" for j b'
    using that del k st off_inj [OF fits, of j k] by (auto simp: delivered_def split: if_splits)
  have data: "block_data ?p1 (?q j) = (if j \<in> insert k K then Some (?part j) else None)" if "j < ?n" for j
    using received_data [OF cases(2) blocks] that by simp
  have p': "p' = ?p1\<lparr> p_state := (if {..<?n} \<subseteq> insert k K then PieceComplete else PieceMissing) \<rparr>"
  proof (cases "{..<?n} \<subseteq> insert k K")
    case True
    have "piece_content ?p1 = Some d"
      by (rule content_parts [OF cases(2)]) (use len data True in auto)
    with cases(3) hash True show ?thesis by auto
  next
    case False
    then have "piece_content ?p1 = None" using data by (auto simp: piece_content_None_iff)
    moreover have "p_state p = PieceMissing" using del False by (auto simp: delivered_def split: if_splits)
    ultimately show ?thesis using cases(3) False by auto
  qed
  have "delivered d (insert k K) p'"
    using cases(2) blocks by (auto simp: delivered_def p' piece_is_complete_def)
  with res cases(1) show ?thesis by (auto simp: p' piece_id_def)
qed

fun receive_all :: "(bytes \<Rightarrow> bytes) \<Rightarrow> (u64 \<times> bytes) list \<Rightarrow> piece \<Rightarrow> piece option" where
  "receive_all sha1 [] p = Some p"
| "receive_all sha1 ((q, data) # xs) p =
     Option.bind (piece_receive_block sha1 q data p) (\<lambda>(_, p'). receive_all sha1 xs p')"

lemma delivered_all:
  assumes "length d = unat (p_length p)" "sha1 d = p_hash p"
  shows "delivered d K p \<Longrightarrow> set ks \<subseteq> {..<nblocks (p_length p) (p_block_size p)} \<Longrightarrow>
    \<exists>p'. receive_all sha1 (map (\<lambda>k. (off (p_block_size p) k, part d (p_length p) (p_block_size p) k)) ks) p
        = Some p' \<and> delivered d (K \<union> set ks) p' \<and> piece_id p' = piece_id p \<and>
      (p_state p \<noteq> PieceWritten \<longrightarrow> p_state p' \<noteq> PieceWritten)"
  using assms
proof (induction ks arbitrary: K p)
  case (Cons k ks)
  have k: "k < nblocks (p_length p) (p_block_size p)" using Cons.prems(2) by simp
  from delivered_step [OF Cons.prems(1) k Cons.prems(3), of sha1] Cons.prems(4) obtain p1 where
    p1: "piece_receive_block sha1 (off (p_block_size p) k) (part d (p_length p) (p_block_size p) k) p
      = Some (True, p1)" "delivered d (insert k K) p1" and id: "piece_id p1 = piece_id p"
      "p_state p1 \<noteq> PieceWritten"
    by auto
  from id(1) have eqs: "p_length p1 = p_length p" "p_block_size p1 = p_block_size p" "p_hash p1 = p_hash p"
    by (simp_all add: piece_id_def)
  from Cons.IH [OF p1(2)] Cons.prems(2-4) p1 id show ?case by (simp add: eqs) blast
qed simp

lemma delivered_new:
  assumes new: "piece_new i len h bs = Some p" and "len \<noteq> 0"
  shows "delivered d {} p"
proof -
  note fits = piece_new_fits [OF new]
  have "0 < nblocks len bs" using assms(2) fits nblocks_pos_iff by blast
  with new piece_new_layout [OF new] show ?thesis
    by (auto simp: delivered_def piece_new_eq [OF fits] layout_blocks_Some [OF fits]
        layout_block_def lessThan_empty_iff)
qed

lemma delivered_request:
  assumes "delivered d K p" "hm_get (p_blocks p) q = Some b" "\<not> block_is_complete b"
  shows "delivered d K (piece_request_from_peer now q ip p)"
proof -
  let ?n = "nblocks (p_length p) (p_block_size p)"
  have frame: "piece_is_complete (piece_request_from_peer now q ip p) = piece_is_complete p"
    by (simp add: piece_is_complete_def)
  have layout: "piece_layout (piece_request_from_peer now q ip p)"
    using assms(1) by (intro piece_layout_request) (simp add: delivered_def)
  have incomplete: "off (p_block_size p) k = q \<Longrightarrow> k < ?n \<Longrightarrow> k \<notin> K" for k
    using assms by (auto simp: delivered_def block_is_complete_def)
  have "(k \<in> K \<longrightarrow> b_state b' = BlockReceived (part d (p_length p) (p_block_size p) k)) \<and>
      (k \<notin> K \<longrightarrow> \<not> block_is_complete b')"
    if "k < ?n" "hm_get (p_blocks (piece_request_from_peer now q ip p)) (off (p_block_size p) k) = Some b'" for k b'
    using that assms incomplete [of k]
    by (auto simp: delivered_def piece_request_from_peer_def split: if_splits)
  with assms(1) layout show ?thesis by (simp add: delivered_def frame)
qed

lemma delivered_written:
  assumes "delivered d K p" "{..<nblocks (p_length p) (p_block_size p)} \<subseteq> K"
  shows "delivered d K (piece_mask_written p)"
  using assms by (simp add: delivered_def piece_mask_written_def piece_is_complete_def)

section \<open>Late blocks\<close>

lemma receive_fails_check:
  assumes sound: "piece_layout p" and b: "hm_get (p_blocks p) q = Some b"
    and d: "piece_content (p\<lparr> p_blocks := hm_insert q (receive_data data b) (p_blocks p) \<rparr>) = Some d"
    and bad: "sha1 d \<noteq> p_hash p"
  shows "\<exists>p'. piece_receive_block sha1 q data p = Some (True, p') \<and> p_state p' = PieceMissing \<and>
    (\<forall>q b. hm_get (p_blocks p') q = Some b \<longrightarrow> b_state b = BlockMissing)"
proof -
  obtain r p' where res: "piece_receive_block sha1 q data p = Some (r, p')"
    using piece_receive_total [OF sound] by blast
  note cases = piece_receive_cases [OF sound b res refl]
  from cases(3) d bad have "p' = p\<lparr> p_blocks := hm_map cancle
      (hm_insert q (receive_data data b) (p_blocks p)), p_state := PieceMissing \<rparr>" by auto
  with res cases(1) show ?thesis by (auto simp: cancle_def split: if_splits)
qed

section \<open>Selection\<close>

lemma next_missing_Some:
  "hm_wf (p_blocks p) \<Longrightarrow> get_next_missing_block p = Some q \<Longrightarrow>
     \<exists>b. hm_get (p_blocks p) q = Some b \<and> \<not> block_is_complete b"
  by (auto simp: get_next_missing_block_def find_Some_iff hm_get_entry [symmetric] in_set_conv_nth)
    (metis hm_get_entry nth_mem)

lemma next_missing_None: "get_next_missing_block p = None \<longleftrightarrow> is_fully_downloaded p"
  by (auto simp: get_next_missing_block_def is_fully_downloaded_def find_None_iff list_all_iff
      hm_values_def)

lemma reset_map_get:
  assumes "hm_wf (p_blocks p)"
  shows "hm_get (fst (reset_timeout_requests now p)) q =
    Option.bind (hm_get (p_blocks p) q) (\<lambda>b. fst (block_reset now b))"
proof -
  have "hm_get (fold (\<lambda>(offset, b) m. (case fst (block_reset now b) of
           Some ip \<Rightarrow> hm_insert offset ip m | None \<Rightarrow> m)) bs m) q =
      (case Option.bind (hm_get bs q) (\<lambda>b. fst (block_reset now b)) of
         Some ip \<Rightarrow> Some ip | None \<Rightarrow> hm_get m q)"
    if "hm_wf bs" for bs and m :: "(u64, peer_ip) hash_map"
    using that
  proof (induction bs arbitrary: m)
    case (Cons x bs)
    obtain a b where x: "x = (a, b)" by (cases x)
    have wf: "hm_wf bs" and new: "hm_get bs a = None"
      using Cons.prems x by (auto simp: hm_wf_def hm_get_None)
    have get: "hm_get (x # bs) q = (if q = a then Some b else hm_get bs q)"
      by (simp add: x hm_get_def)
    show ?case
      using new by (simp add: x Cons.IH [OF wf] get [unfolded x] split: option.split)
  qed simp
  from this [OF assms, of "[]"] show ?thesis
    by (simp add: reset_timeout_requests_def split: option.split)
qed

lemma find_update:
  "map_of m q = Some b \<Longrightarrow> P (q, b) = P (q, b') \<Longrightarrow>
   map_option fst (find P (AList.update q b' m)) = map_option fst (find P m)"
  by (induction m) (auto split: if_splits)

section \<open>Properties\<close>

text \<open>
  C7: Integrity. Start from a new piece and apply requests, received blocks, timeouts and write
  marks in any order, with any offsets and data: no loop hangs, and whenever the piece hands out
  data, the hash of that data is the one the torrent names.
\<close>

theorem piece_integrity:
  assumes "piece_new i len h bs = Some p0"
  shows "\<exists>p. piece_run sha1 ops p0 = Some p \<and>
    (\<exists>r. piece_get_data p = Some r \<and> (\<forall>d. r = Some d \<longrightarrow> sha1 d = h))"
proof -
  have "p_hash p0 = h" using assms by (auto simp: piece_new_eq [OF piece_new_fits [OF assms]])
  with piece_machine.run_query [OF piece_sound_new [OF assms], of sha1 ops "()"] show ?thesis
    by (simp add: piece_run_def data_right_def piece_id_def)
qed

theorem piece_integrity_witness:
  "\<exists>p0 p. piece_new 0 2 [5, 6] 1 = Some p0 \<and>
    piece_run (\<lambda>x. x) [OpReceive 1 [6], OpReceive 0 [5]] p0 = Some p"
proof -
  obtain p0 where p0: "piece_new 0 2 [5, 6] 1 = Some p0"
    using piece_new_eq [of 2 1 0 "[5, 6]"] by (auto simp: piece_fits_def)
  from piece_integrity [OF p0, of "\<lambda>x. x" "[OpReceive 1 [6], OpReceive 0 [5]]"] p0
  show ?thesis by blast
qed

text \<open>
  C9: Download completes. If the blocks of data with the right length and hash are delivered in any
  order, each at least once, the piece ends complete and hands out exactly that data.
\<close>

theorem piece_delivery_completes:
  assumes new: "piece_new i len h bs = Some p" and "len \<noteq> 0"
    and d: "length d = unat len" "sha1 d = h"
    and ks: "set ks = {..<nblocks len bs}"
  shows "\<exists>p'. receive_all sha1 (map (\<lambda>k. (off bs k, part d len bs k)) ks) p = Some p' \<and>
    p_state p' = PieceComplete \<and> piece_get_data p' = Some (Some d)"
proof -
  have eqs: "p_length p = len" "p_hash p = h" "p_block_size p = bs" "p_state p = PieceMissing"
    using new by (auto simp: piece_new_eq [OF piece_new_fits [OF new]])
  from delivered_all [OF _ _ delivered_new [OF new \<open>len \<noteq> 0\<close>, of d], of sha1 ks] d ks
  obtain p' where p': "receive_all sha1 (map (\<lambda>k. (off bs k, part d len bs k)) ks) p = Some p'"
    and del: "delivered d {..<nblocks len bs} p'" and id: "piece_id p' = piece_id p"
    and "p_state p' \<noteq> PieceWritten"
    by (auto simp: eqs)
  from id have eqs': "p_length p' = len" "p_block_size p' = bs" by (simp_all add: piece_id_def eqs)
  have layout: "piece_layout p'" and st: "p_state p' = PieceComplete"
    using del \<open>p_state p' \<noteq> PieceWritten\<close> by (auto simp: delivered_def piece_is_complete_def eqs')
  have "piece_content p' = Some d"
    by (rule content_parts [OF layout])
      (use d delivered_block_data [OF del] in \<open>auto simp: eqs'\<close>)
  with p' st show ?thesis by (simp add: piece_get_data_eq [OF layout])
qed

theorem piece_delivery_completes_witness:
  "\<exists>p p'. piece_new 0 3 [1, 2, 3] 2 = Some p \<and>
    receive_all (\<lambda>x. x) [(2, [3]), (0, [1, 2])] p = Some p' \<and>
    p_state p' = PieceComplete \<and> piece_get_data p' = Some (Some [1, 2, 3])"
proof -
  have fits: "piece_fits 3 2" by (simp add: piece_fits_def)
  then obtain p where p: "piece_new 0 3 [1, 2, 3] 2 = Some p" using piece_new_eq by blast
  have n: "nblocks 3 2 = 2" by (simp add: nblocks_def)
  have parts: "map (\<lambda>k. (off 2 k, part [1, 2, 3] 3 2 k)) [1, 0] = [(2, [3]), (0, [1, 2])]"
    by (simp add: part_def off_def blen_def min_def)
  have "set [1, 0] = {..<nblocks 3 2}" by (auto simp: n)
  from piece_delivery_completes [OF p _ _ _ this, of "[1, 2, 3]" "\<lambda>x. x"] obtain p'
    where "receive_all (\<lambda>x. x) (map (\<lambda>k. (off 2 k, part [1, 2, 3] 3 2 k)) [1, 0]) p = Some p'"
      "p_state p' = PieceComplete" "piece_get_data p' = Some (Some [1, 2, 3])"
    by (simp del: list.map) blast
  with p show ?thesis unfolding parts by blast
qed

text \<open>
  C34: A verified piece is not safe. Nothing refuses a block for a piece that is already complete or
  written: if a later block of the right length makes the content fail its hash, every block is
  thrown away and the piece is missing again.
\<close>

theorem late_block_undoes_piece:
  assumes "piece_layout p" "piece_is_complete p" "hm_get (p_blocks p) q = Some b"
    and "piece_content (p\<lparr> p_blocks := hm_insert q (receive_data data b) (p_blocks p) \<rparr>) = Some d"
    and "sha1 d \<noteq> p_hash p"
  shows "\<exists>p'. piece_receive_block sha1 q data p = Some (True, p') \<and> \<not> piece_is_complete p' \<and>
    (\<forall>q b. hm_get (p_blocks p') q = Some b \<longrightarrow> b_state b = BlockMissing)"
  using receive_fails_check [where ?sha1.0 = sha1, OF assms(1,3-5)]
  by (auto simp: piece_is_complete_def)

theorem late_block_undoes_piece_witness:
  "\<exists>p p'. piece_is_complete p \<and> piece_get_data p = Some (Some [5]) \<and>
    piece_receive_block (\<lambda>x. x) 0 [6] p = Some (True, p') \<and> \<not> piece_is_complete p'"
proof -
  let ?b = "\<lparr> b_index = 0, b_offset = 0, b_length = 1, b_state = BlockReceived [5] \<rparr>"
  let ?p = "\<lparr> p_index = 0, p_length = 1, p_hash = [5], p_blocks = [(0, ?b)],
    p_state = PieceComplete, p_block_size = 1, p_priority = 1 \<rparr>"
  have n: "nblocks 1 1 = 1" by (simp add: nblocks_def)
  have layout: "piece_layout ?p"
    by (auto simp: piece_layout_def piece_fits_def n hm_get_def hm_wf_def block_wf_def block_id_def
        blen_def len_u32_def split: if_splits)
  have b: "hm_get (p_blocks ?p) 0 = Some ?b" by (simp add: hm_get_def)
  have c: "piece_content ?p = Some [5]"
    by (simp add: piece_content_def content_from_def n block_data_def hm_get_def)
  have c': "piece_content (?p\<lparr> p_blocks := hm_insert 0 (receive_data [6] ?b) (p_blocks ?p) \<rparr>) = Some [6]"
    by (simp add: piece_content_def content_from_def n block_data_def receive_data_def len_u32_def)
  have done': "piece_is_complete ?p" by (simp add: piece_is_complete_def)
  from late_block_undoes_piece [where ?sha1.0 = "\<lambda>x. x", OF layout done' b c'] obtain p'
    where "piece_receive_block (\<lambda>x. x) 0 [6] ?p = Some (True, p')" "\<not> piece_is_complete p'"
    by auto
  moreover have "piece_get_data ?p = Some (Some [5])"
    using piece_get_data_eq [OF layout] c by simp
  ultimately show ?thesis using done' by blast
qed

text \<open>
  Asking for a block does not move the choice on. The next missing block is any block that is
  not complete, requested or not, so after a request for a block that has not arrived the same
  block is chosen again.
\<close>

theorem request_keeps_next_block:
  assumes "get_next_missing_block p = Some q" "hm_wf (p_blocks p)"
  shows "get_next_missing_block (piece_request_from_peer now q ip p) = Some q"
proof -
  from next_missing_Some [OF assms(2,1)] obtain b
    where b: "hm_get (p_blocks p) q = Some b" "\<not> block_is_complete b" by blast
  then show ?thesis
    using assms(1) find_update [of "p_blocks p" q b "\<lambda>(offset, b). \<not> block_is_complete b"
        "block_request_from_peer now ip b"]
    by (simp add: get_next_missing_block_def piece_request_from_peer_def hm_insert_def hm_get_def)
qed

theorem request_keeps_next_block_witness:
  "get_next_missing_block (piece_request_from_peer 9 0 [1, 2, 3, 4, 5, 6]
     \<lparr> p_index = 0, p_length = 1, p_hash = [5], p_blocks = [(0, block_new 0 0 1)],
       p_state = PieceMissing, p_block_size = 1, p_priority = 1 \<rparr>) = Some 0"
  by (rule request_keeps_next_block) (simp_all add: get_next_missing_block_def hm_wf_def)

text \<open>
  The timeout sweep reports, for each offset, the peer of the request that has expired there and
  nothing else, and it leaves every received block as it was.
\<close>

theorem reset_timeout_exact:
  assumes "hm_wf (p_blocks p)"
  shows "hm_get (fst (reset_timeout_requests now p)) q =
      Option.bind (hm_get (p_blocks p) q) (\<lambda>b. fst (block_reset now b)) \<and>
    block_data (snd (reset_timeout_requests now p)) q = block_data p q"
  by (simp add: reset_map_get [OF assms])

theorem reset_timeout_exact_witness:
  "hm_get (fst (reset_timeout_requests (121 * 1000000000)
     \<lparr> p_index = 0, p_length = 1, p_hash = [5],
       p_blocks = [(0, block_request_from_peer 0 [1, 2, 3, 4, 5, 6] (block_new 0 0 1))],
       p_state = PieceMissing, p_block_size = 1, p_priority = 1 \<rparr>)) 0 = Some [1, 2, 3, 4, 5, 6]"
  by (subst reset_timeout_exact [THEN conjunct1])
    (simp_all add: hm_wf_def hm_get_def block_reset_def block_request_from_peer_def block_timeout_def)

end
