(* ===== verification/Piece_Data.thy ===== *)
theory Piece_Data
  imports Piece_Verify
begin

text \<open>
  The data a piece of \<open>src/core/peer/piece/piece.rs\<close> holds: where it comes from, and how long it is. Lemmas: its
  length modulo \<open>2^32\<close>, as the code compares lengths; whatever holds of every block received holds of every block held;
  and with blocks below 4 GiB the data has the length of the piece and is cut up into the blocks.
\<close>

section \<open>The length in 32 bits\<close>

lemma len_u32_append: "len_u32 (xs @ ys) = len_u32 xs + len_u32 ys"
  by (simp add: len_u32_def)

lemma layout_block_len:
  assumes "piece_layout p" "k < nblocks (p_length p) (p_block_size p)"
    and "block_data p (off (p_block_size p) k) = Some d"
  shows "len_u32 d = word_of_nat (min (unat (p_block_size p)) (unat (p_length p) - k * unat (p_block_size p)))"
proof -
  from piece_layout_block [OF assms(1,2)] obtain b
    where b: "hm_get (p_blocks p) (off (p_block_size p) k) = Some b" "block_wf b"
      "block_id b = (p_index p, off (p_block_size p) k, blen (p_length p) (p_block_size p) k)" .
  have "piece_fits (p_length p) (p_block_size p)" using assms(1) by (simp add: piece_layout_def)
  with b assms(2,3) show ?thesis
    by (auto simp: block_data_def block_wf_def block_id_def unat_blen [symmetric] split: block_state.splits)
qed

lemma content_from_len:
  assumes layout: "piece_layout p"
  shows "k \<le> nblocks (p_length p) (p_block_size p) \<Longrightarrow> content_from p k = Some d \<Longrightarrow>
    len_u32 d = word_of_nat (unat (p_length p) - k * unat (p_block_size p))"
proof (induction k arbitrary: d rule: inc_induct)
  case base
  have "piece_fits (p_length p) (p_block_size p)" using layout by (simp add: piece_layout_def)
  then have "unat (p_length p) \<le> nblocks (p_length p) (p_block_size p) * unat (p_block_size p)"
    using less_nblocks_iff [of "p_length p" "p_block_size p" "nblocks (p_length p) (p_block_size p)"]
    by simp
  with base show ?case by (simp add: content_from_end len_u32_def)
next
  case (step k)
  from step.prems step.hyps obtain x y
    where d: "block_data p (off (p_block_size p) k) = Some x" "content_from p (Suc k) = Some y" "d = x @ y"
    by (auto simp: content_from_step split: option.splits)
  have split_len: "a - b = min c (a - b) + (a - (c + b))" for a b c :: nat by simp
  have "unat (p_length p) - k * unat (p_block_size p) =
      min (unat (p_block_size p)) (unat (p_length p) - k * unat (p_block_size p)) +
      (unat (p_length p) - Suc k * unat (p_block_size p))"
    using split_len [of "unat (p_length p)" "k * unat (p_block_size p)" "unat (p_block_size p)"] by simp
  with layout_block_len [OF layout step.hyps(2) d(1)] step.IH [OF d(2)] d(3) show ?case
    by (metis len_u32_append of_nat_add)
qed

lemma piece_content_len:
  assumes "piece_layout p" "piece_content p = Some d"
  shows "len_u32 d = ucast (p_length p)"
  using content_from_len [OF assms(1), of 0 d] assms(2)
  by (simp add: piece_content_def unsigned_def)

section \<open>The blocks received\<close>

definition stored :: "(u32 \<Rightarrow> u64 \<Rightarrow> bytes \<Rightarrow> bool) \<Rightarrow> piece \<Rightarrow> bool" where
  "stored P p \<longleftrightarrow>
     (\<forall>q b x. hm_get (p_blocks p) q = Some b \<longrightarrow> b_state b = BlockReceived x \<longrightarrow> P (p_index p) q x)"

lemma stored_new: "piece_new i len h bs = Some p \<Longrightarrow> stored P p"
  by (simp add: stored_def piece_new_blocks block_new_def)

lemma stored_state [simp]: "stored P (p\<lparr> p_state := st \<rparr>) = stored P p"
  by (simp add: stored_def)

lemma stored_written: "stored P (piece_mask_written p) = stored P p"
  by (simp add: piece_mask_written_def)

lemma index_frame [simp]:
  "p_index (piece_request_from_peer now q ip p) = p_index p" "p_index (piece_mask_written p) = p_index p"
  by (simp_all add: piece_request_from_peer_def piece_mask_written_def split: option.split)

lemma stored_request: "stored P p \<Longrightarrow> stored P (piece_request_from_peer now q ip p)"
  by (auto simp: stored_def piece_request_from_peer_def block_request_from_peer_def split: option.splits if_splits)

lemma stored_store:
  "stored P p \<Longrightarrow> hm_get (p_blocks p) q = Some b \<Longrightarrow> P (p_index p) q data \<Longrightarrow>
     stored P (p\<lparr> p_blocks := hm_insert q (receive_data data b) (p_blocks p) \<rparr>)"
  by (auto simp: stored_def receive_data_def split: if_splits)

lemma stored_cancle: "stored P p \<Longrightarrow> stored P (p\<lparr> p_blocks := hm_map cancle (p_blocks p) \<rparr>)"
  by (auto simp: stored_def cancle_def)

lemma stored_mono: "stored P p \<Longrightarrow> (\<And>q x. P (p_index p) q x \<Longrightarrow> Q (p_index p) q x) \<Longrightarrow> stored Q p"
  by (auto simp: stored_def)

lemma stored_receive:
  assumes layout: "piece_layout p" and st: "stored P p" and data: "P (p_index p) q data"
    and res: "piece_receive_block sha1 q data p = Some (r, p')"
  shows "stored P p'"
proof (cases "hm_get (p_blocks p) q")
  case None
  with res have "p' = p" by (simp add: piece_receive_block_def)
  with st show ?thesis by simp
next
  case (Some b)
  let ?p = "p\<lparr> p_blocks := hm_insert q (receive_data data b) (p_blocks p) \<rparr>"
  have st': "stored P ?p" by (rule stored_store [OF st Some data])
  note cases = piece_receive_cases(3) [OF layout Some res refl]
  then consider "p' = ?p" | "p' = ?p\<lparr> p_state := PieceComplete \<rparr>"
    | "p' = ?p\<lparr> p_blocks := hm_map cancle (p_blocks ?p), p_state := PieceMissing \<rparr>"
    by (auto split: if_splits)
  then show ?thesis
  proof cases
    case 3
    have "stored P (?p\<lparr> p_blocks := hm_map cancle (p_blocks ?p), p_state := PieceMissing \<rparr>)"
      using stored_cancle [OF st'] stored_state by blast
    with 3 show ?thesis by simp
  qed (use st' in simp_all)
qed

lemma stored_block: "stored P p \<Longrightarrow> block_data p q = Some x \<Longrightarrow> P (p_index p) q x"
  by (auto simp: stored_def block_data_def split: option.splits block_state.splits)

section \<open>Small blocks\<close>

text \<open>With blocks below 4 GiB the comparison in 32 bits is exact.\<close>

lemma stored_block_length:
  assumes "piece_layout p" "stored P p" "\<And>q x. P (p_index p) q x \<Longrightarrow> length x < 2 ^ 32"
    and "k < nblocks (p_length p) (p_block_size p)" "block_data p (off (p_block_size p) k) = Some x"
  shows "length x = unat (blen (p_length p) (p_block_size p) k)"
proof -
  let ?n = "min (unat (p_block_size p)) (unat (p_length p) - k * unat (p_block_size p))"
  have fits: "piece_fits (p_length p) (p_block_size p)" using assms(1) by (simp add: piece_layout_def)
  have "length x < 2 ^ 32" using assms(3) stored_block [OF assms(2,5)] by blast
  then have "length x = unat (len_u32 x)" by (simp add: unat_len_u32)
  also have "\<dots> = unat (word_of_nat ?n :: u32)" using layout_block_len [OF assms(1,4,5)] by simp
  also have "\<dots> = unat (blen (p_length p) (p_block_size p) k)" by (simp add: unat_blen [OF fits assms(4), symmetric])
  finally show ?thesis .
qed

lemma stored_content_from:
  assumes layout: "piece_layout p" and st: "stored P p" and small: "\<And>q x. P (p_index p) q x \<Longrightarrow> length x < 2 ^ 32"
  shows "k \<le> nblocks (p_length p) (p_block_size p) \<Longrightarrow> content_from p k = Some d \<Longrightarrow>
    length z = min (k * unat (p_block_size p)) (unat (p_length p)) \<Longrightarrow>
    length (z @ d) = unat (p_length p) \<and>
    (\<forall>j. k \<le> j \<and> j < nblocks (p_length p) (p_block_size p) \<longrightarrow>
       block_data p (off (p_block_size p) j) = Some (part (z @ d) (p_length p) (p_block_size p) j))"
proof (induction k arbitrary: d z rule: inc_induct)
  case base
  have "piece_fits (p_length p) (p_block_size p)" using layout by (simp add: piece_layout_def)
  then have "unat (p_length p) \<le> nblocks (p_length p) (p_block_size p) * unat (p_block_size p)"
    using less_nblocks_iff [of "p_length p" "p_block_size p" "nblocks (p_length p) (p_block_size p)"] by simp
  with base show ?case by (auto simp: content_from_end)
next
  case (step k)
  let ?bs = "unat (p_block_size p)" and ?len = "unat (p_length p)"
  have fits: "piece_fits (p_length p) (p_block_size p)" using layout by (simp add: piece_layout_def)
  from step.prems(1) step.hyps obtain x y
    where d: "block_data p (off (p_block_size p) k) = Some x" "content_from p (Suc k) = Some y" "d = x @ y"
    by (auto simp: content_from_step split: option.splits)
  note len = stored_block_length [OF layout st small step.hyps(2) d(1)]
  then have x: "length x = min ?bs (?len - k * ?bs)" by (simp add: unat_blen [OF fits step.hyps(2)])
  have k: "k * ?bs < ?len" using less_nblocks_iff [OF fits, of k] step.hyps(2) by simp
  then have z: "length z = k * ?bs" using step.prems(2) by simp
  then have "length (z @ x) = min (Suc k * ?bs) ?len" using x k by simp
  from step.IH [OF d(2) this] have IH: "length ((z @ x) @ y) = ?len"
    "\<And>j. Suc k \<le> j \<Longrightarrow> j < nblocks (p_length p) (p_block_size p) \<Longrightarrow>
       block_data p (off (p_block_size p) j) = Some (part ((z @ x) @ y) (p_length p) (p_block_size p) j)" by blast+
  have "part (z @ d) (p_length p) (p_block_size p) k = x" using z len by (simp add: part_def d(3))
  with d(1) have "block_data p (off (p_block_size p) j) = Some (part (z @ d) (p_length p) (p_block_size p) j)"
    if "k \<le> j" "j < nblocks (p_length p) (p_block_size p)" for j
    using IH(2) [of j] that by (cases "j = k") (simp_all add: d(3))
  with IH(1) show ?case by (simp add: d(3))
qed

text \<open>The data of a piece has its length and consists of blocks that were received.\<close>

lemma stored_content:
  assumes layout: "piece_layout p" and st: "stored P p" and small: "\<And>q x. P (p_index p) q x \<Longrightarrow> length x < 2 ^ 32"
    and content: "piece_content p = Some d"
  shows "length d = unat (p_length p)"
    and "k < nblocks (p_length p) (p_block_size p) \<Longrightarrow>
      P (p_index p) (off (p_block_size p) k) (part d (p_length p) (p_block_size p) k)"
proof -
  have from_0: "length ([] @ d) = unat (p_length p) \<and>
      (\<forall>j. 0 \<le> j \<and> j < nblocks (p_length p) (p_block_size p) \<longrightarrow>
         block_data p (off (p_block_size p) j) = Some (part ([] @ d) (p_length p) (p_block_size p) j))"
    by (rule stored_content_from [OF layout st]) (use small content in \<open>auto simp: piece_content_def\<close>)
  from from_0 show "length d = unat (p_length p)" by simp
  show "k < nblocks (p_length p) (p_block_size p) \<Longrightarrow>
      P (p_index p) (off (p_block_size p) k) (part d (p_length p) (p_block_size p) k)"
    using from_0 stored_block [OF st] by simp
qed

end
