(* ===== verification/Utf8.thy ===== *)
theory Utf8
  imports Prelude
begin

text \<open>
  Strings as the standard library makes them from bytes: \<open>str::from_utf8\<close>, which the path components
  of a torrent go through, and \<open>String::from_utf8_lossy\<close>, which makes its name. A \<open>str\<close> is the list of
  its UTF-8 bytes.
\<close>

section \<open>One character\<close>

definition utf8_cont :: "u8 \<Rightarrow> bool" where
  "utf8_cont b = (0x80 \<le> b \<and> b \<le> 0xBF)"

text \<open>The second bytes a leading byte of a three- or four-byte character allows.\<close>

definition utf8_second3 :: "u8 \<Rightarrow> u8 \<Rightarrow> bool" where
  "utf8_second3 a b =
    (if a = 0xE0 then 0xA0 \<le> b \<and> b \<le> 0xBF
     else if a = 0xED then 0x80 \<le> b \<and> b \<le> 0x9F
     else utf8_cont b)"

definition utf8_second4 :: "u8 \<Rightarrow> u8 \<Rightarrow> bool" where
  "utf8_second4 a b =
    (if a = 0xF0 then 0x90 \<le> b \<and> b \<le> 0xBF
     else if a = 0xF4 then 0x80 \<le> b \<and> b \<le> 0x8F
     else utf8_cont b)"

text \<open>
  Whether the text starts with a character, and how many bytes it has; when it does not, how many
  bytes the longest start of one has, at least one.
\<close>

fun utf8_step :: "bytes \<Rightarrow> bool \<times> nat" where
  "utf8_step [] = (True, 0)"
| "utf8_step (a # s) =
    (if a < 0x80 then (True, 1)
     else if 0xC2 \<le> a \<and> a \<le> 0xDF then
       (case s of b # _ \<Rightarrow> if utf8_cont b then (True, 2) else (False, 1) | [] \<Rightarrow> (False, 1))
     else if 0xE0 \<le> a \<and> a \<le> 0xEF then
       (case s of
          b # s \<Rightarrow> if utf8_second3 a b then
              (case s of c # _ \<Rightarrow> if utf8_cont c then (True, 3) else (False, 2) | [] \<Rightarrow> (False, 2))
            else (False, 1)
        | [] \<Rightarrow> (False, 1))
     else if 0xF0 \<le> a \<and> a \<le> 0xF4 then
       (case s of
          b # s \<Rightarrow> if utf8_second4 a b then
              (case s of
                 c # s \<Rightarrow> if utf8_cont c then
                     (case s of d # _ \<Rightarrow> if utf8_cont d then (True, 4) else (False, 3) | [] \<Rightarrow> (False, 3))
                   else (False, 2)
               | [] \<Rightarrow> (False, 2))
            else (False, 1)
        | [] \<Rightarrow> (False, 1))
     else (False, 1))"

text \<open>The bytes of U+FFFD, the replacement character.\<close>

definition utf8_replacement :: bytes where
  "utf8_replacement = [0xEF, 0xBF, 0xBD]"

section \<open>Texts\<close>

lemma utf8_step_pos [simp]: "0 < snd (utf8_step (a # s))"
  by (simp split: list.split)

lemma utf8_step_le: "snd (utf8_step s) \<le> length s"
  by (cases s) (auto split: list.split)

declare utf8_step.simps(2) [simp del]

function (sequential) is_utf8 :: "bytes \<Rightarrow> bool" where
  "is_utf8 [] = True"
| "is_utf8 (a # s) =
    (let (ok, n) = utf8_step (a # s) in ok \<and> is_utf8 (drop n (a # s)))"
  by pat_completeness auto
termination
proof (relation "measure length", goal_cases)
  case (2 a s x ok n)
  then have "0 < n" by (metis snd_conv utf8_step_pos)
  then show ?case by simp
qed simp

function (sequential) from_utf8_lossy :: "bytes \<Rightarrow> bytes" where
  "from_utf8_lossy [] = []"
| "from_utf8_lossy (a # s) =
    (let (ok, n) = utf8_step (a # s) in
     (if ok then take n (a # s) else utf8_replacement) @ from_utf8_lossy (drop n (a # s)))"
  by pat_completeness auto
termination
proof (relation "measure length", goal_cases)
  case (2 a s x ok n)
  then have "0 < n" by (metis snd_conv utf8_step_pos)
  then show ?case by simp
qed simp

declare is_utf8.simps(2) [simp del] from_utf8_lossy.simps(2) [simp del]

text \<open>A character stands by itself: it is read the same whatever follows it.\<close>

lemma utf8_step_prefix:
  "utf8_step s = (True, n) \<Longrightarrow> s \<noteq> [] \<Longrightarrow> utf8_step (take n s @ t) = (True, n)"
  by (cases s) (auto simp: utf8_step.simps(2) split: if_splits list.splits)

lemma is_utf8_append_char:
  assumes "utf8_step s = (True, n)" "s \<noteq> []" "is_utf8 t"
  shows "is_utf8 (take n s @ t)"
proof -
  obtain a s' where s: "s = a # s'" using assms(2) by (cases s) auto
  then have "0 < n" "n \<le> length s"
    using assms(1) utf8_step_pos [of a s'] utf8_step_le [of s] by simp_all
  then obtain r where r: "take n s = a # r" by (cases n) (simp_all add: s)
  have "length (take n s) = n" using \<open>n \<le> length s\<close> by simp
  then have "drop n (take n s @ t) = t" by simp
  with utf8_step_prefix [OF assms(1,2), of t] assms(3) r show ?thesis
    by (simp add: is_utf8.simps(2))
qed

lemma utf8_step_replacement: "utf8_step utf8_replacement = (True, 3)"
  by (simp add: utf8_replacement_def utf8_step.simps(2) utf8_second3_def utf8_cont_def)

lemma is_utf8_lossy: "is_utf8 (from_utf8_lossy s)"
proof (induction s rule: from_utf8_lossy.induct)
  case (2 a s)
  obtain ok n where step: "utf8_step (a # s) = (ok, n)" by fastforce
  have IH: "is_utf8 (from_utf8_lossy (drop n (a # s)))" using 2 step by simp
  show ?case
  proof (cases ok)
    case True
    then show ?thesis
      using is_utf8_append_char [OF _ _ IH, of "a # s" n] step by (simp add: from_utf8_lossy.simps(2))
  next
    case False
    have "take 3 utf8_replacement = utf8_replacement" by (simp add: utf8_replacement_def)
    moreover have "is_utf8 (take 3 utf8_replacement @ from_utf8_lossy (drop n (a # s)))"
      by (rule is_utf8_append_char [OF utf8_step_replacement _ IH]) (simp add: utf8_replacement_def)
    ultimately show ?thesis using False step by (simp add: from_utf8_lossy.simps(2))
  qed
qed simp

lemma lossy_utf8: "is_utf8 s \<Longrightarrow> from_utf8_lossy s = s"
proof (induction s rule: is_utf8.induct)
  case (2 a s)
  then show ?case
    by (cases "utf8_step (a # s)") (simp add: is_utf8.simps(2) from_utf8_lossy.simps(2))
qed simp

lemma lossy_id_iff: "from_utf8_lossy s = s \<longleftrightarrow> is_utf8 s"
  using is_utf8_lossy [of s] lossy_utf8 [of s] by auto

end
