(* ===== verification/Bencode_Decode.thy ===== *)
theory Bencode_Decode
  imports Utf8
begin

text \<open>
  The \<open>BencodeDecodable\<close> trait, \<open>src/util/bencode/bencode_decodable.rs\<close>: how a parsed bencode value is
  taken apart. The parser itself is the \<open>bencode\<close> crate; the datatype has the four variants the
  trait matches on and one for the rest. A dictionary is only ever looked up by key.
\<close>

section \<open>Values and errors\<close>

datatype bencode =
    Number int
  | ByteString bytes
  | BList "bencode list"
  | Dict "(bytes \<times> bencode) list"
  | BOther

text \<open>\<open>KeyNotFound\<close> carries the key its message names.\<close>

datatype decode_error =
    KeyNotFound bytes
  | WrongType string
  | OtherError string

section \<open>Accessors\<close>

text \<open>A number is converted with \<open>try_into\<close>, so one that is no \<open>u64\<close> is refused.\<close>

fun get_u64 :: "bencode \<Rightarrow> (decode_error, u64) outcome" where
  "get_u64 (Number n) =
    (if 0 \<le> n \<and> n < 2 ^ 64 then Ok (word_of_int n) else Err (WrongType ''Expected a Number''))"
| "get_u64 _ = Err (WrongType ''Expected a Number'')"

fun get_str :: "bencode \<Rightarrow> (decode_error, bytes) outcome" where
  "get_str (ByteString bs) = Ok bs"
| "get_str _ = Err (WrongType ''Expected a ByteString'')"

definition get_string :: "bencode \<Rightarrow> (decode_error, bytes) outcome" where
  "get_string b = obind (get_str b) (\<lambda>bs. Ok (from_utf8_lossy bs))"

fun get_struct :: "bencode \<Rightarrow> (decode_error, (bytes \<times> bencode) list) outcome" where
  "get_struct (Dict d) = Ok d"
| "get_struct _ = Err (WrongType ''Expected a dictionary'')"

definition get_struct_value_from_bytestring ::
  "bytes \<Rightarrow> (bytes \<times> bencode) list \<Rightarrow> (decode_error, bencode) outcome" where
  "get_struct_value_from_bytestring key d =
    (case map_of d key of Some b \<Rightarrow> Ok b | None \<Rightarrow> Err (KeyNotFound key))"

definition get_struct_value ::
  "string \<Rightarrow> (bytes \<times> bencode) list \<Rightarrow> (decode_error, bencode) outcome" where
  "get_struct_value key d = get_struct_value_from_bytestring (ascii key) d"

fun get_list :: "bencode \<Rightarrow> (decode_error, bencode list) outcome" where
  "get_list (BList bs) = Ok bs"
| "get_list _ = Err (WrongType ''Expected a list'')"

section \<open>Facts\<close>

lemma get_u64_Ok_iff: "get_u64 b = Ok w \<longleftrightarrow> b = Number (uint w)"
proof (cases b)
  case (Number n)
  have "n = uint w" if "0 \<le> n" "n < 2 ^ 64" "word_of_int n = w"
    using that by (simp add: unsigned_of_int take_bit_eq_mod flip: that(3))
  moreover have "0 \<le> uint w" "uint w < 2 ^ 64" using unsigned_less [of w] by simp_all
  ultimately show ?thesis by (auto simp: Number)
qed auto

lemma get_str_Ok_iff: "get_str b = Ok bs \<longleftrightarrow> b = ByteString bs"
  by (cases b) auto

lemma get_struct_Ok_iff: "get_struct b = Ok d \<longleftrightarrow> b = Dict d"
  by (cases b) auto

lemma get_list_Ok_iff: "get_list b = Ok bs \<longleftrightarrow> b = BList bs"
  by (cases b) auto

lemma get_struct_value_Ok_iff: "get_struct_value key d = Ok b \<longleftrightarrow> map_of d (ascii key) = Some b"
  by (simp add: get_struct_value_def get_struct_value_from_bytestring_def split: option.split)

lemmas get_Ok_iff = get_u64_Ok_iff get_str_Ok_iff get_struct_Ok_iff get_list_Ok_iff
  get_struct_value_Ok_iff

lemma get_no_panic [simp, outcome_intro]:
  "get_u64 b \<noteq> Panic" "get_str b \<noteq> Panic" "get_string b \<noteq> Panic" "get_struct b \<noteq> Panic"
  "get_list b \<noteq> Panic" "get_struct_value_from_bytestring k d \<noteq> Panic" "get_struct_value key d \<noteq> Panic"
  by (cases b; simp add: get_string_def get_struct_value_def get_struct_value_from_bytestring_def
      split: option.split)+

text \<open>
  The name of a torrent is always text: \<open>get_string\<close> answers with valid UTF-8, and gives back the
  bytes of the value unchanged exactly when they were valid UTF-8.
\<close>

theorem get_string_is_text:
  "get_string (ByteString bs) = Ok s \<longleftrightarrow> s = from_utf8_lossy bs \<and> is_utf8 s \<and> (s = bs) = is_utf8 bs"
  using lossy_id_iff [of bs] is_utf8_lossy [of bs] by (auto simp: get_string_def)

end
