(* ===== verification/Torrent.thy ===== *)
theory Torrent
  imports Bencode_Decode
begin

text \<open>
  The torrent file: \<open>src/core/torrent/torrent.rs\<close>. The bencode parser (\<open>from_buffer\<close>), the bencode
  printer (\<open>to_bytes\<close>) and SHA-1 come from crates and are parameters. Lemmas: what a decoded torrent
  satisfies, which fields are required and which are not, and the round trip with the canonical
  encoding of a torrent.
\<close>

section \<open>The metadata\<close>

record file_entry =
  fe_length :: u64
  fe_path :: "bytes list"

datatype file_details =
    SingleFile u64
  | MultiFile "file_entry list"

record info =
  info_name :: bytes
  piece_length :: u64
  raw_pieces :: bytes
  info_files :: file_details
  info_private :: "u64 option"
  info_source :: "bytes option"

record torrent =
  t_announce :: bytes
  t_info :: info
  t_info_hash :: bytes
  t_comment :: "bytes option"
  t_created_by :: "bytes option"
  t_creation_date :: "u64 option"
  t_encoding :: "bytes option"
  t_announce_list :: "bytes list list option"

definition piece_hash :: "info \<Rightarrow> nat \<Rightarrow> bytes option" where
  "piece_hash i index =
    (let start = index * 20; stop = start + 20
     in if stop \<le> length (raw_pieces i)
        then outcome_ok (subslice (raw_pieces i) start stop :: (unit, bytes) outcome) else None)"

section \<open>Decoding\<close>

definition file_entry_decode :: "bencode \<Rightarrow> (decode_error, file_entry) outcome" where
  "file_entry_decode b =
    obind (get_struct b) (\<lambda>dict.
    obind (obind (get_struct_value_from_bytestring (ascii ''length'') dict) get_u64) (\<lambda>len.
    obind (obind (get_struct_value_from_bytestring (ascii ''path'') dict) get_list) (\<lambda>path_list.
    obind (try_map get_str path_list) (\<lambda>path.
    Ok \<lparr> fe_length = len, fe_path = path \<rparr>))))"

text \<open>A field that may be missing: absent, or of the wrong type, are both \<open>None\<close>.\<close>

definition optional_field ::
  "string \<Rightarrow> (bencode \<Rightarrow> (decode_error, 'a) outcome) \<Rightarrow> (bytes \<times> bencode) list \<Rightarrow> 'a option" where
  "optional_field key get dict =
    Option.bind (outcome_ok (get_struct_value key dict)) (\<lambda>value. outcome_ok (get value))"

definition file_details_decode ::
  "(bytes \<times> bencode) list \<Rightarrow> (decode_error, file_details) outcome" where
  "file_details_decode dict =
    (case get_struct_value ''length'' dict of
       Ok b \<Rightarrow> obind (get_u64 b) (\<lambda>len. Ok (SingleFile len))
     | _ \<Rightarrow>
         obind (obind (get_struct_value ''files'' dict) get_list) (\<lambda>file_list.
         obind (try_map file_entry_decode file_list) (\<lambda>files. Ok (MultiFile files))))"

definition info_decode :: "bencode \<Rightarrow> (decode_error, info) outcome" where
  "info_decode b =
    obind (get_struct b) (\<lambda>dict.
    obind (obind (get_struct_value ''name'' dict) get_string) (\<lambda>name.
    obind (obind (get_struct_value ''piece length'' dict) get_u64) (\<lambda>plen.
    obind (obind (get_struct_value ''pieces'' dict) get_str) (\<lambda>raw.
    if length raw mod 20 \<noteq> 0 then Err (OtherError ''Invalid pieces length'')
    else
      obind (file_details_decode dict) (\<lambda>files.
      Ok \<lparr> info_name = name, piece_length = plen, raw_pieces = raw, info_files = files,
           info_private = optional_field ''private'' get_u64 dict,
           info_source = optional_field ''source'' get_str dict \<rparr>)))))"

text \<open>The tiers of \<open>announce-list\<close>: an item that is no list, or no string, is skipped.\<close>

definition announce_tiers :: "bencode list \<Rightarrow> bytes list list" where
  "announce_tiers outer =
    List.map_filter (\<lambda>inner. map_option (List.map_filter (\<lambda>url. outcome_ok (get_str url)))
      (outcome_ok (get_list inner))) outer"

definition torrent_decode ::
  "(bencode \<Rightarrow> (string, bytes) outcome) \<Rightarrow> (bytes \<Rightarrow> bytes) \<Rightarrow> bencode \<Rightarrow>
   (decode_error, torrent) outcome" where
  "torrent_decode to_bytes sha1 b =
    obind (get_struct b) (\<lambda>dict.
    obind (obind (get_struct_value ''announce'' dict) get_str) (\<lambda>ann.
    obind (get_struct_value ''info'' dict) (\<lambda>info_dict.
    obind (info_decode info_dict) (\<lambda>inf.
    obind (map_err OtherError (to_bytes info_dict)) (\<lambda>info_bytes.
    Ok \<lparr> t_announce = ann, t_info = inf, t_info_hash = sha1 info_bytes,
         t_comment = optional_field ''comment'' get_str dict,
         t_created_by = optional_field ''created by'' get_str dict,
         t_creation_date = optional_field ''creation date'' get_u64 dict,
         t_encoding = optional_field ''encoding'' get_str dict,
         t_announce_list = map_option announce_tiers (optional_field ''announce-list'' get_list dict) \<rparr>)))))"

section \<open>Reading a torrent file\<close>

datatype 's read_torrent_error =
    Streaming 's
  | BencodeDecodable decode_error
  | ReadIO

record torrent_file =
  tf_data :: bytes
  tf_bencode :: bencode
  tf_torrent :: torrent

definition torrent_from_bytes ::
  "(bytes \<Rightarrow> ('s, bencode) outcome) \<Rightarrow> (bencode \<Rightarrow> (string, bytes) outcome) \<Rightarrow> (bytes \<Rightarrow> bytes) \<Rightarrow>
   bytes \<Rightarrow> ('s read_torrent_error, torrent_file) outcome" where
  "torrent_from_bytes from_buffer to_bytes sha1 bytes =
    obind (map_err Streaming (from_buffer bytes)) (\<lambda>bencode_holder.
    obind (map_err BencodeDecodable (torrent_decode to_bytes sha1 bencode_holder)) (\<lambda>t.
    Ok \<lparr> tf_data = bytes, tf_bencode = bencode_holder, tf_torrent = t \<rparr>))"

text \<open>\<open>fs::read\<close> answers with the content of the file, or fails.\<close>

definition torrent_from_file ::
  "(bytes \<Rightarrow> bytes option) \<Rightarrow> (bytes \<Rightarrow> ('s, bencode) outcome) \<Rightarrow>
   (bencode \<Rightarrow> (string, bytes) outcome) \<Rightarrow> (bytes \<Rightarrow> bytes) \<Rightarrow>
   bytes \<Rightarrow> ('s read_torrent_error, torrent_file) outcome" where
  "torrent_from_file fs_read from_buffer to_bytes sha1 path =
    (case fs_read path of
       None \<Rightarrow> Err ReadIO
     | Some content \<Rightarrow> torrent_from_bytes from_buffer to_bytes sha1 content)"

section \<open>Facts on the decoder\<close>

lemma optional_field_Some_iff:
  "optional_field key get dict = Some x \<longleftrightarrow>
     (\<exists>b. map_of dict (ascii key) = Some b \<and> get b = Ok x)"
  by (auto simp: optional_field_def get_struct_value_Ok_iff bind_eq_Some_conv)

lemma optional_field_None_iff:
  "optional_field key get dict = None \<longleftrightarrow>
     (\<forall>b x. map_of dict (ascii key) = Some b \<longrightarrow> get b \<noteq> Ok x)"
  using optional_field_Some_iff [of key get dict] by (auto simp: not_Some_eq [symmetric])

lemma piece_hash_eq:
  "piece_hash i k =
    (if 20 * k + 20 \<le> length (raw_pieces i) then Some (take 20 (drop (20 * k) (raw_pieces i))) else None)"
  by (simp add: piece_hash_def Let_def mult.commute)

text \<open>The pieces a decoded torrent has a hash for are exactly those below the piece count.\<close>

lemma info_decode_pieces:
  assumes "info_decode b = Ok i"
  shows "length (raw_pieces i) mod 20 = 0"
  using assms by (auto simp: info_decode_def split: if_splits)

lemma piece_hash_range:
  assumes "length (raw_pieces i) mod 20 = 0"
  shows "piece_hash i k \<noteq> None \<longleftrightarrow> k < length (raw_pieces i) div 20"
proof -
  have "length (raw_pieces i) = 20 * (length (raw_pieces i) div 20)" using assms by auto
  then show ?thesis by (auto simp: piece_hash_eq)
qed

lemma file_entry_decode_no_panic [simp, outcome_intro]: "file_entry_decode b \<noteq> Panic"
  by (simp add: file_entry_decode_def obind_Panic_iff try_map_no_panic)

lemma file_details_decode_no_panic [simp, outcome_intro]: "file_details_decode d \<noteq> Panic"
  by (simp add: file_details_decode_def obind_Panic_iff try_map_no_panic split: outcome.split)

lemma info_decode_no_panic [simp, outcome_intro]: "info_decode b \<noteq> Panic"
  by (auto simp: info_decode_def obind_Panic_iff)

section \<open>The canonical encoding\<close>

text \<open>
  What a torrent file of this metadata looks like as bencode: the specification the decoder is
  measured against.
\<close>

definition opt_entry :: "string \<Rightarrow> ('a \<Rightarrow> bencode) \<Rightarrow> 'a option \<Rightarrow> (bytes \<times> bencode) list" where
  "opt_entry key enc v = (case v of Some x \<Rightarrow> [(ascii key, enc x)] | None \<Rightarrow> [])"

definition number :: "u64 \<Rightarrow> bencode" where
  "number w = Number (uint w)"

definition file_entry_bencode :: "file_entry \<Rightarrow> bencode" where
  "file_entry_bencode f = Dict
    [(ascii ''length'', number (fe_length f)), (ascii ''path'', BList (map ByteString (fe_path f)))]"

definition info_bencode :: "info \<Rightarrow> bencode" where
  "info_bencode i = Dict
    ((case info_files i of
        SingleFile len \<Rightarrow> [(ascii ''length'', number len)]
      | MultiFile fs \<Rightarrow> [(ascii ''files'', BList (map file_entry_bencode fs))]) @
     [(ascii ''name'', ByteString (info_name i)),
      (ascii ''piece length'', number (piece_length i)),
      (ascii ''pieces'', ByteString (raw_pieces i))] @
     opt_entry ''private'' number (info_private i) @
     opt_entry ''source'' ByteString (info_source i))"

definition torrent_bencode :: "torrent \<Rightarrow> bencode" where
  "torrent_bencode t = Dict
    ([(ascii ''announce'', ByteString (t_announce t))] @
     opt_entry ''announce-list'' (\<lambda>tiers. BList (map (\<lambda>tier. BList (map ByteString tier)) tiers))
       (t_announce_list t) @
     opt_entry ''comment'' ByteString (t_comment t) @
     opt_entry ''created by'' ByteString (t_created_by t) @
     opt_entry ''creation date'' number (t_creation_date t) @
     opt_entry ''encoding'' ByteString (t_encoding t) @
     [(ascii ''info'', info_bencode (t_info t))])"

text \<open>What the decoder requires of the metadata: text for a name, whole hashes.\<close>

definition torrent_ok :: "torrent \<Rightarrow> bool" where
  "torrent_ok t \<longleftrightarrow> is_utf8 (info_name (t_info t)) \<and> length (raw_pieces (t_info t)) mod 20 = 0"

lemma ascii_inj [simp]: "ascii s = ascii t \<longleftrightarrow> s = t"
proof -
  have "inj (of_char :: char \<Rightarrow> u8)"
  proof (rule injI)
    fix c d :: char
    assume eq: "(of_char c :: u8) = of_char d"
    have "unat (of_char x :: u8) = of_char x" for x :: char
    proof -
      have "(of_char x :: u8) = word_of_nat (of_char x)" by (simp only: of_nat_of_char)
      then have "unat (of_char x :: u8) = (of_char x :: nat) mod 256"
        by (simp only: unat_of_nat) simp
      then show ?thesis by simp
    qed
    then have "(of_char c :: nat) = of_char d" using eq by metis
    then show "c = d" by (simp only: of_char_eq_iff)
  qed
  then show ?thesis by (simp add: ascii_def inj_map_eq_map)
qed

lemma map_of_opt_entry [simp]:
  "map_of (opt_entry key enc v) k = (if k = ascii key then map_option enc v else None)"
  by (simp add: opt_entry_def split: option.split)

lemma get_u64_number [simp]: "get_u64 (number w) = Ok w"
  by (simp only: get_u64_Ok_iff number_def)

lemma try_map_map: "(\<And>x. x \<in> set xs \<Longrightarrow> f (g x) = Ok x) \<Longrightarrow> try_map f (map g xs) = Ok xs"
  by (induction xs) auto

lemma file_entry_decode_bencode [simp]: "file_entry_decode (file_entry_bencode f) = Ok f"
  by (simp add: file_entry_decode_def file_entry_bencode_def get_struct_value_from_bytestring_def
      try_map_map)

lemma map_filter_all: "(\<And>x. x \<in> set xs \<Longrightarrow> f (g x) = Some x) \<Longrightarrow> List.map_filter f (map g xs) = xs"
  by (induction xs) (auto simp: List.map_filter_simps)

lemma info_decode_bencode:
  assumes "is_utf8 (info_name i)" "length (raw_pieces i) mod 20 = 0"
  shows "info_decode (info_bencode i) = Ok i"
  using assms by (cases i) (auto simp del: obind_Ok_iff simp: info_decode_def info_bencode_def get_struct_value_def
      get_struct_value_from_bytestring_def file_details_decode_def get_string_def lossy_utf8
      optional_field_def try_map_map map_add_def split: file_details.split option.split)

lemma torrent_decode_bencode:
  assumes "torrent_ok t" "to_bytes (info_bencode (t_info t)) = Ok raw" "t_info_hash t = sha1 raw"
  shows "torrent_decode to_bytes sha1 (torrent_bencode t) = Ok t"
  using assms by (cases t) (auto simp del: obind_Ok_iff simp: torrent_decode_def torrent_bencode_def torrent_ok_def
      get_struct_value_def get_struct_value_from_bytestring_def info_decode_bencode
      optional_field_def announce_tiers_def map_filter_all map_add_def split: option.split)

section \<open>Properties\<close>

text \<open>
  C21: Decoding loses nothing: the decoder applied to the canonical bencode of a torrent gives the
  torrent back, every optional field included, single-file and multi-file alike.
\<close>

theorem torrent_roundtrip:
  assumes "torrent_ok t" "to_bytes (info_bencode (t_info t)) = Ok raw" "t_info_hash t = sha1 raw"
  shows "torrent_decode to_bytes sha1 (torrent_bencode t) = Ok t"
  using assms by (rule torrent_decode_bencode)

theorem torrent_roundtrip_witness:
  "torrent_decode (\<lambda>_. Ok [7]) (\<lambda>x. x)
     (torrent_bencode
       \<lparr> t_announce = [97], t_info = \<lparr> info_name = [98], piece_length = 4, raw_pieces = replicate 20 9,
           info_files = MultiFile [\<lparr> fe_length = 3, fe_path = [[99]] \<rparr>], info_private = Some 1,
           info_source = None \<rparr>,
         t_info_hash = [7], t_comment = None, t_created_by = Some [100], t_creation_date = Some 5,
         t_encoding = None, t_announce_list = Some [[[101], [102]], []] \<rparr>) =
   Ok \<lparr> t_announce = [97], t_info = \<lparr> info_name = [98], piece_length = 4, raw_pieces = replicate 20 9,
           info_files = MultiFile [\<lparr> fe_length = 3, fe_path = [[99]] \<rparr>], info_private = Some 1,
           info_source = None \<rparr>,
         t_info_hash = [7], t_comment = None, t_created_by = Some [100], t_creation_date = Some 5,
         t_encoding = None, t_announce_list = Some [[[101], [102]], []] \<rparr>"
  by (rule torrent_roundtrip [where raw = "[7]"])
    (simp_all add: torrent_ok_def is_utf8.simps(2) utf8_step.simps(2))

text \<open>
  C36: Every torrent the decoder accepts has whole piece hashes, one for each index below the
  number of pieces and none beyond, is named in valid UTF-8, and is identified by the hash of the
  bencode of its own info dictionary.
\<close>

theorem torrent_decode_sound:
  assumes "torrent_decode to_bytes sha1 b = Ok t"
  shows "(\<forall>k. piece_hash (t_info t) k \<noteq> None \<longleftrightarrow> k < length (raw_pieces (t_info t)) div 20) \<and>
    is_utf8 (info_name (t_info t)) \<and>
    (\<exists>dict ib raw. b = Dict dict \<and> map_of dict (ascii ''info'') = Some ib \<and>
       info_decode ib = Ok (t_info t) \<and> to_bytes ib = Ok raw \<and> t_info_hash t = sha1 raw)"
proof -
  from assms obtain dict ib raw
    where b: "b = Dict dict" "map_of dict (ascii ''info'') = Some ib"
      "info_decode ib = Ok (t_info t)" "to_bytes ib = Ok raw" "t_info_hash t = sha1 raw"
    by (auto simp: torrent_decode_def get_Ok_iff)
  then have "is_utf8 (info_name (t_info t))"
    by (auto simp: info_decode_def get_string_def is_utf8_lossy split: if_splits
        dest!: arg_cong [where f = info_name]) (metis is_utf8_lossy)
  with b show ?thesis using piece_hash_range [OF info_decode_pieces] by blast
qed

theorem torrent_decode_sound_witness:
  "\<exists>t. torrent_decode (\<lambda>_. Ok [7]) (\<lambda>x. x)
     (Dict [(ascii ''info'', Dict [(ascii ''name'', ByteString [0xFF]), (ascii ''length'', Number 4),
        (ascii ''piece length'', Number 4), (ascii ''pieces'', ByteString (replicate 40 1))]),
      (ascii ''announce'', ByteString [97])]) = Ok t \<and> is_utf8 (info_name (t_info t)) \<and>
     piece_hash (t_info t) 1 \<noteq> None \<and> piece_hash (t_info t) 2 = None"
proof -
  let ?b = "Dict [(ascii ''info'', Dict [(ascii ''name'', ByteString [0xFF]), (ascii ''length'', Number 4),
        (ascii ''piece length'', Number 4), (ascii ''pieces'', ByteString (replicate 40 1))]),
      (ascii ''announce'', ByteString [97])]"
  obtain t where t: "torrent_decode (\<lambda>_. Ok [7]) (\<lambda>x. x) ?b = Ok t"
      "length (raw_pieces (t_info t)) = 40"
    by (simp add: torrent_decode_def info_decode_def file_details_decode_def get_struct_value_def
        get_struct_value_from_bytestring_def get_string_def)
  from torrent_decode_sound [OF t(1)] t(2)
  have "is_utf8 (info_name (t_info t))" "piece_hash (t_info t) 1 \<noteq> None" "piece_hash (t_info t) 2 = None"
    by (blast, auto)
  with t(1) show ?thesis by blast
qed

text \<open>
  Reading a torrent never panics, and an error says which stage failed: the bencode parser, the
  decoder, or the file system.
\<close>

theorem torrent_from_file_total:
  assumes "\<And>bs. from_buffer bs \<noteq> Panic" "\<And>b. to_bytes b \<noteq> Panic"
  shows "case torrent_from_file fs_read from_buffer to_bytes sha1 path of
      Ok tf \<Rightarrow> fs_read path = Some (tf_data tf) \<and> from_buffer (tf_data tf) = Ok (tf_bencode tf) \<and>
        torrent_decode to_bytes sha1 (tf_bencode tf) = Ok (tf_torrent tf)
    | Err ReadIO \<Rightarrow> fs_read path = None
    | Err (Streaming e) \<Rightarrow> (\<exists>bs. fs_read path = Some bs \<and> from_buffer bs = Err e)
    | Err (BencodeDecodable e) \<Rightarrow> (\<exists>bs b. fs_read path = Some bs \<and> from_buffer bs = Ok b \<and>
        torrent_decode to_bytes sha1 b = Err e)
    | Panic \<Rightarrow> False"
proof -
  have no_panic: "torrent_decode to_bytes sha1 b \<noteq> Panic" for b
    using assms(2) by (simp add: torrent_decode_def obind_Panic_iff)
  show ?thesis
  proof (cases "fs_read path")
    case (Some bs)
    show ?thesis
    proof (cases "from_buffer bs")
      case (Ok b)
      then show ?thesis using Some no_panic [of b]
        by (cases "torrent_decode to_bytes sha1 b")
          (auto simp: torrent_from_file_def torrent_from_bytes_def)
    qed (use Some assms(1) [of bs] in \<open>auto simp: torrent_from_file_def torrent_from_bytes_def\<close>)
  qed (simp add: torrent_from_file_def)
qed

theorem torrent_from_file_total_witness:
  "torrent_from_file (\<lambda>_. Some []) (\<lambda>_. Ok BOther) (\<lambda>_. Ok []) (\<lambda>x. x) [] \<noteq> Panic"
  using torrent_from_file_total [where from_buffer = "\<lambda>_. Ok BOther :: (unit, bencode) outcome"
      and to_bytes = "\<lambda>_. Ok []" and fs_read = "\<lambda>_. Some []" and ?sha1.0 = "\<lambda>x. x" and path = "[]"]
  by (auto simp: torrent_from_file_def torrent_from_bytes_def torrent_decode_def)

end
