(* ===== verification/Piece_Manager.thy ===== *)
theory Piece_Manager
  imports Piece_Data Torrent
begin

text \<open>
  The piece manager, \<open>src/core/peer/piece/piece_manager.rs\<close>: the pieces of a torrent, what to ask for
  next, and what to do with what arrives. Lemmas: the pieces the constructor makes, the invariant
  under every operation, that whatever data is handed out has the hash the torrent names, and the
  choice of the next piece.
\<close>

section \<open>Operations\<close>

record piece_manager =
  pm_pieces :: "(u32, piece) hash_map"
  pm_torrent :: torrent
  pm_block_size :: u32

text \<open>The constructor's loop over the piece indices; \<open>None\<close> is a \<open>Piece::new\<close> that does not return.\<close>

fun new_pieces ::
  "info \<Rightarrow> u32 \<Rightarrow> nat list \<Rightarrow> (u32, piece) hash_map \<Rightarrow> (u32, piece) hash_map option" where
  "new_pieces ti block_size [] pieces = Some pieces"
| "new_pieces ti block_size (i # is) pieces =
    (case piece_hash ti i of
       Some hash \<Rightarrow>
         Option.bind (piece_new (word_of_nat i) (piece_length ti) hash block_size)
           (\<lambda>p. new_pieces ti block_size is (hm_insert (word_of_nat i) p pieces))
     | None \<Rightarrow> new_pieces ti block_size is pieces)"

definition piece_manager_new :: "torrent \<Rightarrow> u32 \<Rightarrow> piece_manager option" where
  "piece_manager_new t block_size =
    map_option (\<lambda>pieces. \<lparr> pm_pieces = pieces, pm_torrent = t, pm_block_size = block_size \<rparr>)
      (new_pieces (t_info t) block_size [0..<length (raw_pieces (t_info t)) div 20] [])"

definition get_next_piece_to_download :: "u32 list \<Rightarrow> piece_manager \<Rightarrow> u32 option" where
  "get_next_piece_to_download available pm =
    find (\<lambda>i. case hm_get (pm_pieces pm) i of
        Some p \<Rightarrow> p_state p = PieceMissing \<or> p_state p = PieceIncomplete
      | None \<Rightarrow> False) available"

definition get_next_block_for_piece :: "u32 \<Rightarrow> piece_manager \<Rightarrow> (u64 \<times> u32) option" where
  "get_next_block_for_piece i pm =
    (case hm_get (pm_pieces pm) i of
       Some p \<Rightarrow>
         (case get_next_missing_block p of
            Some offset \<Rightarrow>
              (case hm_get (p_blocks p) offset of
                 Some b \<Rightarrow> Some (offset, b_length b)
               | None \<Rightarrow> None)
          | None \<Rightarrow> None)
     | None \<Rightarrow> None)"

definition request_block :: "instant \<Rightarrow> u32 \<Rightarrow> u64 \<Rightarrow> peer_ip \<Rightarrow> piece_manager \<Rightarrow> piece_manager" where
  "request_block now i offset ip pm =
    (case hm_get (pm_pieces pm) i of
       Some p \<Rightarrow> pm\<lparr> pm_pieces := hm_insert i (piece_request_from_peer now offset ip p) (pm_pieces pm) \<rparr>
     | None \<Rightarrow> pm)"

definition receive_block ::
  "(bytes \<Rightarrow> bytes) \<Rightarrow> u32 \<Rightarrow> u64 \<Rightarrow> bytes \<Rightarrow> piece_manager \<Rightarrow> (bool \<times> piece_manager) option" where
  "receive_block sha1 i offset data pm =
    (case hm_get (pm_pieces pm) i of
       Some p \<Rightarrow>
         map_option (\<lambda>(_, p'). (piece_is_complete p', pm\<lparr> pm_pieces := hm_insert i p' (pm_pieces pm) \<rparr>))
           (piece_receive_block sha1 offset data p)
     | None \<Rightarrow> Some (False, pm))"

definition mark_piece_written :: "u32 \<Rightarrow> piece_manager \<Rightarrow> piece_manager" where
  "mark_piece_written i pm =
    (case hm_get (pm_pieces pm) i of
       Some p \<Rightarrow> pm\<lparr> pm_pieces := hm_insert i (piece_mask_written p) (pm_pieces pm) \<rparr>
     | None \<Rightarrow> pm)"

definition get_piece_data :: "u32 \<Rightarrow> piece_manager \<Rightarrow> bytes option option" where
  "get_piece_data i pm =
    (case hm_get (pm_pieces pm) i of Some p \<Rightarrow> piece_get_data p | None \<Rightarrow> Some None)"

definition get_completed_pieces :: "piece_manager \<Rightarrow> u32 list" where
  "get_completed_pieces pm = map fst (filter (\<lambda>(i, p). piece_is_complete p) (pm_pieces pm))"

definition is_download_complete :: "piece_manager \<Rightarrow> bool" where
  "is_download_complete pm = list_all piece_is_complete (hm_values (pm_pieces pm))"

section \<open>The constructor\<close>

definition piece_count :: "torrent \<Rightarrow> nat" where
  "piece_count t = length (raw_pieces (t_info t)) div 20"

definition info_fits :: "info \<Rightarrow> u32 \<Rightarrow> bool" where
  "info_fits ti bs \<longleftrightarrow> piece_fits (piece_length ti) bs"

lemma piece_hash_less: "i < length (raw_pieces ti) div 20 \<Longrightarrow>
    piece_hash ti i = Some (take 20 (drop (20 * i) (raw_pieces ti)))"
  by (auto simp: piece_hash_eq)

lemma new_pieces_fits:
  assumes "new_pieces ti bs is m = Some m'" "i \<in> set is" "i < length (raw_pieces ti) div 20"
  shows "info_fits ti bs"
  using assms
proof (induction ti bs "is" m rule: new_pieces.induct)
  case (2 ti bs j js m)
  show ?case
  proof (cases "i = j")
    case True
    with 2(3,5) show ?thesis
      by (auto simp: piece_hash_less info_fits_def bind_eq_Some_conv dest: piece_new_fits)
  next
    case False
    with 2 show ?thesis by (auto split: option.splits simp: bind_eq_Some_conv)
  qed
qed simp

text \<open>A piece index that fits a \<open>u32\<close>: the cast in the loop keeps it.\<close>

lemma word_of_nat_u32_inj:
  "i < 2 ^ 32 \<Longrightarrow> j < 2 ^ 32 \<Longrightarrow> (word_of_nat i :: u32) = word_of_nat j \<longleftrightarrow> i = j"
  by (metis unat_word_of_nat32)

definition new_piece :: "info \<Rightarrow> u32 \<Rightarrow> nat \<Rightarrow> piece" where
  "new_piece ti bs i =
    the (piece_new (word_of_nat i) (piece_length ti) (the (piece_hash ti i)) bs)"

lemma new_piece_eq:
  assumes "info_fits ti bs" "i < length (raw_pieces ti) div 20"
  shows "piece_new (word_of_nat i) (piece_length ti) (take 20 (drop (20 * i) (raw_pieces ti))) bs =
    Some (new_piece ti bs i)"
  using assms piece_new_eq [of "piece_length ti" bs]
  by (auto simp: new_piece_def info_fits_def piece_hash_less)

lemma new_pieces_eq:
  assumes "info_fits ti bs" "\<And>i. i \<in> set is \<Longrightarrow> i < length (raw_pieces ti) div 20"
  shows "new_pieces ti bs is m =
    Some (foldl (\<lambda>m i. hm_insert (word_of_nat i) (new_piece ti bs i) m) m is)"
  using assms
proof (induction "is" arbitrary: m)
  case (Cons i "is")
  then show ?case using new_piece_eq [OF assms(1), of i] by (simp add: piece_hash_less)
qed simp

lemma foldl_insert_get:
  assumes "\<And>i. i < n \<Longrightarrow> i < 2 ^ 32"
  shows "hm_get (foldl (\<lambda>m i. hm_insert (word_of_nat i :: u32) (f i) m) [] [0..<n]) k =
    (if unat k < n then Some (f (unat k)) else None)"
  using assms
proof (induction n)
  case (Suc n)
  have "n < 2 ^ 32" using Suc.prems by simp
  then have "k = word_of_nat n \<longleftrightarrow> unat k = n" by (metis unat_word_of_nat32 unsigned_word_eqI)
  with Suc show ?case by (auto simp: less_Suc_eq)
qed simp

lemma foldl_insert_wf: "hm_wf m \<Longrightarrow> hm_wf (foldl (\<lambda>m i. hm_insert (g i) (f i) m) m is)"
  by (induction "is" arbitrary: m) auto

lemma piece_manager_new_eq:
  assumes "piece_count t = 0 \<or> info_fits (t_info t) bs"
  shows "piece_manager_new t bs = Some \<lparr>
    pm_pieces = foldl (\<lambda>m i. hm_insert (word_of_nat i) (new_piece (t_info t) bs i) m) [] [0..<piece_count t],
    pm_torrent = t, pm_block_size = bs \<rparr>"
proof (cases "piece_count t = 0")
  case False
  with assms show ?thesis
    by (subst piece_manager_new_def, subst new_pieces_eq) (auto simp: piece_count_def)
qed (simp add: piece_manager_new_def piece_count_def)

lemma piece_manager_new_iff:
  "(\<exists>pm. piece_manager_new t bs = Some pm) \<longleftrightarrow> piece_count t = 0 \<or> info_fits (t_info t) bs"
proof
  assume "\<exists>pm. piece_manager_new t bs = Some pm"
  then obtain m where m: "new_pieces (t_info t) bs [0..<piece_count t] [] = Some m"
    by (auto simp: piece_manager_new_def piece_count_def)
  show "piece_count t = 0 \<or> info_fits (t_info t) bs"
  proof (cases "piece_count t = 0")
    case False
    then show ?thesis using new_pieces_fits [OF m, of 0] by (auto simp: piece_count_def)
  qed simp
qed (use piece_manager_new_eq in blast)

lemma piece_new_id: "piece_new i len h bs = Some p \<Longrightarrow> piece_id p = (i, len, h, bs)"
  by (frule piece_new_fits) (auto simp: piece_new_eq piece_id_def)

lemma new_piece_id:
  assumes "info_fits ti bs" "i < length (raw_pieces ti) div 20"
  shows "piece_id (new_piece ti bs i) =
    (word_of_nat i, piece_length ti, take 20 (drop (20 * i) (raw_pieces ti)), bs)"
  by (rule piece_new_id [OF new_piece_eq [OF assms]])

lemma new_piece_state:
  assumes "info_fits ti bs" "i < length (raw_pieces ti) div 20"
  shows "p_state (new_piece ti bs i) = PieceMissing"
  using new_piece_eq [OF assms]
  by (auto simp: piece_new_def dest!: arg_cong [where f = p_state])

lemma new_piece_sound:
  assumes "info_fits ti bs" "i < length (raw_pieces ti) div 20"
  shows "piece_sound sha1 (new_piece ti bs i)"
  by (rule piece_sound_new [OF new_piece_eq [OF assms]])

lemma foldl_insert_values:
  "set (hm_values (foldl (\<lambda>m i. hm_insert (g i) (f i) m) m is)) \<subseteq> set (hm_values m) \<union> f ` set is"
proof (induction "is" arbitrary: m)
  case (Cons i "is")
  have "set (hm_values (hm_insert (g i) (f i) m)) \<subseteq> insert (f i) (set (hm_values m))"
    by (induction m) (auto simp: hm_insert_def hm_values_def)
  with Cons.IH [of "hm_insert (g i) (f i) m"] show ?case by auto
qed simp

lemma foldl_insert_Nil: "foldl (\<lambda>m i. hm_insert (g i) (f i) m) m is = [] \<longleftrightarrow> m = [] \<and> is = []"
proof (induction "is" arbitrary: m)
  case (Cons i "is")
  have "hm_insert (g i) (f i) m \<noteq> []" by (cases m) (auto simp: hm_insert_def)
  with Cons show ?case by simp
qed simp

text \<open>A new manager has nothing complete, and is complete only for a torrent without pieces.\<close>

lemma manager_new_fresh:
  assumes "piece_manager_new t bs = Some pm"
  shows "get_completed_pieces pm = []" "is_download_complete pm \<longleftrightarrow> piece_count t = 0"
proof -
  have fits: "piece_count t = 0 \<or> info_fits (t_info t) bs" using assms piece_manager_new_iff by blast
  have pm: "pm_pieces pm =
      foldl (\<lambda>m i. hm_insert (word_of_nat i) (new_piece (t_info t) bs i) m) [] [0..<piece_count t]"
    using assms piece_manager_new_eq [OF fits] by auto
  have missing: "\<not> piece_is_complete p" if "p \<in> set (hm_values (pm_pieces pm))" for p
  proof -
    from that foldl_insert_values [of word_of_nat "new_piece (t_info t) bs" "[]" "[0..<piece_count t]"]
    obtain i where i: "i < piece_count t" "p = new_piece (t_info t) bs i"
      by (auto simp: pm hm_values_def)
    with fits show ?thesis
      using new_piece_state [of "t_info t" bs i] by (auto simp: piece_count_def piece_is_complete_def)
  qed
  then show "get_completed_pieces pm = []"
    by (force simp: get_completed_pieces_def hm_values_def filter_empty_conv)
  have "pm_pieces pm = [] \<longleftrightarrow> piece_count t = 0" by (simp add: pm foldl_insert_Nil)
  with missing show "is_download_complete pm \<longleftrightarrow> piece_count t = 0"
    by (cases "pm_pieces pm") (auto simp: is_download_complete_def hm_values_def)
qed

section \<open>The invariant\<close>

text \<open>
  Every piece is sound, and is the piece of its index: its hash is the torrent's for that index, its
  length the piece length.
\<close>

definition pm_inv :: "(bytes \<Rightarrow> bytes) \<Rightarrow> piece_manager \<Rightarrow> bool" where
  "pm_inv sha1 pm \<longleftrightarrow> hm_wf (pm_pieces pm) \<and>
     (\<forall>i p. hm_get (pm_pieces pm) i = Some p \<longrightarrow> piece_sound sha1 p \<and>
        (\<exists>h. piece_hash (t_info (pm_torrent pm)) (unat i) = Some h \<and>
           piece_id p = (i, piece_length (t_info (pm_torrent pm)), h, pm_block_size pm)))"

text \<open>What no operation changes: the torrent, the block size, which indices have a piece.\<close>

definition pm_ident :: "piece_manager \<Rightarrow> torrent \<times> u32 \<times> u32 set" where
  "pm_ident pm = (pm_torrent pm, pm_block_size pm, set (map fst (pm_pieces pm)))"

lemma pm_inv_new:
  assumes "piece_manager_new t bs = Some pm" "piece_count t \<le> 2 ^ 32"
  shows "pm_inv sha1 pm"
proof -
  have fits: "piece_count t = 0 \<or> info_fits (t_info t) bs" using assms piece_manager_new_iff by blast
  have pm: "pm_pieces pm =
      foldl (\<lambda>m i. hm_insert (word_of_nat i) (new_piece (t_info t) bs i) m) [] [0..<piece_count t]"
    "pm_torrent pm = t" "pm_block_size pm = bs"
    using assms(1) piece_manager_new_eq [OF fits] by auto
  have get: "hm_get (pm_pieces pm) k =
      (if unat k < piece_count t then Some (new_piece (t_info t) bs (unat k)) else None)" for k
    unfolding pm by (rule foldl_insert_get) (use assms(2) in simp)
  have "hm_wf (pm_pieces pm)" unfolding pm by (simp add: foldl_insert_wf)
  moreover have "piece_sound sha1 p \<and> (\<exists>h. piece_hash (t_info t) (unat k) = Some h \<and>
      piece_id p = (k, piece_length (t_info t), h, bs))"
    if "hm_get (pm_pieces pm) k = Some p" for k p
  proof -
    from that get [of k] have k: "unat k < piece_count t" "p = new_piece (t_info t) bs (unat k)"
      by (auto split: if_splits)
    with fits have "info_fits (t_info t) bs" by simp
    with k show ?thesis
      using new_piece_id [of "t_info t" bs "unat k"] new_piece_sound [of "t_info t" bs "unat k"]
      by (simp add: piece_count_def piece_hash_less)
  qed
  ultimately show ?thesis by (simp add: pm_inv_def pm)
qed

text \<open>Replacing the piece at an index by a sound piece with the same identity.\<close>

lemma pm_put:
  assumes "pm_inv sha1 pm" "hm_get (pm_pieces pm) i = Some p" "piece_sound sha1 p'" "piece_id p' = piece_id p"
  shows "pm_inv sha1 (pm\<lparr> pm_pieces := hm_insert i p' (pm_pieces pm) \<rparr>)"
    and "pm_ident (pm\<lparr> pm_pieces := hm_insert i p' (pm_pieces pm) \<rparr>) = pm_ident pm"
proof -
  show "pm_inv sha1 (pm\<lparr> pm_pieces := hm_insert i p' (pm_pieces pm) \<rparr>)"
    using assms by (auto simp: pm_inv_def)
  have "i \<in> set (map fst (pm_pieces pm))" using assms(2) hm_get_None [of "pm_pieces pm" i] by auto
  then show "pm_ident (pm\<lparr> pm_pieces := hm_insert i p' (pm_pieces pm) \<rparr>) = pm_ident pm"
    by (simp add: pm_ident_def hm_keys_insert insert_absorb del: set_map)
qed

lemma pm_piece_sound: "pm_inv sha1 pm \<Longrightarrow> hm_get (pm_pieces pm) i = Some p \<Longrightarrow> piece_sound sha1 p"
  by (simp add: pm_inv_def)

lemma piece_id_frame [simp]:
  "piece_id (piece_request_from_peer now q ip p) = piece_id p"
  "piece_id (piece_mask_written p) = piece_id p"
  by (simp_all add: piece_id_def piece_mask_written_def)

lemma pm_request_ok:
  "pm_inv sha1 pm \<Longrightarrow> pm_inv sha1 (request_block now i q ip pm) \<and> pm_ident (request_block now i q ip pm) = pm_ident pm"
  using pm_put [of sha1 pm i] pm_piece_sound [of sha1 pm i]
  by (auto simp: request_block_def piece_sound_request split: option.split)

lemma pm_written_ok:
  "pm_inv sha1 pm \<Longrightarrow> pm_inv sha1 (mark_piece_written i pm) \<and> pm_ident (mark_piece_written i pm) = pm_ident pm"
  using pm_put [of sha1 pm i] pm_piece_sound [of sha1 pm i]
  by (auto simp: mark_piece_written_def piece_sound_mask_written split: option.split)

lemma pm_receive_ok:
  assumes "pm_inv sha1 pm"
  shows "\<exists>r pm'. receive_block sha1 i q data pm = Some (r, pm') \<and> pm_inv sha1 pm' \<and> pm_ident pm' = pm_ident pm"
proof (cases "hm_get (pm_pieces pm) i")
  case None
  then have "receive_block sha1 i q data pm = Some (False, pm)" by (simp add: receive_block_def)
  with assms show ?thesis by blast
next
  case (Some p)
  note sound = pm_piece_sound [OF assms Some]
  obtain r p' where res: "piece_receive_block sha1 q data p = Some (r, p')"
    using piece_receive_total [OF piece_sound_layout [OF sound]] by blast
  with pm_put [OF assms Some piece_sound_receive [OF sound res] piece_receive_id [OF res]] Some
  show ?thesis by (simp add: receive_block_def)
qed

text \<open>The operations the download manager calls.\<close>

datatype pm_op =
    PmRequest instant u32 u64 peer_ip
  | PmReceive u32 u64 bytes
  | PmWritten u32

fun pm_apply :: "(bytes \<Rightarrow> bytes) \<Rightarrow> pm_op \<Rightarrow> piece_manager \<Rightarrow> piece_manager option" where
  "pm_apply sha1 (PmRequest now i q ip) pm = Some (request_block now i q ip pm)"
| "pm_apply sha1 (PmReceive i q data) pm = map_option snd (receive_block sha1 i q data pm)"
| "pm_apply sha1 (PmWritten i) pm = Some (mark_piece_written i pm)"

lemma pm_apply_ok:
  assumes "pm_inv sha1 pm"
  shows "\<exists>pm'. pm_apply sha1 x pm = Some pm' \<and> pm_inv sha1 pm' \<and> pm_ident pm' = pm_ident pm"
proof (cases x)
  case (PmReceive i q data)
  with pm_receive_ok [OF assms, of i q data] show ?thesis by auto
qed (use pm_request_ok [OF assms] pm_written_ok [OF assms] in auto)

text \<open>An answer with data is right when it has the hash of the piece asked for.\<close>

definition pm_data_right ::
  "(bytes \<Rightarrow> bytes) \<Rightarrow> torrent \<times> u32 \<times> u32 set \<Rightarrow> u32 \<Rightarrow> bytes option \<Rightarrow> bool" where
  "pm_data_right sha1 t i r =
    (\<forall>d. r = Some d \<longrightarrow> piece_hash (t_info (fst t)) (unat i) = Some (sha1 d) \<and>
       len_u32 d = ucast (piece_length (t_info (fst t))))"

section \<open>What is handed out\<close>

lemma pm_get_data_ok:
  assumes "pm_inv sha1 pm"
  shows "\<exists>r. get_piece_data i pm = Some r \<and> pm_data_right sha1 (pm_ident pm) i r"
proof (cases "hm_get (pm_pieces pm) i")
  case (Some p)
  note sound = pm_piece_sound [OF assms Some]
  note layout = piece_sound_layout [OF sound]
  from assms Some obtain h where h: "piece_hash (t_info (pm_torrent pm)) (unat i) = Some h"
    "piece_id p = (i, piece_length (t_info (pm_torrent pm)), h, pm_block_size pm)"
    by (auto simp: pm_inv_def)
  have "sha1 d = h \<and> len_u32 d = ucast (piece_length (t_info (pm_torrent pm)))"
    if "p_state p = PieceComplete" "piece_content p = Some d" for d
    using that sound h(2) piece_content_len [OF layout that(2)] by (auto simp: piece_sound_def piece_id_def)
  with Some h show ?thesis
    by (auto simp: get_piece_data_def piece_get_data_eq [OF layout] pm_data_right_def pm_ident_def)
qed (simp add: get_piece_data_def pm_data_right_def)

interpretation pm_machine:
  safe_machine "pm_inv sha1" "pm_apply sha1" pm_ident get_piece_data "pm_data_right sha1"
  for sha1
  by unfold_locales (rule pm_apply_ok, assumption, rule pm_get_data_ok)

text \<open>Everything the pieces hold has been received, so it has whatever property the blocks received had.\<close>

definition pm_stored :: "(u32 \<Rightarrow> u64 \<Rightarrow> bytes \<Rightarrow> bool) \<Rightarrow> piece_manager \<Rightarrow> bool" where
  "pm_stored P pm \<longleftrightarrow> (\<forall>i p. hm_get (pm_pieces pm) i = Some p \<longrightarrow> p_index p = i \<and> stored P p)"

lemma pm_stored_new:
  assumes "piece_manager_new t bs = Some pm" "piece_count t \<le> 2 ^ 32"
  shows "pm_stored P pm"
proof -
  have fits: "piece_count t = 0 \<or> info_fits (t_info t) bs" using assms piece_manager_new_iff by blast
  have pm: "pm_pieces pm =
      foldl (\<lambda>m i. hm_insert (word_of_nat i) (new_piece (t_info t) bs i) m) [] [0..<piece_count t]"
    using assms(1) piece_manager_new_eq [OF fits] by auto
  have get: "hm_get (pm_pieces pm) k =
      (if unat k < piece_count t then Some (new_piece (t_info t) bs (unat k)) else None)" for k
    unfolding pm by (rule foldl_insert_get) (use assms(2) in simp)
  have "p_index p = k \<and> stored P p" if "hm_get (pm_pieces pm) k = Some p" for k p
  proof -
    from that get [of k] have k: "unat k < piece_count t" "p = new_piece (t_info t) bs (unat k)"
      by (auto split: if_splits)
    then have k': "info_fits (t_info t) bs" "unat k < length (raw_pieces (t_info t)) div 20"
      using fits by (auto simp: piece_count_def)
    from stored_new [OF new_piece_eq [OF this]] new_piece_id [OF k'] k show ?thesis by (simp add: piece_id_def)
  qed
  then show ?thesis by (simp add: pm_stored_def)
qed

lemma pm_stored_apply:
  assumes inv: "pm_inv sha1 pm" and st: "pm_stored P pm" and res: "pm_apply sha1 x pm = Some pm'"
    and data: "\<And>i q d. x = PmReceive i q d \<Longrightarrow> P i q d"
  shows "pm_stored P pm'"
proof (cases x)
  case (PmRequest now i q ip)
  with res st show ?thesis
    by (auto simp: pm_stored_def request_block_def stored_request split: option.splits if_splits)
next
  case (PmReceive i q d)
  with res obtain r where rec: "receive_block sha1 i q d pm = Some (r, pm')" by auto
  show ?thesis
  proof (cases "hm_get (pm_pieces pm) i")
    case None
    with rec st show ?thesis by (simp add: receive_block_def)
  next
    case (Some p)
    then obtain r' p' where p': "piece_receive_block sha1 q d p = Some (r', p')"
      "pm' = pm\<lparr> pm_pieces := hm_insert i p' (pm_pieces pm) \<rparr>"
      using rec by (auto simp: receive_block_def split: option.splits)
    have p: "p_index p = i" "stored P p" using st Some by (simp_all add: pm_stored_def)
    note layout = piece_sound_layout [OF pm_piece_sound [OF inv Some]]
    have "stored P p'" using stored_receive [OF layout p(2) _ p'(1)] data [OF PmReceive] p(1) by simp
    moreover have "p_index p' = i" using piece_receive_id [OF p'(1)] p(1) by (simp add: piece_id_def)
    ultimately show ?thesis using st p'(2) by (simp add: pm_stored_def)
  qed
next
  case (PmWritten i)
  with res st show ?thesis
    by (auto simp: pm_stored_def mark_piece_written_def stored_written split: option.splits if_splits)
qed

lemma pm_stored_run:
  "pm_inv sha1 pm \<Longrightarrow> pm_stored P pm \<Longrightarrow> run_ops (pm_apply sha1) ops pm = Some pm' \<Longrightarrow>
     \<forall>i q d. PmReceive i q d \<in> set ops \<longrightarrow> P i q d \<Longrightarrow> pm_stored P pm'"
proof (induction ops arbitrary: pm)
  case (Cons x ops)
  then obtain pm1 where pm1: "pm_apply sha1 x pm = Some pm1" "run_ops (pm_apply sha1) ops pm1 = Some pm'"
    by (auto simp: bind_eq_Some_conv)
  have "pm_inv sha1 pm1" using pm_apply_ok [OF Cons.prems(1), of x] pm1(1) by auto
  with Cons.IH pm_stored_apply [OF Cons.prems(1,2) pm1(1)] pm1(2) Cons.prems(4) show ?case by simp
qed simp

lemma pm_stored_length:
  assumes inv: "pm_inv sha1 pm" and st: "pm_stored P pm" and small: "\<And>q x. P i q x \<Longrightarrow> length x < 2 ^ 32"
    and data: "get_piece_data i pm = Some (Some d)"
  shows "length d = unat (piece_length (t_info (pm_torrent pm)))"
proof -
  from data obtain p where p: "hm_get (pm_pieces pm) i = Some p" "piece_get_data p = Some (Some d)"
    by (auto simp: get_piece_data_def split: option.splits)
  note layout = piece_sound_layout [OF pm_piece_sound [OF inv p(1)]]
  have "piece_content p = Some d" using p(2) by (simp add: piece_get_data_eq [OF layout] split: if_splits)
  moreover have "stored P p" "p_index p = i" using st p(1) by (simp_all add: pm_stored_def)
  ultimately have "length d = unat (p_length p)" using stored_content(1) [OF layout, of P d] small by blast
  moreover have "p_length p = piece_length (t_info (pm_torrent pm))"
    using inv p(1) by (auto simp: pm_inv_def piece_id_def)
  ultimately show ?thesis by simp
qed

section \<open>Choosing what to ask for\<close>

definition wanted :: "piece_manager \<Rightarrow> u32 \<Rightarrow> bool" where
  "wanted pm i \<longleftrightarrow> (\<exists>p. hm_get (pm_pieces pm) i = Some p \<and> \<not> piece_is_complete p)"

lemma next_piece_wanted: "get_next_piece_to_download available pm = find (wanted pm) available"
proof -
  have "(p_state p = PieceMissing \<or> p_state p = PieceIncomplete) = (\<not> piece_is_complete p)" for p
    by (cases "p_state p") (simp_all add: piece_is_complete_def)
  then have "(case hm_get (pm_pieces pm) i of
        Some p \<Rightarrow> p_state p = PieceMissing \<or> p_state p = PieceIncomplete | None \<Rightarrow> False) = wanted pm i" for i
    by (simp add: wanted_def split: option.split)
  then show ?thesis by (simp add: get_next_piece_to_download_def)
qed

lemma layout_block_fits:
  assumes "piece_layout p" "hm_get (p_blocks p) q = Some b"
  shows "0 < unat (b_length b) \<and> unat q + unat (b_length b) \<le> unat (p_length p)"
proof -
  have fits: "piece_fits (p_length p) (p_block_size p)" using assms(1) by (simp add: piece_layout_def)
  from assms obtain k where k: "k < nblocks (p_length p) (p_block_size p)" "q = off (p_block_size p) k"
    "b_length b = blen (p_length p) (p_block_size p) k"
    by (auto simp: piece_layout_def block_id_def)
  then have "k * unat (p_block_size p) < unat (p_length p)" using less_nblocks_iff [OF fits] by blast
  moreover from this have "0 < unat (p_block_size p)" using fits by (auto simp: piece_fits_def unat_gt_0)
  ultimately show ?thesis using k unat_off [OF fits, of k] unat_blen [OF fits k(1)] by auto
qed

lemma next_block_Some:
  assumes "pm_inv sha1 pm" "get_next_block_for_piece i pm = Some (q, n)"
  shows "\<exists>p b. hm_get (pm_pieces pm) i = Some p \<and> hm_get (p_blocks p) q = Some b \<and> b_length b = n \<and>
    \<not> block_is_complete b \<and> 0 < n \<and> unat q + unat n \<le> unat (piece_length (t_info (pm_torrent pm)))"
proof -
  from assms(2) obtain p b where p: "hm_get (pm_pieces pm) i = Some p" "get_next_missing_block p = Some q"
    "hm_get (p_blocks p) q = Some b" "n = b_length b"
    by (auto simp: get_next_block_for_piece_def split: option.splits)
  have layout: "piece_layout p" using pm_piece_sound [OF assms(1) p(1)] by (rule piece_sound_layout)
  then have "hm_wf (p_blocks p)" by (simp add: piece_layout_def)
  from next_missing_Some [OF this p(2)] p(3) have "\<not> block_is_complete b" by simp
  moreover have "p_length p = piece_length (t_info (pm_torrent pm))"
    using assms(1) p(1) by (auto simp: pm_inv_def piece_id_def)
  ultimately show ?thesis using p layout_block_fits [OF layout p(3)] by (auto simp: word_less_nat_alt)
qed

lemma next_block_None:
  assumes "pm_inv sha1 pm"
  shows "get_next_block_for_piece i pm = None \<longleftrightarrow>
    (\<forall>p. hm_get (pm_pieces pm) i = Some p \<longrightarrow> is_fully_downloaded p)"
proof (cases "hm_get (pm_pieces pm) i")
  case (Some p)
  have "hm_wf (p_blocks p)"
    using piece_sound_layout [OF pm_piece_sound [OF assms Some]] by (simp add: piece_layout_def)
  with Some show ?thesis
    by (auto simp: get_next_block_for_piece_def next_missing_None [symmetric] split: option.splits
        dest: next_missing_Some)
qed (simp add: get_next_block_for_piece_def)

lemma completed_iff:
  "hm_wf (pm_pieces pm) \<Longrightarrow> i \<in> set (get_completed_pieces pm) \<longleftrightarrow>
     (\<exists>p. hm_get (pm_pieces pm) i = Some p \<and> piece_is_complete p)"
  by (force simp: get_completed_pieces_def hm_get_entry [symmetric])

section \<open>Properties\<close>

text \<open>
  Construction. It returns exactly when the torrent has no pieces or its piece length and the
  block size let the block loop end; there is then one piece for each hash, every one of them,
  the last included, with the full piece length, and nothing is complete yet.
\<close>

theorem manager_new_pieces:
  assumes "piece_count t \<le> 2 ^ 32"
  shows "(case piece_manager_new t bs of
      None \<Rightarrow> piece_count t \<noteq> 0 \<and> (2 ^ 32 \<le> unat (piece_length (t_info t)) \<or>
        piece_length (t_info t) \<noteq> 0 \<and> bs = 0)
    | Some pm \<Rightarrow> \<forall>i. (case hm_get (pm_pieces pm) i of
        None \<Rightarrow> piece_count t \<le> unat i
      | Some p \<Rightarrow> unat i < piece_count t \<and> piece_hash (t_info t) (unat i) = Some (p_hash p) \<and>
          p_length p = piece_length (t_info t) \<and> p_block_size p = bs \<and> \<not> piece_is_complete p))"
proof (cases "piece_count t = 0 \<or> info_fits (t_info t) bs")
  case False
  then have "piece_manager_new t bs = None" using piece_manager_new_iff [of t bs] by auto
  with False show ?thesis by (auto simp: info_fits_def piece_fits_def)
next
  case True
  let ?m = "foldl (\<lambda>m i. hm_insert (word_of_nat i :: u32) (new_piece (t_info t) bs i) m) [] [0..<piece_count t]"
  have get: "hm_get ?m i = (if unat i < piece_count t then Some (new_piece (t_info t) bs (unat i)) else None)" for i
    by (rule foldl_insert_get) (use assms in simp)
  have "piece_hash (t_info t) (unat i) = Some (p_hash p) \<and> p_length p = piece_length (t_info t) \<and>
      p_block_size p = bs \<and> \<not> piece_is_complete p"
    if i: "unat i < piece_count t" and p: "p = new_piece (t_info t) bs (unat i)" for i :: u32 and p
  proof -
    have fits: "info_fits (t_info t) bs" using True i by simp
    have i': "unat i < length (raw_pieces (t_info t)) div 20" using i by (simp add: piece_count_def)
    from new_piece_id [OF fits i'] new_piece_state [OF fits i'] p i' show ?thesis
      by (simp add: piece_id_def piece_hash_less piece_is_complete_def)
  qed
  note piece = this
  show ?thesis
    unfolding piece_manager_new_eq [OF True] option.case piece_manager.select_convs
  proof
    fix i
    show "case hm_get ?m i of None \<Rightarrow> piece_count t \<le> unat i
      | Some p \<Rightarrow> unat i < piece_count t \<and> piece_hash (t_info t) (unat i) = Some (p_hash p) \<and>
          p_length p = piece_length (t_info t) \<and> p_block_size p = bs \<and> \<not> piece_is_complete p"
      unfolding get using piece [OF _ refl, of i] by (cases "unat i < piece_count t") simp_all
  qed
qed

theorem manager_new_pieces_witness:
  "piece_manager_new \<lparr> t_announce = [], t_info = \<lparr> info_name = [], piece_length = 2 ^ 33,
      raw_pieces = replicate 20 1, info_files = SingleFile 5, info_private = None, info_source = None \<rparr>,
      t_info_hash = [], t_comment = None, t_created_by = None, t_creation_date = None, t_encoding = None,
      t_announce_list = None \<rparr> 16384 = None" (is "piece_manager_new ?t _ = None")
proof -
  have "piece_count ?t = 1" by (simp add: piece_count_def)
  with manager_new_pieces [of ?t 16384] piece_manager_new_iff [of ?t 16384] show ?thesis
    by (auto simp: info_fits_def piece_fits_def split: option.splits)
qed

text \<open>A torrent of one piece of four bytes, with which the witnesses below are evaluated.\<close>

definition sample_torrent :: torrent where
  "sample_torrent = \<lparr> t_announce = [], t_info = \<lparr> info_name = [], piece_length = 4,
     raw_pieces = replicate 20 7, info_files = SingleFile 4, info_private = None, info_source = None \<rparr>,
     t_info_hash = replicate 20 1, t_comment = None, t_created_by = None, t_creation_date = None,
     t_encoding = None, t_announce_list = None \<rparr>"

lemma sample_count: "piece_count sample_torrent = 1"
  by (simp add: piece_count_def sample_torrent_def)

lemma sample_hash: "piece_hash (t_info sample_torrent) 0 = Some (replicate 20 7)"
  by (simp add: piece_hash_eq sample_torrent_def)

lemma sample_fits: "info_fits (t_info sample_torrent) 2"
  by (simp add: info_fits_def piece_fits_def sample_torrent_def)

lemma sample_new: "piece_manager_new sample_torrent 2 =
    Some \<lparr> pm_pieces = [(0, new_piece (t_info sample_torrent) 2 0)], pm_torrent = sample_torrent,
      pm_block_size = 2 \<rparr>"
  using piece_manager_new_eq [of sample_torrent 2] sample_fits by (simp add: sample_count hm_insert_def)

text \<open>
  C8: Integrity of the download. From construction on, through any sequence of requests, received
  blocks and write marks, every call returns, and whatever the manager hands out for piece \<open>i\<close> hashes
  to the \<open>i\<close>-th hash of the torrent. Its length is the piece length modulo \<open>2^32\<close>, since a block compares lengths as
  \<open>u32\<close>, and exactly the piece length when the blocks received for it are below 4 GiB.
\<close>

theorem manager_integrity:
  assumes "piece_manager_new t bs = Some pm0" "piece_count t \<le> 2 ^ 32"
  shows "\<exists>pm r. run_ops (pm_apply sha1) ops pm0 = Some pm \<and> get_piece_data i pm = Some r \<and>
    (\<forall>d. r = Some d \<longrightarrow> piece_hash (t_info t) (unat i) = Some (sha1 d) \<and>
       len_u32 d = ucast (piece_length (t_info t)) \<and>
       ((\<forall>q x. PmReceive i q x \<in> set ops \<longrightarrow> length x < 2 ^ 32) \<longrightarrow> length d = unat (piece_length (t_info t))))"
proof -
  let ?P = "\<lambda>j q x. PmReceive j q x \<in> set ops"
  note inv0 = pm_inv_new [OF assms, of sha1]
  have t0: "fst (pm_ident pm0) = t" using assms(1) by (auto simp: piece_manager_new_def pm_ident_def)
  from pm_machine.run_query [OF inv0, of ops i] obtain pm r where
    pm: "run_ops (pm_apply sha1) ops pm0 = Some pm" "get_piece_data i pm = Some r" "pm_data_right sha1 (pm_ident pm0) i r"
    by blast
  have inv: "pm_inv sha1 pm" by (rule pm_machine.run_inv [OF inv0 pm(1)])
  have t: "pm_torrent pm = t" using pm_machine.run_ident [OF inv0 pm(1)] t0 by (simp add: pm_ident_def)
  have "pm_stored ?P pm" by (rule pm_stored_run [OF inv0 pm_stored_new [OF assms] pm(1)]) simp
  from pm_stored_length [OF inv this, of i] pm(2) have
    "length d = unat (piece_length (t_info t))" if "r = Some d" "\<forall>q x. PmReceive i q x \<in> set ops \<longrightarrow> length x < 2 ^ 32" for d
    using that t by blast
  with pm t0 show ?thesis by (simp add: pm_data_right_def)
qed

theorem manager_integrity_witness:
  "\<exists>pm0 pm r. piece_manager_new sample_torrent 2 = Some pm0 \<and>
     run_ops (pm_apply (\<lambda>_. replicate 20 7)) [PmReceive 0 2 [3, 4], PmReceive 0 0 [1, 2], PmWritten 0] pm0
       = Some pm \<and>
     get_piece_data 0 pm = Some r \<and> (\<forall>d. r = Some d \<longrightarrow> length d = 4)"
  using manager_integrity [OF sample_new, of "\<lambda>_. replicate 20 7"
      "[PmReceive 0 2 [3, 4], PmReceive 0 0 [1, 2], PmWritten 0]" 0] sample_new
  by (simp add: sample_count) (auto simp: sample_torrent_def)

text \<open>
  A short last piece never completes. When the data of a piece is shorter than the piece
  length, as the last piece of most torrents is, no sequence of operations makes the manager hand
  that data out: the piece was laid out with the full piece length.
\<close>

theorem short_piece_never_served:
  assumes "piece_manager_new t bs = Some pm0" "piece_count t \<le> 2 ^ 32"
    and "length d < unat (piece_length (t_info t))" "piece_hash (t_info t) (unat i) = Some (sha1 d)"
    and "run_ops (pm_apply sha1) ops pm0 = Some pm"
  shows "get_piece_data i pm \<noteq> Some (Some d)"
proof
  assume served: "get_piece_data i pm = Some (Some d)"
  have "unat i < piece_count t"
    using assms(4) by (auto simp: piece_hash_eq piece_count_def split: if_splits)
  then have "unat (piece_length (t_info t)) < 2 ^ 32"
    using assms(1) piece_manager_new_iff [of t bs] by (auto simp: info_fits_def piece_fits_def)
  moreover have "fst (pm_ident pm0) = t" using assms(1) by (auto simp: piece_manager_new_def pm_ident_def)
  with pm_machine.run_query [OF pm_inv_new [OF assms(1,2)], of sha1 ops i] assms(5) served
  have "len_u32 d = ucast (piece_length (t_info t))" by (auto simp: pm_data_right_def)
  ultimately show False using assms(3) unat_len_u32 [of d] unat_down32 [of "piece_length (t_info t)"] by simp
qed

theorem short_piece_never_served_witness:
  "\<exists>pm0 pm. piece_manager_new sample_torrent 2 = Some pm0 \<and>
     run_ops (pm_apply (\<lambda>_. replicate 20 7)) [PmReceive 0 0 [1, 2], PmReceive 0 2 [3]] pm0 = Some pm \<and>
     get_piece_data 0 pm \<noteq> Some (Some [1, 2, 3])"
proof -
  have inv: "pm_inv (\<lambda>_. replicate 20 7) (the (piece_manager_new sample_torrent 2))"
    by (rule pm_inv_new [of sample_torrent 2]) (simp_all add: sample_new sample_count)
  from pm_machine.run_ok [OF inv] obtain pm where pm: "run_ops (pm_apply (\<lambda>_. replicate 20 7))
      [PmReceive 0 0 [1, 2], PmReceive 0 2 [3]] (the (piece_manager_new sample_torrent 2)) = Some pm"
    by blast
  have new: "piece_manager_new sample_torrent 2 = Some (the (piece_manager_new sample_torrent 2))"
    by (simp add: sample_new)
  have "get_piece_data 0 pm \<noteq> Some (Some [1, 2, 3])"
    by (rule short_piece_never_served [OF new _ _ _ pm])
      (simp_all add: sample_count sample_hash, simp add: sample_torrent_def)
  with new pm show ?thesis by blast
qed

text \<open>
  The choice of a piece and of a block in it. The next piece is the first of the peer's list
  that is not complete, and there is none exactly when all of them are complete or unknown; the
  block chosen in a piece has not been received, is not empty and lies inside the piece.
\<close>

theorem manager_choice:
  assumes "pm_inv sha1 pm"
  shows "(get_next_piece_to_download available pm = Some i \<longleftrightarrow>
      (\<exists>xs ys. available = xs @ i # ys \<and> wanted pm i \<and> (\<forall>j \<in> set xs. \<not> wanted pm j))) \<and>
    (get_next_piece_to_download available pm = None \<longleftrightarrow> (\<forall>j \<in> set available. \<not> wanted pm j)) \<and>
    (case get_next_block_for_piece i pm of
       None \<Rightarrow> \<forall>p. hm_get (pm_pieces pm) i = Some p \<longrightarrow> is_fully_downloaded p
     | Some (q, n) \<Rightarrow> \<exists>p b. hm_get (pm_pieces pm) i = Some p \<and> hm_get (p_blocks p) q = Some b \<and>
         b_length b = n \<and> \<not> block_is_complete b \<and> 0 < n \<and>
         unat q + unat n \<le> unat (piece_length (t_info (pm_torrent pm))))"
proof (intro conjI)
  show "get_next_piece_to_download available pm = Some i \<longleftrightarrow>
      (\<exists>xs ys. available = xs @ i # ys \<and> wanted pm i \<and> (\<forall>j \<in> set xs. \<not> wanted pm j))"
    by (simp add: next_piece_wanted find_Some_first)
next
  show "get_next_piece_to_download available pm = None \<longleftrightarrow> (\<forall>j \<in> set available. \<not> wanted pm j)"
    by (auto simp: next_piece_wanted find_None_iff)
qed (use next_block_Some [OF assms] next_block_None [OF assms] in \<open>auto split: option.split\<close>)

theorem manager_choice_witness:
  "\<exists>pm. piece_manager_new sample_torrent 2 = Some pm \<and>
     get_next_piece_to_download [9, 0] pm = Some 0 \<and> get_next_piece_to_download [9] pm = None"
proof -
  let ?pm = "the (piece_manager_new sample_torrent 2)"
  have inv: "pm_inv (\<lambda>_. replicate 20 7) ?pm"
    by (rule pm_inv_new [of sample_torrent 2]) (simp_all add: sample_new sample_count)
  have "p_state (new_piece (t_info sample_torrent) 2 0) = PieceMissing"
    by (rule new_piece_state [OF sample_fits]) (simp add: sample_torrent_def)
  then have "wanted ?pm 0" "\<not> wanted ?pm 9"
    by (simp_all add: wanted_def sample_new hm_get_def piece_is_complete_def)
  then have "get_next_piece_to_download [9, 0] ?pm = Some 0" "get_next_piece_to_download [9] ?pm = None"
    by (intro manager_choice [OF inv, THEN conjunct1, THEN iffD2] exI [of _ "[9]"] exI [of _ "[]"]; simp)
      (rule manager_choice [OF inv, THEN conjunct2, THEN conjunct1, THEN iffD2], use \<open>\<not> wanted ?pm 9\<close> in simp)
  then show ?thesis by (simp add: sample_new)
qed

end
