(* ===== verification/Disk_IO.thy ===== *)
theory Disk_IO
  imports Torrent
begin

text \<open>
  Files on disk: \<open>src/core/disk_io.rs\<close>. The operating system is a map from inodes to contents and a
  resolution of paths to inodes, so that two paths can name one file. An operation returns the
  disk it leaves and its outcome, since an error does not undo what was done before it. Modelled of
  I/O failure: a directory or file that cannot be made or opened, a length or a position beyond
  \<open>i64::MAX\<close>, and the end of a file met by \<open>read_exact\<close>; a full or broken disk is not.
\<close>

section \<open>The disk\<close>

record disk =
  d_mkdir :: "bytes \<Rightarrow> bool"
  d_resolve :: "bytes \<Rightarrow> nat option"
  d_content :: "nat \<Rightarrow> bytes"

text \<open>\<open>set_len\<close>: cut off, or filled up with zeros.\<close>

definition resize :: "nat \<Rightarrow> bytes \<Rightarrow> bytes" where
  "resize n c = take n c @ replicate (n - length c) 0"

text \<open>A seek from the start followed by \<open>write_all\<close>: a gap after the end is filled with zeros.\<close>

definition pwrite :: "nat \<Rightarrow> bytes \<Rightarrow> bytes \<Rightarrow> bytes" where
  "pwrite pos data c =
    (if data = [] then c
     else take pos c @ replicate (pos - length c) 0 @ data @ drop (pos + length data) c)"

definition set_content :: "nat \<Rightarrow> bytes \<Rightarrow> disk \<Rightarrow> disk" where
  "set_content ino c d = d\<lparr> d_content := (d_content d)(ino := c) \<rparr>"

datatype disk_error =
    IoError
  | PathError string
  | InvalidPiece u32

section \<open>Opening\<close>

record disk_io =
  dio_base_path :: bytes
  dio_file_details :: file_details
  dio_piece_length :: u32
  dio_files :: "nat list"
  dio_total_size :: u64

text \<open>\<open>PathBuf::push\<close>: an absolute component replaces the path, any other is put after a separator.\<close>

definition path_push :: "bytes \<Rightarrow> bytes \<Rightarrow> bytes" where
  "path_push path component =
    (if component \<noteq> [] \<and> hd component = 47 then component
     else if path \<noteq> [] \<and> last path \<noteq> 47 then path @ [47] @ component
     else path @ component)"

fun entry_path :: "bytes \<Rightarrow> bytes list \<Rightarrow> (disk_error, bytes) outcome" where
  "entry_path path [] = Ok path"
| "entry_path path (component # components) =
    (if is_utf8 component then entry_path (path_push path component) components
     else Err (PathError ''Invalid UTF-8 in path''))"

text \<open>Creating the parent directories and opening the file, then \<open>set_len\<close>.\<close>

definition open_file :: "bytes \<Rightarrow> u64 \<Rightarrow> disk \<Rightarrow> disk \<times> (disk_error, nat) outcome" where
  "open_file path len d =
    (case d_resolve d path of
       None \<Rightarrow> (d, Err IoError)
     | Some ino \<Rightarrow>
         if unat len < 2 ^ 63 then (set_content ino (resize (unat len) (d_content d ino)) d, Ok ino)
         else (d, Err IoError))"

fun open_files ::
  "bytes \<Rightarrow> file_entry list \<Rightarrow> nat list \<Rightarrow> u64 \<Rightarrow> disk \<Rightarrow> disk \<times> (disk_error, nat list \<times> u64) outcome" where
  "open_files base [] files total_size d = (d, Ok (files, total_size))"
| "open_files base (f # fs) files total_size d =
    (case entry_path base (fe_path f) of
       Ok path \<Rightarrow>
         (case open_file path (fe_length f) d of
            (d, Ok ino) \<Rightarrow> open_files base fs (files @ [ino]) (total_size + fe_length f) d
          | (d, Err e) \<Rightarrow> (d, Err e)
          | (d, Panic) \<Rightarrow> (d, Panic))
     | Err e \<Rightarrow> (d, Err e)
     | Panic \<Rightarrow> (d, Panic))"

definition disk_io_new ::
  "bytes \<Rightarrow> file_details \<Rightarrow> u32 \<Rightarrow> disk \<Rightarrow> disk \<times> (disk_error, disk_io) outcome" where
  "disk_io_new base details plen d =
    (if \<not> d_mkdir d base then (d, Err IoError)
     else
       let (d, res) =
         (case details of
            SingleFile len \<Rightarrow>
              (case open_file (path_push base (ascii ''data'')) len d of
                 (d, res) \<Rightarrow> (d, obind res (\<lambda>ino. Ok ([ino], len))))
          | MultiFile fs \<Rightarrow> open_files base fs [] 0 d)
       in (d, obind res (\<lambda>(files, total_size).
            Ok \<lparr> dio_base_path = base, dio_file_details = details, dio_piece_length = plen,
                 dio_files = files, dio_total_size = total_size \<rparr>)))"

section \<open>Reading and writing at a position\<close>

definition file_write :: "nat \<Rightarrow> u64 \<Rightarrow> bytes \<Rightarrow> disk \<Rightarrow> disk \<times> (disk_error, unit) outcome" where
  "file_write ino pos data d =
    (if unat pos < 2 ^ 63 then (set_content ino (pwrite (unat pos) data (d_content d ino)) d, Ok ())
     else (d, Err IoError))"

definition file_read :: "nat \<Rightarrow> u64 \<Rightarrow> nat \<Rightarrow> disk \<Rightarrow> (disk_error, bytes) outcome" where
  "file_read ino pos n d =
    (if unat pos < 2 ^ 63 \<and> unat pos + n \<le> length (d_content d ino)
     then Ok (take n (drop (unat pos) (d_content d ino)))
     else Err IoError)"

section \<open>Writing a piece\<close>

text \<open>
  The search for the file that holds an offset: the offset at which it starts and its index, or
  the number of files when there is none.
\<close>

fun seek_file :: "file_entry list \<Rightarrow> u64 \<Rightarrow> u64 \<Rightarrow> nat \<Rightarrow> u64 \<times> nat" where
  "seek_file [] piece_offset current_offset file_index = (current_offset, file_index)"
| "seek_file (f # fs) piece_offset current_offset file_index =
    (if piece_offset < current_offset + fe_length f then (current_offset, file_index)
     else seek_file fs piece_offset (current_offset + fe_length f) (file_index + 1))"

text \<open>The loop over the files a piece spans. Every file is written at \<open>piece_offset\<close>.\<close>

function write_spans ::
  "disk_io \<Rightarrow> file_entry list \<Rightarrow> u64 \<Rightarrow> bytes \<Rightarrow> nat \<Rightarrow> nat \<Rightarrow> nat \<Rightarrow> u64 \<Rightarrow> disk \<Rightarrow>
   disk \<times> (disk_error, unit) outcome" where
  "write_spans dio entries piece_offset data remaining data_offset file_index file_offset d =
    (if 0 < remaining \<and> file_index < length entries then
       let lgth = min remaining (unat (fe_length (entries ! file_index) - file_offset)) in
       (case obind (idx (dio_files dio) file_index) (\<lambda>ino.
               obind (subslice data data_offset (data_offset + lgth)) (\<lambda>s. Ok (ino, s))) of
          Ok (ino, s) \<Rightarrow>
            (case file_write ino piece_offset s d of
               (d, Ok _) \<Rightarrow>
                 write_spans dio entries piece_offset data (remaining - lgth) (data_offset + lgth)
                   (file_index + 1) 0 d
             | (d, e) \<Rightarrow> (d, e))
        | Err e \<Rightarrow> (d, Err e)
        | Panic \<Rightarrow> (d, Panic))
     else (d, Ok ()))"
  by auto
termination by (relation "measure (\<lambda>(dio, entries, _, _, _, _, i, _, _). length entries - i)") auto

definition write_multi_file_piece ::
  "disk_io \<Rightarrow> u32 \<Rightarrow> bytes \<Rightarrow> file_entry list \<Rightarrow> disk \<Rightarrow> disk \<times> (disk_error, unit) outcome" where
  "write_multi_file_piece dio piece_index data entries d =
    (let piece_offset = ucast (piece_index * dio_piece_length dio) :: u64;
         (current_offset, file_index) = seek_file entries piece_offset 0 0
     in if length entries \<le> file_index then (d, Err (InvalidPiece piece_index))
        else write_spans dio entries piece_offset data (length data) 0 file_index
               (piece_offset - current_offset) d)"

definition write_piece ::
  "disk_io \<Rightarrow> u32 \<Rightarrow> bytes \<Rightarrow> disk \<Rightarrow> disk \<times> (disk_error, unit) outcome" where
  "write_piece dio piece_index data d =
    (let piece_offset = piece_index * dio_piece_length dio in
     if dio_total_size dio \<le> ucast piece_offset then (d, Err (InvalidPiece piece_index))
     else (case dio_file_details dio of
         SingleFile _ \<Rightarrow>
           (case idx (dio_files dio) 0 of
              Ok ino \<Rightarrow> file_write ino (ucast piece_offset) data d
            | Err e \<Rightarrow> (d, Err e)
            | Panic \<Rightarrow> (d, Panic))
       | MultiFile entries \<Rightarrow> write_multi_file_piece dio piece_index data entries d))"

section \<open>Reading a piece\<close>

function read_spans ::
  "disk_io \<Rightarrow> file_entry list \<Rightarrow> bytes \<Rightarrow> nat \<Rightarrow> nat \<Rightarrow> nat \<Rightarrow> u64 \<Rightarrow> disk \<Rightarrow> (disk_error, bytes) outcome" where
  "read_spans dio entries buffer remaining data_offset file_index file_offset d =
    (if 0 < remaining \<and> file_index < length entries then
       let n = min remaining (unat (fe_length (entries ! file_index) - file_offset)) in
       obind (idx (dio_files dio) file_index) (\<lambda>ino.
       obind (subslice buffer data_offset (data_offset + n)) (\<lambda>_.
       obind (file_read ino file_offset n d) (\<lambda>s.
       read_spans dio entries (splice buffer data_offset s) (remaining - n) (data_offset + n)
         (file_index + 1) 0 d)))
     else Ok buffer)"
  by auto
termination by (relation "measure (\<lambda>(dio, entries, _, _, _, i, _, _). length entries - i)") auto

definition read_multi_file_piece ::
  "disk_io \<Rightarrow> u32 \<Rightarrow> bytes \<Rightarrow> file_entry list \<Rightarrow> disk \<Rightarrow> (disk_error, bytes) outcome" where
  "read_multi_file_piece dio piece_index buffer entries d =
    (let piece_offset = ucast (piece_index * dio_piece_length dio) :: u64;
         (current_offset, file_index) = seek_file entries piece_offset 0 0
     in if length entries \<le> file_index then Err (InvalidPiece piece_index)
        else read_spans dio entries buffer (length buffer) 0 file_index (piece_offset - current_offset) d)"

definition read_piece :: "disk_io \<Rightarrow> u32 \<Rightarrow> disk \<Rightarrow> (disk_error, bytes) outcome" where
  "read_piece dio piece_index d =
    (let piece_offset = ucast (piece_index * dio_piece_length dio) :: u64 in
     if dio_total_size dio \<le> piece_offset then Err (InvalidPiece piece_index)
     else
       let piece_size =
         (if dio_total_size dio < ucast ((piece_index + 1) * dio_piece_length dio)
          then dio_total_size dio - piece_offset else ucast (dio_piece_length dio));
           buffer = replicate (unat piece_size) 0
       in (case dio_file_details dio of
           SingleFile _ \<Rightarrow>
             obind (idx (dio_files dio) 0) (\<lambda>ino. file_read ino piece_offset (length buffer) d)
         | MultiFile entries \<Rightarrow> read_multi_file_piece dio piece_index buffer entries d))"

declare write_spans.simps [simp del] read_spans.simps [simp del]

end
