(* ===== verification/Disk_Layout.thy ===== *)
theory Disk_Layout
  imports Disk_IO
begin

text \<open>
  What \<open>src/core/disk_io.rs\<close> does to the data of a torrent. The files of a torrent laid end to end are
  its image. Lemmas: what opening leaves on disk, that reading a piece is a slice of the image for
  one file and for many, that writing a piece replaces that slice when there is one file, what
  the writer does instead when there are several, and the effect of the 32-bit piece offset.
\<close>

section \<open>The image of a torrent\<close>

definition entry_sizes :: "file_details \<Rightarrow> nat list" where
  "entry_sizes details =
    (case details of SingleFile n \<Rightarrow> [unat n] | MultiFile fs \<Rightarrow> map (\<lambda>f. unat (fe_length f)) fs)"

definition torrent_image :: "disk_io \<Rightarrow> disk \<Rightarrow> bytes" where
  "torrent_image dio d = concat (map (d_content d) (dio_files dio))"

text \<open>The files are there with their lengths, and the total is their sum.\<close>

definition disk_wf :: "disk_io \<Rightarrow> disk \<Rightarrow> bool" where
  "disk_wf dio d \<longleftrightarrow>
     map (\<lambda>ino. length (d_content d ino)) (dio_files dio) = entry_sizes (dio_file_details dio) \<and>
     (\<forall>n \<in> set (entry_sizes (dio_file_details dio)). n < 2 ^ 63) \<and>
     unat (dio_total_size dio) = sum_list (entry_sizes (dio_file_details dio))"

lemma disk_wf_lengths: "disk_wf dio d \<Longrightarrow> length (dio_files dio) = length (entry_sizes (dio_file_details dio))"
  unfolding disk_wf_def by (metis length_map)

lemma length_image: "disk_wf dio d \<Longrightarrow> length (torrent_image dio d) = unat (dio_total_size dio)"
  by (simp add: disk_wf_def torrent_image_def length_concat comp_def)

lemma disk_wf_nth:
  assumes "disk_wf dio d" "k < length (dio_files dio)"
  shows "length (d_content d (dio_files dio ! k)) = entry_sizes (dio_file_details dio) ! k"
    and "entry_sizes (dio_file_details dio) ! k < 2 ^ 63"
proof -
  have eq: "map (\<lambda>ino. length (d_content d ino)) (dio_files dio) = entry_sizes (dio_file_details dio)"
    using assms(1) by (simp add: disk_wf_def)
  show "length (d_content d (dio_files dio ! k)) = entry_sizes (dio_file_details dio) ! k"
    using assms(2) by (simp flip: eq)
  show "entry_sizes (dio_file_details dio) ! k < 2 ^ 63"
    using assms disk_wf_lengths [OF assms(1)] by (simp add: disk_wf_def)
qed

section \<open>Opening\<close>

lemma length_resize [simp]: "length (resize n c) = n"
  by (simp add: resize_def)

lemma set_content_get [simp]: "d_content (set_content ino c d) x = (if x = ino then c else d_content d x)"
  by (simp add: set_content_def)

lemma set_content_resolve [simp]: "d_resolve (set_content ino c d) = d_resolve d"
  by (simp add: set_content_def)

lemma open_file_Ok:
  "open_file path len d = (d', Ok ino) \<Longrightarrow>
     unat len < 2 ^ 63 \<and> d' = set_content ino (resize (unat len) (d_content d ino)) d"
  by (auto simp: open_file_def split: option.splits if_splits)

lemma open_files_Ok:
  assumes "open_files base fs files n d = (d', Ok (files', n'))" "distinct files'"
    and "unat n + sum_list (map (\<lambda>f. unat (fe_length f)) fs) < 2 ^ 64"
  shows "\<exists>opened. files' = files @ opened \<and>
    map (\<lambda>ino. length (d_content d' ino)) opened = map (\<lambda>f. unat (fe_length f)) fs \<and>
    (\<forall>f \<in> set fs. unat (fe_length f) < 2 ^ 63) \<and>
    unat n' = unat n + sum_list (map (\<lambda>f. unat (fe_length f)) fs) \<and>
    (\<forall>ino. ino \<notin> set opened \<longrightarrow> d_content d' ino = d_content d ino)"
  using assms
proof (induction base fs files n d rule: open_files.induct)
  case (2 base f fs files n d)
  from 2(2) obtain path ino d1 where path: "entry_path base (fe_path f) = Ok path"
    and opened: "open_file path (fe_length f) d = (d1, Ok ino)"
    and rest: "open_files base fs (files @ [ino]) (n + fe_length f) d1 = (d', Ok (files', n'))"
    by (auto split: outcome.splits prod.splits)
  have n: "unat (n + fe_length f) = unat n + unat (fe_length f)"
    by (rule unat_add64) (use 2(4) in simp)
  from 2(1) [OF path opened [symmetric] refl rest 2(3)] 2(4) n obtain op where op: "files' = (files @ [ino]) @ op"
    "map (\<lambda>ino. length (d_content d' ino)) op = map (\<lambda>f. unat (fe_length f)) fs"
    "\<forall>f \<in> set fs. unat (fe_length f) < 2 ^ 63"
    "unat n' = unat n + unat (fe_length f) + sum_list (map (\<lambda>f. unat (fe_length f)) fs)"
    "\<forall>ino. ino \<notin> set op \<longrightarrow> d_content d' ino = d_content d1 ino" by auto
  have "ino \<notin> set op" using op(1) 2(3) by simp
  with op open_file_Ok [OF opened] show ?case by (intro exI [of _ "ino # op"]) auto
qed simp

text \<open>Opening with distinct files and lengths that do not overflow leaves a well-formed disk.\<close>

lemma disk_io_new_wf:
  assumes "disk_io_new base details plen d = (d', Ok dio)"
    and "distinct (dio_files dio)" "sum_list (entry_sizes details) < 2 ^ 64"
  shows "disk_wf dio d' \<and> dio_file_details dio = details \<and> dio_piece_length dio = plen \<and>
    (\<forall>ino. ino \<notin> set (dio_files dio) \<longrightarrow> d_content d' ino = d_content d ino)"
proof (cases details)
  case (SingleFile len)
  with assms(1) obtain ino where ino: "open_file (path_push base (ascii ''data'')) len d = (d', Ok ino)"
    "dio = \<lparr> dio_base_path = base, dio_file_details = details, dio_piece_length = plen,
       dio_files = [ino], dio_total_size = len \<rparr>"
    by (auto simp: disk_io_new_def split: if_splits prod.splits)
  with open_file_Ok [OF ino(1)] SingleFile show ?thesis by (auto simp: disk_wf_def entry_sizes_def)
next
  case (MultiFile fs)
  with assms(1) obtain files n where files: "open_files base fs [] 0 d = (d', Ok (files, n))"
    "dio = \<lparr> dio_base_path = base, dio_file_details = details, dio_piece_length = plen,
       dio_files = files, dio_total_size = n \<rparr>"
    by (auto simp: disk_io_new_def split: if_splits prod.splits)
  from open_files_Ok [OF files(1)] files(2) assms(2,3) MultiFile show ?thesis
    by (auto simp: disk_wf_def entry_sizes_def comp_def)
qed

section \<open>Finding a file\<close>

lemma seek_file_found:
  assumes "seek_file fs pos cur i = (cur', i')"
    and "unat cur \<le> unat pos" "unat pos < unat cur + sum_list (map (\<lambda>f. unat (fe_length f)) fs)"
    and "unat cur + sum_list (map (\<lambda>f. unat (fe_length f)) fs) < 2 ^ 64"
  shows "\<exists>pre f post. fs = pre @ f # post \<and> i' = i + length pre \<and>
    unat cur' = unat cur + sum_list (map (\<lambda>f. unat (fe_length f)) pre) \<and> unat cur' \<le> unat pos \<and>
    unat pos < unat cur' + unat (fe_length f)"
  using assms
proof (induction fs pos cur i rule: seek_file.induct)
  case (2 f fs pos cur i)
  have cur: "unat (cur + fe_length f) = unat cur + unat (fe_length f)"
    by (rule unat_add64) (use 2(5) in simp)
  show ?case
  proof (cases "pos < cur + fe_length f")
    case True
    then have "unat pos < unat cur + unat (fe_length f)" by (simp add: word_less_nat_alt cur)
    with 2(2,3) True show ?thesis by (intro exI [of _ "[]"]) auto
  next
    case False
    then have "unat cur + unat (fe_length f) \<le> unat pos" by (simp add: word_less_nat_alt cur not_less)
    with 2(1) [OF False] 2(2,4,5) False cur obtain pre g post where
      "fs = pre @ g # post" "i' = i + 1 + length pre"
      "unat cur' = unat cur + unat (fe_length f) + sum_list (map (\<lambda>f. unat (fe_length f)) pre)"
      "unat cur' \<le> unat pos" "unat pos < unat cur' + unat (fe_length g)" by (auto simp: add.assoc)
    then show ?thesis by (intro exI [of _ "f # pre"]) auto
  qed
qed simp

section \<open>Reading\<close>

lemma unat_diff64: "unat (y :: u64) \<le> unat x \<Longrightarrow> unat (x - y) = unat x - unat y"
  by (simp add: unat_sub word_le_nat_alt)

lemma read_spans_turn:
  assumes "length (dio_files dio) = length entries" "k < length entries" "0 < n" "length buffer = pos + n"
    and c: "c = d_content d (dio_files dio ! k)" "length c = unat (fe_length (entries ! k))" "length c < 2 ^ 63"
    and fo: "unat fo \<le> length c" and l: "l = min n (length c - unat fo)"
  shows "read_spans dio entries buffer n pos k fo d =
    read_spans dio entries (splice buffer pos (take l (drop (unat fo) c))) (n - l) (pos + l) (k + 1) 0 d"
proof -
  have "min n (unat (fe_length (entries ! k) - fo)) = l"
    using fo c(2) by (simp add: unat_diff64 l)
  moreover have "file_read (dio_files dio ! k) fo l d = Ok (take l (drop (unat fo) c))"
    using fo c(3) l by (auto simp: file_read_def c(1))
  moreover have "l \<le> n" by (simp add: l)
  ultimately show ?thesis using assms(1-4) by (subst read_spans.simps) simp
qed

lemma read_spans_image:
  assumes "length (dio_files dio) = length entries"
    and "\<And>k. k < length entries \<Longrightarrow> length (d_content d (dio_files dio ! k)) = unat (fe_length (entries ! k)) \<and>
      unat (fe_length (entries ! k)) < 2 ^ 63"
    and "k \<le> length entries" "k < length entries \<longrightarrow> unat fo \<le> unat (fe_length (entries ! k))"
    and "length buffer = pos + n"
    and "n \<le> length (drop (unat fo) (concat (map (d_content d) (drop k (dio_files dio)))))"
  shows "read_spans dio entries buffer n pos k fo d =
    Ok (take pos buffer @ take n (drop (unat fo) (concat (map (d_content d) (drop k (dio_files dio))))))"
  using assms(3-6)
proof (induction "length entries - k" arbitrary: buffer n pos k fo)
  case 0
  then show ?case using assms(1) by (subst read_spans.simps) simp
next
  case (Suc m)
  then have k: "k < length entries" by simp
  let ?c = "d_content d (dio_files dio ! k)"
  let ?rest = "concat (map (d_content d) (drop (Suc k) (dio_files dio)))"
  have drop_k: "drop k (dio_files dio) = dio_files dio ! k # drop (Suc k) (dio_files dio)"
    using k assms(1) by (simp add: Cons_nth_drop_Suc)
  have c: "length ?c = unat (fe_length (entries ! k))" "length ?c < 2 ^ 63" using assms(2) [OF k] by auto
  have fo: "unat fo \<le> length ?c" using Suc.prems(2) k c(1) by simp
  have n: "n \<le> length ?c - unat fo + length ?rest" using Suc.prems(4) fo by (simp add: drop_k)
  show ?case
  proof (cases "0 < n")
    case False
    then show ?thesis using Suc.prems(3) by (subst read_spans.simps) simp
  next
    case True
    define l where "l = min n (length ?c - unat fo)"
    let ?b = "splice buffer pos (take l (drop (unat fo) ?c))"
    have b: "length ?b = (pos + l) + (n - l)" "take (pos + l) ?b = take pos buffer @ take l (drop (unat fo) ?c)"
      using Suc.prems(3) by (simp_all add: splice_def l_def)
    have m: "m = length entries - (k + 1)" "k + 1 \<le> length entries" "n - l \<le> length ?rest"
      using Suc.hyps(2) k n by (simp_all add: l_def)
    have "read_spans dio entries buffer n pos k fo d = read_spans dio entries ?b (n - l) (pos + l) (k + 1) 0 d"
      by (rule read_spans_turn [OF assms(1) k True Suc.prems(3) refl c fo l_def])
    also have "\<dots> = Ok (take (pos + l) ?b @ take (n - l) (drop 0 ?rest))"
      using Suc.hyps(1) [OF m(1,2) _ b(1), of 0] m(3) by simp
    also have "\<dots> = Ok (take pos buffer @ take n (drop (unat fo) (?c @ ?rest)))"
      unfolding b(2) using fo by (simp add: l_def min_def)
    finally show ?thesis by (simp add: drop_k)
  qed
qed

text \<open>The bytes of a piece: where it starts in the image and how long it is.\<close>

definition piece_start :: "disk_io \<Rightarrow> u32 \<Rightarrow> nat" where
  "piece_start dio i = unat i * unat (dio_piece_length dio)"

definition piece_extent :: "disk_io \<Rightarrow> u32 \<Rightarrow> nat" where
  "piece_extent dio i = min (unat (dio_piece_length dio)) (unat (dio_total_size dio) - piece_start dio i)"

text \<open>A piece whose end the 32-bit arithmetic of the code can represent.\<close>

definition in_range :: "disk_io \<Rightarrow> u32 \<Rightarrow> bool" where
  "in_range dio i \<longleftrightarrow> piece_start dio i < unat (dio_total_size dio) \<and>
     piece_start dio i + unat (dio_piece_length dio) < 2 ^ 32"

lemma unat_mult32: "unat (x :: u32) * unat y < 2 ^ 32 \<Longrightarrow> unat (x * y) = unat x * unat y"
  by (simp add: unat_word_ariths)

lemma in_range_fits: "in_range dio i \<Longrightarrow> piece_start dio i + piece_extent dio i \<le> unat (dio_total_size dio)"
  unfolding in_range_def piece_extent_def by arith

lemma in_range_start:
  "in_range dio i \<Longrightarrow> unat (ucast (i * dio_piece_length dio) :: u64) = piece_start dio i"
  by (simp add: in_range_def piece_start_def unat_mult32)

lemma in_range_size:
  assumes "in_range dio i"
  shows "unat (if dio_total_size dio < ucast ((i + 1) * dio_piece_length dio)
      then dio_total_size dio - ucast (i * dio_piece_length dio) else ucast (dio_piece_length dio)) =
    piece_extent dio i"
proof -
  have next_start: "(i + 1) * dio_piece_length dio = i * dio_piece_length dio + dio_piece_length dio"
    by (simp add: algebra_simps)
  have start: "unat (i * dio_piece_length dio) = piece_start dio i"
    using in_range_start [OF assms] by simp
  have "unat (i * dio_piece_length dio + dio_piece_length dio) = piece_start dio i + unat (dio_piece_length dio)"
    using assms start by (simp add: unat_word_ariths in_range_def)
  then have end': "unat (ucast ((i + 1) * dio_piece_length dio) :: u64) =
      piece_start dio i + unat (dio_piece_length dio)"
    by (simp only: next_start unat_up64)
  have "unat (dio_total_size dio - ucast (i * dio_piece_length dio)) =
      unat (dio_total_size dio) - piece_start dio i"
    using assms start by (subst unat_diff64) (simp_all add: in_range_def)
  with end' show ?thesis
    by (simp add: word_less_nat_alt piece_extent_def min_def split: if_split) linarith
qed

lemma piece_extent_le: "disk_wf dio d \<Longrightarrow> piece_start dio i + piece_extent dio i \<le> length (torrent_image dio d)
    \<or> length (torrent_image dio d) < piece_start dio i"
  by (auto simp: length_image piece_extent_def)

lemma seek_entries:
  assumes "disk_wf dio d" "dio_file_details dio = MultiFile entries"
    and "unat pos < unat (dio_total_size dio)"
  obtains pre f post cur where "entries = pre @ f # post" "seek_file entries pos 0 0 = (cur, length pre)"
    "unat cur = sum_list (map (\<lambda>f. unat (fe_length f)) pre)" "unat cur \<le> unat pos"
    "unat pos < unat cur + unat (fe_length f)"
proof -
  have "sum_list (map (\<lambda>f. unat (fe_length f)) entries) = unat (dio_total_size dio)"
    using assms(1,2) by (simp add: disk_wf_def entry_sizes_def comp_def)
  moreover obtain cur k where "seek_file entries pos 0 0 = (cur, k)" by fastforce
  ultimately show thesis
    using seek_file_found [of entries pos 0 0 cur k] assms(3) unat_u64_less [of "dio_total_size dio"] that
    by auto
qed

lemma multi_nth:
  assumes "disk_wf dio d" "dio_file_details dio = MultiFile entries"
  shows "length (dio_files dio) = length entries"
    and "k < length entries \<Longrightarrow> length (d_content d (dio_files dio ! k)) = unat (fe_length (entries ! k)) \<and>
      unat (fe_length (entries ! k)) < 2 ^ 63"
  using disk_wf_lengths [OF assms(1)] disk_wf_nth [OF assms(1), of k] assms(2)
  by (simp_all add: entry_sizes_def)

lemma image_prefix:
  assumes "disk_wf dio d" "dio_file_details dio = MultiFile (pre @ f # post)"
  shows "length (concat (map (d_content d) (take (length pre) (dio_files dio)))) =
    sum_list (map (\<lambda>f. unat (fe_length f)) pre)"
proof -
  have eq: "map (\<lambda>ino. length (d_content d ino)) (dio_files dio) =
      map (\<lambda>f. unat (fe_length f)) (pre @ f # post)"
    using assms by (simp add: disk_wf_def entry_sizes_def comp_def)
  then have "take (length pre) (map (\<lambda>ino. length (d_content d ino)) (dio_files dio)) =
      map (\<lambda>f. unat (fe_length f)) pre" by simp
  then have "map (\<lambda>ino. length (d_content d ino)) (take (length pre) (dio_files dio)) =
      map (\<lambda>f. unat (fe_length f)) pre" by (simp only: take_map)
  then show ?thesis by (simp add: length_concat comp_def)
qed

lemma read_piece_image:
  assumes wf: "disk_wf dio d" and range: "in_range dio i"
  shows "read_piece dio i d = Ok (take (piece_extent dio i) (drop (piece_start dio i) (torrent_image dio d)))"
proof -
  let ?pos = "ucast (i * dio_piece_length dio) :: u64"
  note start = in_range_start [OF range]
  have below: "\<not> dio_total_size dio \<le> ?pos" "unat ?pos < unat (dio_total_size dio)"
    using range start by (simp_all add: in_range_def word_le_nat_alt)
  have fits: "piece_start dio i + piece_extent dio i \<le> length (torrent_image dio d)"
    using in_range_fits [OF range] by (simp add: length_image [OF wf])
  show ?thesis
  proof (cases "dio_file_details dio")
    case (SingleFile n)
    then obtain ino where files: "dio_files dio = [ino]"
      using disk_wf_lengths [OF wf] by (auto simp: entry_sizes_def length_Suc_conv)
    with fits start range show ?thesis
      by (simp add: read_piece_def below Let_def in_range_size [OF range, simplified] SingleFile torrent_image_def
          file_read_def in_range_def)
  next
    case (MultiFile entries)
    from seek_entries [OF wf MultiFile below(2)] obtain pre f post cur where es: "entries = pre @ f # post"
      and seek: "seek_file entries ?pos 0 0 = (cur, length pre)"
      and cur: "unat cur = sum_list (map (\<lambda>f. unat (fe_length f)) pre)" "unat cur \<le> unat ?pos"
        "unat ?pos < unat cur + unat (fe_length f)" .
    let ?buf = "replicate (piece_extent dio i) (0 :: u8)"
    let ?tail = "concat (map (d_content d) (drop (length pre) (dio_files dio)))"
    have img: "torrent_image dio d = concat (map (d_content d) (take (length pre) (dio_files dio))) @ ?tail"
      by (simp add: torrent_image_def flip: concat_append map_append)
    have skip: "drop (unat (?pos - cur)) ?tail = drop (piece_start dio i) (torrent_image dio d)"
      using cur start image_prefix [of dio d pre f post] wf MultiFile es
      by (simp add: img unat_diff64)
    have "read_spans dio entries ?buf (piece_extent dio i) 0 (length pre) (?pos - cur) d =
        Ok (take 0 ?buf @ take (piece_extent dio i) (drop (unat (?pos - cur)) ?tail))"
    proof (rule read_spans_image)
      show "piece_extent dio i \<le> length (drop (unat (?pos - cur)) ?tail)"
        unfolding skip using fits by simp
      have "unat (?pos - cur) \<le> unat (fe_length f)" using cur(2,3) by (simp only: unat_diff64)
      then show "length pre < length entries \<longrightarrow> unat (?pos - cur) \<le> unat (fe_length (entries ! length pre))"
        by (simp add: es)
    qed (use multi_nth [OF wf MultiFile] es in simp_all)
    then show ?thesis
      by (simp add: read_piece_def below Let_def in_range_size [OF range, simplified] MultiFile
          read_multi_file_piece_def seek skip) (simp add: es)
  qed
qed

section \<open>Writing with one file\<close>

lemma pwrite_inside:
  "pos + length data \<le> length c \<Longrightarrow> pwrite pos data c = splice c pos data"
  by (simp add: pwrite_def splice_def)

lemma write_piece_single:
  assumes wf: "disk_wf dio d" and range: "in_range dio i" and single: "dio_file_details dio = SingleFile n"
    and len: "length data = piece_extent dio i"
  obtains d' where "write_piece dio i data d = (d', Ok ())" "disk_wf dio d'"
    "torrent_image dio d' = splice (torrent_image dio d) (piece_start dio i) data"
proof -
  let ?pos = "ucast (i * dio_piece_length dio) :: u64"
  note start = in_range_start [OF range]
  obtain ino where files: "dio_files dio = [ino]"
    using disk_wf_lengths [OF wf] single by (auto simp: entry_sizes_def length_Suc_conv)
  have fits: "piece_start dio i + length data \<le> length (d_content d ino)"
    using in_range_fits [OF range] length_image [OF wf] len files by (simp add: torrent_image_def)
  let ?d = "set_content ino (splice (d_content d ino) (piece_start dio i) data) d"
  have "write_piece dio i data d = (?d, Ok ())"
    using range start fits
    by (simp add: write_piece_def Let_def single files file_write_def pwrite_inside in_range_def
        word_le_nat_alt)
  moreover have "disk_wf dio ?d" using wf fits files by (simp add: disk_wf_def)
  moreover have "torrent_image dio ?d = splice (torrent_image dio d) (piece_start dio i) data"
    by (simp add: torrent_image_def files)
  ultimately show thesis by (rule that)
qed

lemma splice_same: "pos + length data \<le> length c \<Longrightarrow> take (length data) (drop pos (splice c pos data)) = data"
  by (simp add: splice_def)

lemma splice_other:
  assumes "pos + length data \<le> length c" "p + n \<le> pos \<or> pos + length data \<le> p"
  shows "take n (drop p (splice c pos data)) = take n (drop p c)"
  using assms(2)
proof
  assume "p + n \<le> pos"
  then have "drop p (splice c pos data) = drop p (take pos c) @ data @ drop (pos + length data) c"
    "length (drop p (take pos c)) \<ge> n"
    using assms(1) by (simp_all add: splice_def)
  moreover from this have "take n (drop p (take pos c)) = take n (drop p c)"
    using \<open>p + n \<le> pos\<close> by (simp add: drop_take)
  ultimately show ?thesis by simp
next
  assume "pos + length data \<le> p"
  moreover from this have "p - (pos + (length data)) + (pos + length data) = p" by simp
  ultimately show ?thesis using assms(1) by (simp add: splice_def)
qed

lemma pieces_disjoint:
  assumes "i \<noteq> j"
  shows "piece_start dio i + piece_extent dio i \<le> piece_start dio j \<or>
    piece_start dio j + piece_extent dio j \<le> piece_start dio i"
proof -
  have step: "piece_start dio a + piece_extent dio a \<le> piece_start dio b" if "unat a < unat b" for a b
  proof -
    from that obtain k where "unat b = unat a + 1 + k" by (metis Suc_eq_plus1 add_Suc less_imp_Suc_add)
    then have "piece_start dio b = piece_start dio a + unat (dio_piece_length dio) + k * unat (dio_piece_length dio)"
      by (simp add: piece_start_def algebra_simps)
    then show ?thesis by (simp add: piece_extent_def)
  qed
  from assms have "unat i < unat j \<or> unat j < unat i"
    by (metis linorder_neqE_nat unsigned_word_eqI)
  with step show ?thesis by blast
qed

section \<open>Piece storage\<close>

text \<open>What the download needs from a disk: pieces written are read back, and do not disturb each other.\<close>

locale piece_storage =
  fixes ok :: "'s \<Rightarrow> bool"
    and valid :: "u32 \<Rightarrow> bytes \<Rightarrow> bool"
    and store :: "u32 \<Rightarrow> bytes \<Rightarrow> 's \<Rightarrow> 's \<times> ('e, unit) outcome"
    and fetch :: "u32 \<Rightarrow> 's \<Rightarrow> ('e, bytes) outcome"
  assumes store_ok: "ok s \<Longrightarrow> valid i data \<Longrightarrow> \<exists>s'. store i data s = (s', Ok ()) \<and> ok s'"
    and fetch_same: "ok s \<Longrightarrow> valid i data \<Longrightarrow> store i data s = (s', r) \<Longrightarrow> fetch i s' = Ok data"
    and fetch_other: "ok s \<Longrightarrow> valid i data \<Longrightarrow> valid j data' \<Longrightarrow> i \<noteq> j \<Longrightarrow>
      store i data s = (s', r) \<Longrightarrow> fetch j s' = fetch j s"
begin

lemma store_op: "ok s \<Longrightarrow> valid i data \<Longrightarrow>
    ok (fst (store i data s)) \<and> snd (store i data s) = Ok () \<and>
    (\<forall>j data'. valid j data' \<longrightarrow>
       fetch j (fst (store i data s)) = (if j = i then Ok data else fetch j s))"
  using store_ok [of s i data] fetch_same [of s i data] fetch_other [of s i data] by force

text \<open>After any sequence of valid writes each piece reads as it was last written.\<close>

lemma store_all:
  assumes "ok s" "\<forall>(i, data) \<in> set xs. valid i data" "valid j data'"
  shows "ok (foldl (\<lambda>s (i, data). fst (store i data s)) s xs) \<and>
    fetch j (foldl (\<lambda>s (i, data). fst (store i data s)) s xs) =
      (case map_of (rev xs) j of Some data \<Rightarrow> Ok data | None \<Rightarrow> fetch j s)"
  using assms(2)
proof (induction xs rule: rev_induct)
  case (snoc x xs)
  obtain i data where x: "x = (i, data)" by fastforce
  from snoc have IH: "ok (foldl (\<lambda>s (i, data). fst (store i data s)) s xs)"
    "fetch j (foldl (\<lambda>s (i, data). fst (store i data s)) s xs) =
      (case map_of (rev xs) j of Some data \<Rightarrow> Ok data | None \<Rightarrow> fetch j s)" by auto
  with store_op [OF IH(1), of i data] snoc.prems assms(3) show ?case by (auto simp: x)
qed (use assms(1) in simp)

text \<open>None of the writes fails.\<close>

lemma store_succeeds:
  assumes "ok s" "\<forall>(i, data) \<in> set xs. valid i data" "k < length xs" "valid j data'"
  shows "snd (store (fst (xs ! k)) (snd (xs ! k)) (foldl (\<lambda>s (i, data). fst (store i data s)) s (take k xs))) = Ok ()"
proof -
  have "ok (foldl (\<lambda>s (i, data). fst (store i data s)) s (take k xs))"
    using store_all [OF assms(1) _ assms(4), of "take k xs"] assms(2) by (auto dest: in_set_takeD)
  moreover have "valid (fst (xs ! k)) (snd (xs ! k))" using assms(2) nth_mem [OF assms(3)] by (auto simp: split_beta)
  ultimately show ?thesis using store_op by blast
qed

end

definition single_ok :: "disk_io \<Rightarrow> disk \<Rightarrow> bool" where
  "single_ok dio d \<longleftrightarrow> disk_wf dio d \<and> (\<exists>n. dio_file_details dio = SingleFile n)"

definition piece_valid :: "disk_io \<Rightarrow> u32 \<Rightarrow> bytes \<Rightarrow> bool" where
  "piece_valid dio i data \<longleftrightarrow> in_range dio i \<and> length data = piece_extent dio i"

text \<open>A write that replaces the piece's slice of the image has what the storage promises.\<close>

lemma splice_storage:
  assumes wf: "disk_wf dio d" "disk_wf dio d'" and valid: "piece_valid dio i data"
    and image: "torrent_image dio d' = splice (torrent_image dio d) (piece_start dio i) data"
  shows "read_piece dio i d' = Ok data"
    and "piece_valid dio j data' \<Longrightarrow> i \<noteq> j \<Longrightarrow> read_piece dio j d' = read_piece dio j d"
proof -
  from valid have i: "in_range dio i" "length data = piece_extent dio i" by (simp_all add: piece_valid_def)
  have fits: "piece_start dio i + length data \<le> length (torrent_image dio d)"
    using wf(1) i in_range_fits [OF i(1)] by (simp add: length_image)
  show "read_piece dio i d' = Ok data"
    using wf i image splice_same [OF fits] by (simp add: read_piece_image)
  assume j: "piece_valid dio j data'" "i \<noteq> j"
  then show "read_piece dio j d' = read_piece dio j d"
    using wf image i splice_other [OF fits, of "piece_start dio j" "piece_extent dio j"] pieces_disjoint [OF j(2), of dio]
    by (auto simp: read_piece_image piece_valid_def)
qed

interpretation single: piece_storage "single_ok dio" "piece_valid dio" "write_piece dio" "read_piece dio"
  for dio
proof unfold_locales
  fix d i data
  assume ok: "single_ok dio d" and valid: "piece_valid dio i data"
  then obtain n where wf: "disk_wf dio d" "dio_file_details dio = SingleFile n" "in_range dio i"
    "length data = piece_extent dio i" by (auto simp: single_ok_def piece_valid_def)
  from write_piece_single [OF wf(1,3,2,4)] obtain d1 where d1: "write_piece dio i data d = (d1, Ok ())"
    "disk_wf dio d1" "torrent_image dio d1 = splice (torrent_image dio d) (piece_start dio i) data" .
  show "\<exists>d'. write_piece dio i data d = (d', Ok ()) \<and> single_ok dio d'"
    using d1 wf(2) by (simp add: single_ok_def)
  fix d' r assume "write_piece dio i data d = (d', r)"
  then have d': "d' = d1" using d1 by simp
  show "read_piece dio i d' = Ok data" unfolding d' by (rule splice_storage [OF wf(1) d1(2) valid d1(3)])
  fix j data' assume j: "piece_valid dio j data'" "i \<noteq> j"
  show "read_piece dio j d' = read_piece dio j d"
    unfolding d' by (rule splice_storage(2) [OF wf(1) d1(2) valid d1(3) j])
qed

section \<open>Writing with several files\<close>

text \<open>A piece that lies inside one file: the writer puts it at the piece's offset in the torrent.\<close>

lemma same_entry:
  assumes "pre @ f # post = pre' @ f' # post'"
    and "sum_list (map (\<lambda>f. unat (fe_length f)) pre') \<le> n"
      "n < sum_list (map (\<lambda>f. unat (fe_length f)) pre') + unat (fe_length f')"
    and "sum_list (map (\<lambda>f. unat (fe_length f)) pre) \<le> n"
      "n < sum_list (map (\<lambda>f. unat (fe_length f)) pre) + unat (fe_length f)"
  shows "pre' = pre \<and> f' = f"
proof -
  from assms(1) consider us where "pre' = pre @ us" "us @ f' # post' = f # post"
    | us where "pre = pre' @ us" "us @ f # post = f' # post'"
    by (auto simp: append_eq_append_conv2)
  then show ?thesis
  proof cases
    case 1
    then show ?thesis using assms(2,5) by (cases us) auto
  next
    case 2
    then show ?thesis using assms(3,4) by (cases us) auto
  qed
qed

lemma write_piece_multi:
  assumes wf: "disk_wf dio d" and range: "in_range dio i"
    and multi: "dio_file_details dio = MultiFile (pre @ f # post)"
    and len: "length data = piece_extent dio i" and pos: "data \<noteq> []"
    and inside: "sum_list (map (\<lambda>f. unat (fe_length f)) pre) \<le> piece_start dio i"
      "piece_start dio i + length data \<le> sum_list (map (\<lambda>f. unat (fe_length f)) pre) + unat (fe_length f)"
    and ino: "ino = dio_files dio ! length pre"
  shows "write_piece dio i data d =
    (set_content ino (pwrite (piece_start dio i) data (d_content d ino)) d, Ok ())"
proof -
  let ?pos = "ucast (i * dio_piece_length dio) :: u64"
  note start = in_range_start [OF range]
  have below: "\<not> dio_total_size dio \<le> ?pos" "unat ?pos < unat (dio_total_size dio)"
    using range start by (simp_all add: in_range_def word_le_nat_alt)
  from seek_entries [OF wf multi below(2)] obtain pre' f' post' cur where
    es: "pre @ f # post = pre' @ f' # post'" and seek: "seek_file (pre @ f # post) ?pos 0 0 = (cur, length pre')"
    and cur: "unat cur = sum_list (map (\<lambda>f. unat (fe_length f)) pre')" "unat cur \<le> unat ?pos"
      "unat ?pos < unat cur + unat (fe_length f')" .
  have less: "piece_start dio i < sum_list (map (\<lambda>f. unat (fe_length f)) pre) + unat (fe_length f)"
    using inside(2) pos by (cases data) auto
  have same: "pre' = pre \<and> f' = f"
    by (rule same_entry [OF es _ _ inside(1) less]) (use cur start in simp_all)
  have l: "min (length data) (unat (fe_length f - (?pos - cur))) = length data"
  proof -
    have "unat (?pos - cur) = unat ?pos - unat cur" by (rule unat_diff64) (rule cur(2))
    moreover from this have "unat (fe_length f - (?pos - cur)) = unat (fe_length f) - unat (?pos - cur)"
      using cur same by (intro unat_diff64) simp
    ultimately show ?thesis using inside cur(1) same start by simp
  qed
  have "length pre < length (dio_files dio)" using multi_nth(1) [OF wf multi] by simp
  then have "write_spans dio (pre @ f # post) ?pos data (length data) 0 (length pre) (?pos - cur) d =
      (set_content ino (pwrite (piece_start dio i) data (d_content d ino)) d, Ok ())"
    using range start pos ino
    by (subst write_spans.simps, subst write_spans.simps)
      (simp add: nth_append l file_write_def in_range_def)
  then show ?thesis
    using seek same by (simp add: write_piece_def Let_def below multi write_multi_file_piece_def)
qed

section \<open>No panic\<close>

lemma write_spans_no_panic:
  assumes "length (dio_files dio) = length entries" "off + n = length data"
  shows "snd (write_spans dio entries pos data n off k fo d) \<noteq> Panic"
  using assms(2)
proof (induction "length entries - k" arbitrary: n off k fo d)
  case 0
  then show ?case by (subst write_spans.simps) simp
next
  case (Suc m)
  then have k: "k < length entries" by simp
  show ?case
  proof (cases "0 < n")
    case True
    define l where "l = min n (unat (fe_length (entries ! k) - fo))"
    have idx: "obind (idx (dio_files dio) k) (\<lambda>ino. obind (subslice data off (off + l)) (\<lambda>s. Ok (ino, s))) =
        (Ok (dio_files dio ! k, take l (drop off data)) :: (disk_error, nat \<times> bytes) outcome)"
      using k assms(1) Suc.prems by (simp add: l_def)
    have "l \<le> n" by (simp add: l_def)
    then have "snd (write_spans dio entries pos data (n - l) (off + l) (k + 1) 0 d') \<noteq> Panic" for d'
      using Suc.hyps(1) [of "k + 1" "off + l" "n - l"] Suc.hyps(2) Suc.prems k by simp
    then show ?thesis using True k idx
      by (subst write_spans.simps) (simp add: Let_def file_write_def flip: l_def)
  qed (subst write_spans.simps, simp)
qed

lemma read_spans_no_panic:
  assumes "length (dio_files dio) = length entries" "off + n = length buffer"
  shows "read_spans dio entries buffer n off k fo d \<noteq> Panic"
  using assms(2)
proof (induction "length entries - k" arbitrary: buffer n off k fo)
  case 0
  then show ?case by (subst read_spans.simps) simp
next
  case (Suc m)
  then have k: "k < length entries" by simp
  show ?case
  proof (cases "0 < n")
    case True
    define l where "l = min n (unat (fe_length (entries ! k) - fo))"
    have "l \<le> n" by (simp add: l_def)
    then have "read_spans dio entries (splice buffer off s) (n - l) (off + l) (k + 1) 0 d \<noteq> Panic"
      if "length s = l" for s
      using Suc.hyps(1) [of "k + 1" "off + l" "n - l" "splice buffer off s"] Suc.hyps(2) Suc.prems k that by simp
    then show ?thesis using True k \<open>l \<le> n\<close> assms(1) Suc.prems
      by (subst read_spans.simps) (auto simp: Let_def file_read_def simp flip: l_def)
  qed (subst read_spans.simps, simp)
qed

lemma disk_total:
  assumes "length (dio_files dio) = length (entry_sizes (dio_file_details dio))"
  shows "snd (write_piece dio i data d) \<noteq> Panic \<and> read_piece dio i d \<noteq> Panic"
proof (cases "dio_file_details dio")
  case (SingleFile n)
  then obtain ino where "dio_files dio = [ino]" using assms by (auto simp: entry_sizes_def length_Suc_conv)
  with SingleFile show ?thesis
    by (simp add: write_piece_def read_piece_def Let_def file_write_def file_read_def)
next
  case (MultiFile entries)
  then have len: "length (dio_files dio) = length entries" using assms by (simp add: entry_sizes_def)
  show ?thesis
    using write_spans_no_panic [OF len] read_spans_no_panic [OF len]
    by (simp add: write_piece_def read_piece_def write_multi_file_piece_def read_multi_file_piece_def
        Let_def MultiFile split: prod.split)
qed

lemma write_piece_no_panic:
  "length (dio_files dio) = length (entry_sizes (dio_file_details dio)) \<Longrightarrow> snd (write_piece dio i data d) \<noteq> Panic"
  using disk_total by blast

lemma replicate_numeral: "replicate (numeral k) x = x # replicate (pred_numeral k) x"
  by (simp add: numeral_eq_Suc)

section \<open>Properties\<close>

text \<open>
  Opening. When \<open>DiskIO::new\<close> succeeds on paths that name distinct files, every file has exactly
  its length, the total size is the sum of the lengths, and no other file was touched.
\<close>

theorem disk_new_ready:
  assumes "disk_io_new base details plen d = (d', Ok dio)"
    and "distinct (dio_files dio)" "sum_list (entry_sizes details) < 2 ^ 64"
  shows "disk_wf dio d' \<and> dio_file_details dio = details \<and> dio_piece_length dio = plen \<and>
    (\<forall>ino. ino \<notin> set (dio_files dio) \<longrightarrow> d_content d' ino = d_content d ino)"
  using assms by (rule disk_io_new_wf)

definition sample_disk :: disk where
  "sample_disk = \<lparr> d_mkdir = (\<lambda>_. True),
     d_resolve = (\<lambda>path. if path = [97, 47, 98] then Some 1 else if path = [97, 47, 99] then Some 2 else None),
     d_content = (\<lambda>_. []) \<rparr>"

text \<open>Two files \<open>b\<close> and \<open>c\<close> of two and three bytes under the directory \<open>a\<close>, in pieces of two bytes.\<close>

definition sample_details :: file_details where
  "sample_details = MultiFile [\<lparr> fe_length = 2, fe_path = [[98]] \<rparr>, \<lparr> fe_length = 3, fe_path = [[99]] \<rparr>]"

definition sample_io :: disk_io where
  "sample_io = \<lparr> dio_base_path = [97], dio_file_details = sample_details, dio_piece_length = 2,
     dio_files = [1, 2], dio_total_size = 5 \<rparr>"

definition sample_opened :: disk where
  "sample_opened = set_content 2 [0, 0, 0] (set_content 1 [0, 0] sample_disk)"

lemma sample_opened_new: "disk_io_new [97] sample_details 2 sample_disk = (sample_opened, Ok sample_io)"
  by (simp add: disk_io_new_def sample_details_def sample_disk_def sample_opened_def sample_io_def
      open_file_def path_push_def is_utf8.simps(2) utf8_step.simps(2) resize_def replicate_numeral)

lemma sample_wf: "disk_wf sample_io sample_opened"
  by (simp add: disk_wf_def sample_io_def sample_details_def sample_opened_def entry_sizes_def)

theorem disk_new_ready_witness:
  "disk_io_new [97] sample_details 2 sample_disk = (sample_opened, Ok sample_io) \<and>
   disk_wf sample_io sample_opened"
  using disk_new_ready [OF sample_opened_new] sample_opened_new
  by (simp add: sample_io_def sample_details_def entry_sizes_def)

text \<open>
  C25: Reading. For one file and for many, reading a piece gives the slice of the torrent's bytes
  that starts at the piece index times the piece length, the last piece cut off at the total size.
\<close>

theorem disk_read_is_slice:
  assumes "disk_wf dio d" "in_range dio i"
  shows "read_piece dio i d = Ok (take (piece_extent dio i) (drop (piece_start dio i) (torrent_image dio d)))"
  using assms by (rule read_piece_image)

theorem disk_read_is_slice_witness:
  "read_piece sample_io 1 (set_content 2 [7, 8, 9] sample_opened) = Ok [7, 8]"
proof -
  have "disk_wf sample_io (set_content 2 [7, 8, 9] sample_opened)"
    by (simp add: disk_wf_def sample_io_def sample_details_def sample_opened_def entry_sizes_def)
  from disk_read_is_slice [OF this, of 1] show ?thesis
    by (simp add: in_range_def piece_start_def piece_extent_def torrent_image_def sample_io_def
        sample_opened_def)
qed

text \<open>
  C22: Single-file storage. Pieces of the right length within 32-bit range, written in any order and any
  number of times, on a disk with room: every write succeeds, and each piece then reads as it was last written.
\<close>

theorem single_file_storage:
  assumes "disk_wf dio d" "dio_file_details dio = SingleFile n"
    and "\<forall>(i, data) \<in> set xs. in_range dio i \<and> length data = piece_extent dio i" "in_range dio j"
  shows "(\<forall>k < length xs. snd (write_piece dio (fst (xs ! k)) (snd (xs ! k))
      (foldl (\<lambda>d (i, data). fst (write_piece dio i data d)) d (take k xs))) = Ok ()) \<and>
    read_piece dio j (foldl (\<lambda>d (i, data). fst (write_piece dio i data d)) d xs) =
    (case map_of (rev xs) j of Some data \<Rightarrow> Ok data | None \<Rightarrow> read_piece dio j d)"
proof -
  have ok: "single_ok dio d" using assms(1,2) by (simp add: single_ok_def)
  have valid: "\<forall>(i, data) \<in> set xs. piece_valid dio i data" using assms(3) by (auto simp: piece_valid_def)
  have j: "piece_valid dio j (replicate (piece_extent dio j) 0)" using assms(4) by (simp add: piece_valid_def)
  show ?thesis
    using single.store_succeeds [OF ok valid _ j] single.store_all [OF ok valid j] by blast
qed

theorem single_file_storage_witness:
  "read_piece \<lparr> dio_base_path = [], dio_file_details = SingleFile 3, dio_piece_length = 2, dio_files = [1],
       dio_total_size = 3 \<rparr> 0
     (foldl (\<lambda>d (i, data). fst (write_piece \<lparr> dio_base_path = [], dio_file_details = SingleFile 3,
         dio_piece_length = 2, dio_files = [1], dio_total_size = 3 \<rparr> i data d))
       (set_content 1 [0, 0, 0] sample_disk) [(0, [4, 5]), (1, [6]), (0, [7, 8])]) = Ok [7, 8]"
  (is "read_piece ?io _ (foldl _ ?d ?xs) = _")
proof -
  have "disk_wf ?io ?d" by (simp add: disk_wf_def entry_sizes_def)
  from single_file_storage [OF this, of 3 ?xs 0] show ?thesis
    by (simp add: in_range_def piece_start_def piece_extent_def)
qed

text \<open>
  With several files a piece goes to the wrong place. A piece that lies in one file, but starts
  further into the torrent than that file is long, is reported as written; the file's own bytes
  stay as they were, and the data is appended at the piece's offset in the torrent, past the end
  of the file, which no longer has its length.
\<close>

theorem multi_file_write_misplaced:
  assumes "disk_wf dio d" "in_range dio i"
    and "dio_file_details dio = MultiFile (pre @ f # post)"
    and "length data = piece_extent dio i" "data \<noteq> []"
    and "sum_list (map (\<lambda>f. unat (fe_length f)) pre) \<le> piece_start dio i"
      "piece_start dio i + length data \<le> sum_list (map (\<lambda>f. unat (fe_length f)) pre) + unat (fe_length f)"
    and "ino = dio_files dio ! length pre" "unat (fe_length f) \<le> piece_start dio i"
  shows "\<exists>d'. write_piece dio i data d = (d', Ok ()) \<and>
    take (unat (fe_length f)) (d_content d' ino) = d_content d ino \<and>
    drop (piece_start dio i) (d_content d' ino) = data \<and> \<not> disk_wf dio d'"
proof -
  let ?d = "set_content ino (pwrite (piece_start dio i) data (d_content d ino)) d"
  have written: "write_piece dio i data d = (?d, Ok ())" by (rule write_piece_multi [OF assms(1-8)])
  have k: "length pre < length (dio_files dio)" using multi_nth(1) [OF assms(1,3)] by simp
  have len: "length (d_content d ino) = unat (fe_length f)"
    using multi_nth(2) [OF assms(1,3), of "length pre"] assms(8) by simp
  have content: "d_content ?d ino =
      d_content d ino @ replicate (piece_start dio i - unat (fe_length f)) 0 @ data"
    using assms(5,9) len by (simp add: pwrite_def)
  have "\<not> disk_wf dio ?d"
  proof
    assume "disk_wf dio ?d"
    from multi_nth(2) [OF this assms(3), of "length pre"] assms(8)
    have "length (d_content ?d ino) = unat (fe_length f)" by simp
    then show False using content len assms(5) by simp
  qed
  moreover have "take (unat (fe_length f)) (d_content ?d ino) = d_content d ino"
    using len by (simp only: content) simp
  moreover have "drop (piece_start dio i) (d_content ?d ino) = data"
    using len assms(9) by (simp only: content) simp
  ultimately show ?thesis using written by blast
qed

theorem multi_file_write_misplaced_witness:
  "\<exists>d'. write_piece sample_io 2 [9] sample_opened = (d', Ok ()) \<and> d_content d' 2 = [0, 0, 0, 0, 9] \<and>
     \<not> disk_wf sample_io d'"
proof -
  let ?f = "\<lparr> fe_length = 2, fe_path = [[98]] \<rparr> :: file_entry"
  let ?g = "\<lparr> fe_length = 3, fe_path = [[99]] \<rparr> :: file_entry"
  have start: "piece_start sample_io 2 = 4" by (simp add: piece_start_def sample_io_def)
  have extent: "length [9 :: u8] = piece_extent sample_io 2"
    by (simp add: piece_extent_def start) (simp add: sample_io_def)
  have range: "in_range sample_io 2" by (simp add: in_range_def start) (simp add: sample_io_def)
  have multi: "dio_file_details sample_io = MultiFile ([?f] @ ?g # [])"
    by (simp add: sample_io_def sample_details_def)
  have ino: "2 = dio_files sample_io ! length [?f]" by (simp add: sample_io_def)
  have content: "d_content sample_opened 2 = [0, 0, 0]" by (simp add: sample_opened_def)
  from multi_file_write_misplaced [OF sample_wf range multi extent _ _ _ ino] obtain d'
    where d': "write_piece sample_io 2 [9] sample_opened = (d', Ok ())" "\<not> disk_wf sample_io d'"
    by (auto simp: start)
  moreover have "write_piece sample_io 2 [9] sample_opened =
      (set_content 2 (pwrite 4 [9] [0, 0, 0]) sample_opened, Ok ())"
    using write_piece_multi [OF sample_wf range multi extent _ _ _ ino] by (simp add: start content)
  ultimately show ?thesis by (auto simp: pwrite_def)
qed

text \<open>
  The piece offset is computed in 32 bits. In a single-file torrent two pieces whose offsets differ
  by 4 GiB are the same piece to the disk: writing the later one overwrites the earlier one, and
  both read alike.
\<close>

theorem piece_offset_wraps:
  assumes "piece_start dio i = piece_start dio j + 2 ^ 32" "piece_start dio j < unat (dio_total_size dio)"
    and "dio_file_details dio = SingleFile n"
  shows "write_piece dio i data d = write_piece dio j data d \<and>
    i * dio_piece_length dio = j * dio_piece_length dio"
proof -
  have eq: "i * dio_piece_length dio = j * dio_piece_length dio"
    using assms(1) by (intro word_unat_eq_iff [THEN iffD2]) (simp add: piece_start_def unat_word_ariths)
  moreover have "\<not> dio_total_size dio \<le> ucast (j * dio_piece_length dio)"
  proof -
    have "unat (j * dio_piece_length dio) \<le> piece_start dio j"
      by (simp add: piece_start_def unat_word_ariths)
    then show ?thesis using assms(2) by (simp add: word_le_nat_alt)
  qed
  ultimately show ?thesis using assms(3) by (simp add: write_piece_def Let_def)
qed

theorem piece_offset_wraps_witness:
  "\<exists>dio. dio_total_size dio = 2 ^ 33 \<and> dio_piece_length dio = 2 ^ 20 \<and>
     write_piece dio 4097 [1] sample_disk = write_piece dio 1 [1] sample_disk"
proof -
  let ?io = "\<lparr> dio_base_path = [], dio_file_details = SingleFile (2 ^ 33), dio_piece_length = 2 ^ 20,
    dio_files = [1], dio_total_size = 2 ^ 33 \<rparr>"
  from piece_offset_wraps [of ?io 4097 1 "2 ^ 33" "[1]" sample_disk]
  have "write_piece ?io 4097 [1] sample_disk = write_piece ?io 1 [1] sample_disk"
    by (simp add: piece_start_def)
  then show ?thesis by (intro exI [of _ ?io]) simp
qed

text \<open>
  A torrent can name files outside the download directory. A path component that starts with a
  slash replaces everything before it, so the file that is opened does not depend on the base path.
\<close>

theorem absolute_component_escapes:
  assumes "\<forall>c \<in> set xs. is_utf8 c" "is_utf8 (47 # c)"
  shows "entry_path base (xs @ (47 # c) # ys) = entry_path base' ((47 # c) # ys)"
  using assms by (induction xs arbitrary: base) (simp_all add: path_push_def)

theorem absolute_component_escapes_witness:
  "entry_path [100] [[97], [47, 98]] = Ok [47, 98]"
  using absolute_component_escapes [of "[[97]]" "[98]" "[100]" "[]" "[]"]
  by (simp add: is_utf8.simps(2) utf8_step.simps(2) path_push_def)

text \<open>
  Reading and writing never panic, whatever the piece index and the data: every slice is inside
  its buffer and every file index inside the list of files.
\<close>

theorem disk_no_panic:
  assumes "length (dio_files dio) = length (entry_sizes (dio_file_details dio))"
  shows "snd (write_piece dio i data d) \<noteq> Panic \<and> read_piece dio i d \<noteq> Panic"
  using assms by (rule disk_total)

theorem disk_no_panic_witness: "read_piece sample_io 7 sample_opened \<noteq> Panic"
  using disk_no_panic [of sample_io 7 "[]" sample_opened]
  by (simp add: sample_io_def sample_details_def entry_sizes_def)

end
