(* ===== verification/Codec.thy ===== *)
theory Codec
  imports Prelude
begin

text \<open>
  The contract between an encoder and a decoder of byte buffers, as a locale: what the peer wire
  protocol, the handshake, the UDP tracker protocol and the URL encoding each promise their
  callers. Every one of them is an interpretation; the consequences (an encoding is unambiguous,
  a stream of fixed-width records splits in one way) are proved here once.
\<close>

section \<open>Encoders and decoders\<close>

locale wire_codec =
  fixes enc :: "'a \<Rightarrow> bytes"
    and dec :: "bytes \<Rightarrow> ('e, 'a) outcome"
    and valid :: "'a \<Rightarrow> bool"
  assumes dec_enc: "valid x \<Longrightarrow> dec (enc x) = Ok x"
begin

lemma enc_inj: "valid x \<Longrightarrow> valid y \<Longrightarrow> enc x = enc y \<Longrightarrow> x = y"
  by (metis dec_enc outcome.inject(1))

lemma inj_on_enc: "inj_on enc {x. valid x}"
  unfolding inj_on_def using enc_inj by blast

lemma enc_not_rejected: "valid x \<Longrightarrow> dec (enc x) \<noteq> Err e \<and> dec (enc x) \<noteq> Panic"
  by (simp add: dec_enc)

end

text \<open>Encodings of a fixed width concatenate without separators.\<close>

locale fixed_codec = wire_codec enc dec valid
  for enc :: "'a \<Rightarrow> bytes" and dec :: "bytes \<Rightarrow> ('e, 'a) outcome" and valid :: "'a \<Rightarrow> bool" +
  fixes width :: nat
  assumes enc_width: "valid x \<Longrightarrow> length (enc x) = width"
begin

lemma take_enc: "valid x \<Longrightarrow> take width (enc x @ rest) = enc x"
  by (simp add: enc_width)

lemma drop_enc: "valid x \<Longrightarrow> drop width (enc x @ rest) = rest"
  by (simp add: enc_width)

lemma dec_take_enc: "valid x \<Longrightarrow> dec (take width (enc x @ rest)) = Ok x"
  by (simp only: take_enc dec_enc)

lemma enc_stream_inj:
  assumes "valid x" "valid y" "enc x @ xs = enc y @ ys"
  shows "x = y \<and> xs = ys"
proof -
  from assms have "enc x = enc y" and "xs = ys"
    by (simp_all add: enc_width)
  with assms(1,2) show ?thesis by (blast dest: enc_inj)
qed

end

section \<open>Integers\<close>

text \<open>\<open>u16/u32/u64::from_be_bytes\<close> take an array, so they have no error of their own.\<close>

definition read_be16 :: "bytes \<Rightarrow> (unit, u16) outcome" where
  "read_be16 bs = obind (subslice bs 0 2) (\<lambda>s. Ok (of_be s))"

definition read_be32 :: "bytes \<Rightarrow> (unit, u32) outcome" where
  "read_be32 bs = obind (subslice bs 0 4) (\<lambda>s. Ok (of_be s))"

definition read_be64 :: "bytes \<Rightarrow> (unit, u64) outcome" where
  "read_be64 bs = obind (subslice bs 0 8) (\<lambda>s. Ok (of_be s))"

interpretation c16: fixed_codec be16 read_be16 "\<lambda>_. True" 2
  by unfold_locales (simp_all add: read_be16_def)

interpretation c32: fixed_codec be32 read_be32 "\<lambda>_. True" 4
  by unfold_locales (simp_all add: read_be32_def)

interpretation c64: fixed_codec be64 read_be64 "\<lambda>_. True" 8
  by unfold_locales (simp_all add: read_be64_def)

section \<open>Runs of fixed-width records\<close>

text \<open>\<open>chunks_exact(n)\<close>: the full chunks in order, a shorter remainder left out.\<close>

function chunks_exact :: "nat \<Rightarrow> 'a list \<Rightarrow> 'a list list" where
  "chunks_exact n xs =
     (if n = 0 \<or> length xs < n then [] else take n xs # chunks_exact n (drop n xs))"
  by pat_completeness auto
termination
  by (relation "measure (\<lambda>(n, xs). length xs)") auto

declare chunks_exact.simps [simp del]

lemma chunks_exact_width: "c \<in> set (chunks_exact n xs) \<Longrightarrow> length c = n"
proof (induction n xs rule: chunks_exact.induct)
  case (1 n xs)
  then show ?case
    by (subst (asm) (2) chunks_exact.simps) (auto split: if_splits)
qed

lemma concat_chunks_exact:
  "0 < n \<Longrightarrow> n dvd length xs \<Longrightarrow> concat (chunks_exact n xs) = xs"
proof (induction n xs rule: chunks_exact.induct)
  case (1 n xs)
  show ?case
  proof (cases "length xs < n")
    case True
    with 1 have "xs = []" by (auto dest: nat_dvd_not_less)
    then show ?thesis by (simp add: chunks_exact.simps)
  next
    case False
    with 1 have "n dvd length (drop n xs)" by (simp add: dvd_diff_nat)
    with 1 False show ?thesis by (simp add: chunks_exact.simps [of n xs])
  qed
qed

lemma length_chunks_exact: "0 < n \<Longrightarrow> length (chunks_exact n xs) = length xs div n"
proof (induction n xs rule: chunks_exact.induct)
  case (1 n xs)
  then show ?case
    by (cases "length xs < n") (simp_all add: chunks_exact.simps [of n xs] le_div_geq not_less)
qed

lemma chunks_exact_concat:
  "0 < n \<Longrightarrow> (\<And>c. c \<in> set cs \<Longrightarrow> length c = n) \<Longrightarrow> chunks_exact n (concat cs) = cs"
  by (induction cs) (simp_all add: chunks_exact.simps)

end
