(* ===== verification/Message.thy ===== *)
theory Message
  imports Codec
begin

text \<open>
  The peer wire protocol, \<open>src/core/peer/message.rs\<close>: the messages, their serialization and the
  parser. Lemmas: the round trip on every message that fits its length prefix, the shape of a
  frame, the parser's totality and its answers to malformed input.
\<close>

section \<open>Messages\<close>

datatype message =
    KeepAlive
  | Choke
  | UnChoke
  | Interested
  | NotInterested
  | Have u32
  | Bitfield bytes
  | Request u32 u32 u32
  | Piece u32 u32 bytes
  | Cancel u32 u32 u32
  | Port u16

datatype message_error =
    InvalidType u8
  | MessageTooShort

text \<open>The message is appended to what the buffer already holds.\<close>

fun serialize_into :: "message \<Rightarrow> bytes \<Rightarrow> bytes" where
  "serialize_into KeepAlive buf = buf @ be32 0"
| "serialize_into Choke buf = buf @ be32 1 @ [0]"
| "serialize_into UnChoke buf = buf @ be32 1 @ [1]"
| "serialize_into Interested buf = buf @ be32 1 @ [2]"
| "serialize_into NotInterested buf = buf @ be32 1 @ [3]"
| "serialize_into (Have piece) buf = buf @ be32 5 @ [4] @ be32 piece"
| "serialize_into (Bitfield bs) buf = buf @ be32 (1 + len_u32 bs) @ [5] @ bs"
| "serialize_into (Request index bgn lgth) buf =
     buf @ be32 13 @ [6] @ be32 index @ be32 bgn @ be32 lgth"
| "serialize_into (Piece index bgn block) buf =
     buf @ be32 (9 + len_u32 block) @ [7] @ be32 index @ be32 bgn @ block"
| "serialize_into (Cancel index bgn lgth) buf =
     buf @ be32 13 @ [8] @ be32 index @ be32 bgn @ be32 lgth"
| "serialize_into (Port port) buf = buf @ be32 3 @ [9] @ be16 port"

definition serialize :: "message \<Rightarrow> bytes" where
  "serialize m = serialize_into m []"

text \<open>
  The parser returns the message and what it leaves in the buffer: \<open>split_off\<close> moves the payload
  of a bitfield or a piece out of it. On an error the buffer is unchanged. \<open>len\<close> is a \<open>u32\<close>, so
  \<open>len - 1\<close> and \<open>len - 9\<close> wrap below zero.
\<close>

definition deserialize :: "bytes \<Rightarrow> (message_error, message \<times> bytes) outcome" where
  "deserialize bytes =
    (if length bytes < 4 then Err MessageTooShort
     else obind (be32_at bytes 0) (\<lambda>len.
       if len = 0 then Ok (KeepAlive, bytes)
       else if length bytes < 5 then Err MessageTooShort
       else obind (idx bytes 4) (\<lambda>msg_id.
         if msg_id = 0 then Ok (Choke, bytes)
         else if msg_id = 1 then Ok (UnChoke, bytes)
         else if msg_id = 2 then Ok (Interested, bytes)
         else if msg_id = 3 then Ok (NotInterested, bytes)
         else if msg_id = 4 then
           (if length bytes \<noteq> 9 then Err MessageTooShort
            else obind (be32_at bytes 5) (\<lambda>piece_index. Ok (Have piece_index, bytes)))
         else if msg_id = 5 then
           (let len' = len - 1 in
            if length bytes < 5 + unat len' then Err MessageTooShort
            else Ok (Bitfield (drop 5 bytes), take 5 bytes))
         else if msg_id = 6 then
           (if length bytes \<noteq> 17 then Err MessageTooShort
            else obind (be32_at bytes 5) (\<lambda>index.
                 obind (be32_at bytes 9) (\<lambda>bgn.
                 obind (be32_at bytes 13) (\<lambda>lgth.
                 Ok (Request index bgn lgth, bytes)))))
         else if msg_id = 7 then
           (let len' = len - 9 in
            if length bytes < 13 + unat len' then Err MessageTooShort
            else obind (be32_at bytes 5) (\<lambda>index.
                 obind (be32_at bytes 9) (\<lambda>bgn.
                 Ok (Piece index bgn (drop 13 bytes), take 13 bytes))))
         else if msg_id = 8 then
           (if length bytes \<noteq> 17 then Err MessageTooShort
            else obind (be32_at bytes 5) (\<lambda>index.
                 obind (be32_at bytes 9) (\<lambda>bgn.
                 obind (be32_at bytes 13) (\<lambda>lgth.
                 Ok (Cancel index bgn lgth, bytes)))))
         else if msg_id = 9 then
           (if length bytes \<noteq> 7 then Err MessageTooShort
            else obind (subslice bytes 5 7) (\<lambda>port. Ok (Port (of_be port), bytes)))
         else Err (InvalidType msg_id))))"

text \<open>The message alone, without the buffer.\<close>

definition parsed :: "bytes \<Rightarrow> (message_error, message) outcome" where
  "parsed bs = obind (deserialize bs) (\<lambda>(m, _). Ok m)"

section \<open>Round trip\<close>

text \<open>Messages whose length prefix does not wrap.\<close>

fun wire_ok :: "message \<Rightarrow> bool" where
  "wire_ok (Bitfield bs) \<longleftrightarrow> length bs < 2 ^ 32 - 1"
| "wire_ok (Piece _ _ block) \<longleftrightarrow> length block < 2 ^ 32 - 9"
| "wire_ok _ \<longleftrightarrow> True"

lemma serialize_into_append: "serialize_into m buf = buf @ serialize m"
  by (cases m) (simp_all add: serialize_def)

lemma unat_len_prefix:
  "length xs < 2 ^ 32 - 9 \<Longrightarrow> unat (9 + len_u32 xs) = 9 + length xs"
  "length xs < 2 ^ 32 - 1 \<Longrightarrow> unat (1 + len_u32 xs) = 1 + length xs"
  by (simp_all add: unat_len_u32 unat_word_ariths)

lemma len_prefix_nonzero:
  "length xs < 2 ^ 32 - 9 \<Longrightarrow> 9 + len_u32 xs \<noteq> 0"
  "length xs < 2 ^ 32 - 1 \<Longrightarrow> 1 + len_u32 xs \<noteq> 0"
  using unat_len_prefix [of xs] by auto

lemma parsed_serialize: "wire_ok m \<Longrightarrow> parsed (serialize m) = Ok m"
  by (cases m)
    (simp_all add: parsed_def serialize_def deserialize_def Let_def nth_append
      len_prefix_nonzero unat_len_u32)

interpretation msg: wire_codec serialize parsed wire_ok
  by unfold_locales (rule parsed_serialize)

section \<open>Frames\<close>

lemma length_serialize_ge: "4 \<le> length (serialize m)"
  by (cases m) (simp_all add: serialize_def)

lemma serialize_prefix:
  "wire_ok m \<Longrightarrow> unat (of_be (take 4 (serialize m)) :: u32) = length (serialize m) - 4"
  by (cases m) (simp_all add: serialize_def unat_len_u32 unat_len_prefix)

lemma frame_split: "5 \<le> length bs \<Longrightarrow> take 4 bs @ bs ! 4 # drop 5 bs = bs"
  using id_take_nth_drop [of 4 bs] by simp

lemma take_drop_run: "take n (drop k xs) @ drop (k + n) xs = drop k xs"
  by (metis append_take_drop_id drop_drop add.commute)

lemma split_9: "length bs = 9 \<Longrightarrow> take 4 (drop 5 bs) = drop 5 bs"
  by simp

lemma split_17:
  "length bs = 17 \<Longrightarrow>
     take 4 (drop 5 bs) @ take 4 (drop 9 bs) @ take 4 (drop 13 bs) = drop 5 bs"
  using take_drop_run [of 4 5 bs] take_drop_run [of 4 9 bs] by simp

lemma split_13: "take 4 (drop 5 bs) @ take 4 (drop 9 bs) @ drop 13 bs = drop 5 bs"
  using take_drop_run [of 4 5 bs] take_drop_run [of 4 9 bs] by simp

lemma be32_take: "k + 4 \<le> length bs \<Longrightarrow> be32 (of_be (take 4 (drop k bs))) = take 4 (drop k bs)"
  by (rule be_of_be) simp

lemma be32_prefix: "4 \<le> length bs \<Longrightarrow> be32 (of_be (take 4 bs)) = take 4 bs"
  by (rule be_of_be) simp

text \<open>A prefix with the value \<open>v\<close> is the serialization of \<open>v\<close>.\<close>

lemma prefix_eq:
  "4 \<le> length bs \<Longrightarrow> unat (of_be (take 4 bs) :: u32) = unat v \<Longrightarrow> take 4 bs = be32 v"
  using be32_prefix by (metis word_unat_eq_iff)

lemma deserialize_no_panic: "deserialize bs \<noteq> Panic"
  by (simp add: deserialize_def Let_def obind_Panic_iff not_less)

text \<open>What a successful parse says about the buffer, constructor by constructor.\<close>

lemma deserialize_Ok_iff:
  "deserialize bs = Ok (m, rest) \<longleftrightarrow>
     4 \<le> length bs \<and>
     (if (of_be (take 4 bs) :: u32) = 0 then m = KeepAlive \<and> rest = bs
      else 5 \<le> length bs \<and>
       (case m of
          KeepAlive \<Rightarrow> False
        | Choke \<Rightarrow> bs ! 4 = 0 \<and> rest = bs
        | UnChoke \<Rightarrow> bs ! 4 = 1 \<and> rest = bs
        | Interested \<Rightarrow> bs ! 4 = 2 \<and> rest = bs
        | NotInterested \<Rightarrow> bs ! 4 = 3 \<and> rest = bs
        | Have i \<Rightarrow> bs ! 4 = 4 \<and> rest = bs \<and> length bs = 9 \<and> i = of_be (drop 5 bs)
        | Bitfield xs \<Rightarrow> bs ! 4 = 5 \<and> rest = take 5 bs \<and> xs = drop 5 bs \<and>
            5 + unat ((of_be (take 4 bs) :: u32) - 1) \<le> length bs
        | Request i b l \<Rightarrow> bs ! 4 = 6 \<and> rest = bs \<and> length bs = 17 \<and>
            i = of_be (take 4 (drop 5 bs)) \<and> b = of_be (take 4 (drop 9 bs)) \<and> l = of_be (drop 13 bs)
        | Piece i b xs \<Rightarrow> bs ! 4 = 7 \<and> rest = take 13 bs \<and> xs = drop 13 bs \<and>
            i = of_be (take 4 (drop 5 bs)) \<and> b = of_be (take 4 (drop 9 bs)) \<and>
            13 + unat ((of_be (take 4 bs) :: u32) - 9) \<le> length bs
        | Cancel i b l \<Rightarrow> bs ! 4 = 8 \<and> rest = bs \<and> length bs = 17 \<and>
            i = of_be (take 4 (drop 5 bs)) \<and> b = of_be (take 4 (drop 9 bs)) \<and> l = of_be (drop 13 bs)
        | Port p \<Rightarrow> bs ! 4 = 9 \<and> rest = bs \<and> length bs = 7 \<and> p = of_be (drop 5 bs)))"
  by (cases m) (auto simp: deserialize_def Let_def not_less)

section \<open>Properties\<close>

text \<open>
  C15: Round trip of the wire format. Every message whose payload fits its 32-bit length prefix
  is parsed back from its serialization, and the prefix counts the bytes that follow it.
\<close>

theorem message_roundtrip:
  assumes "wire_ok m"
  shows "parsed (serialize m) = Ok m \<and>
    unat (of_be (take 4 (serialize m)) :: u32) = length (serialize m) - 4 \<and>
    4 \<le> length (serialize m)"
  using assms by (simp add: msg.dec_enc serialize_prefix length_serialize_ge)

theorem message_roundtrip_witness:
  "parsed (serialize (Piece 7 16384 [1, 2, 3])) = Ok (Piece 7 16384 [1, 2, 3])"
  using message_roundtrip [of "Piece 7 16384 [1, 2, 3]"] by simp

text \<open>
  The parser is total: whatever the bytes, it indexes and slices inside the buffer, so
  malformed input from a peer is an error value and never a panic.
\<close>

theorem deserialize_total: "\<exists>r. deserialize bs = Ok r \<or> (\<exists>e. deserialize bs = Err e)"
  using deserialize_no_panic [of bs] by (cases "deserialize bs") auto

text \<open>
  C16: The parser reads nothing into a frame that is not there. On a buffer that is exactly one
  frame (the prefix counts the rest, and the four flag messages have no payload), a successful
  parse gives the message whose serialization is that buffer.
\<close>

theorem deserialize_complete_frame:
  assumes ok: "deserialize bs = Ok (m, rest)"
    and frame: "length bs = 4 + unat (of_be (take 4 bs) :: u32)"
    and flags: "length bs = 5 \<or> length bs = 4 \<or> 4 \<le> bs ! 4"
  shows "serialize m = bs"
proof (cases "length bs = 4")
  case True
  then have "take 4 bs = be32 0" using frame by (intro prefix_eq) auto
  with ok frame True show ?thesis by (simp add: deserialize_Ok_iff serialize_def unat_eq_0)
next
  case False
  let ?n = "of_be (take 4 bs) :: u32"
  have nz: "?n \<noteq> 0" using frame False by auto
  then have 5: "5 \<le> length bs" using frame by (simp add: unat_gt_0 Suc_le_eq)
  have whole: "\<And>v k tl. unat ?n = unat v \<Longrightarrow> k = bs ! 4 \<Longrightarrow> tl = drop 5 bs \<Longrightarrow> be32 v @ k # tl = bs"
    using frame_split [OF 5] prefix_eq [of bs] 5 by simp
  have n: "unat ?n = length bs - 4" using frame by simp
  note facts = ok nz n 5
  note rules = deserialize_Ok_iff serialize_def be_of_be unat_len_u32
  have sub: "unat (?n - 1) = unat ?n - 1" using nz by (simp add: unat_minus_one)
  have pos: "length bs = 5" if "bs ! 4 < 4" using that flags False by auto
  have flag: "be32 1 @ [k] = bs" if "k = bs ! 4" "k < 4" for k
    using whole [of 1 k "[]"] that pos n by auto
  have pre: "word_of_nat c + len_u32 xs = ?n" if "c + length xs = length bs - 4"
    for c and xs :: bytes
    using that frame by (simp add: len_u32_def flip: of_nat_add)
  show ?thesis
  proof (cases m)
    case (Bitfield xs)
    with facts pre [of 1 xs] show ?thesis by (auto simp: rules intro!: whole)
  next
    case (Request i b l)
    with facts show ?thesis using split_17 [of bs] by (auto simp: rules be32_take intro!: whole)
  next
    case (Piece i b xs)
    with facts frame_split [OF 5] split_13 [of bs] pre [of 9 xs] show ?thesis
      by (auto simp: rules be32_take intro!: whole)
  next
    case (Cancel i b l)
    with facts show ?thesis using split_17 [of bs] by (auto simp: rules be32_take intro!: whole)
  qed (use facts flag [of 0] flag [of 1] flag [of 2] flag [of 3] in \<open>auto simp: rules intro!: whole\<close>)
qed

theorem deserialize_complete_frame_witness:
  "serialize (Have 258) = [0, 0, 0, 5, 4, 0, 0, 1, 2]"
proof -
  let ?bs = "[0, 0, 0, 5, 4, 0, 0, 1, 2] :: bytes"
  have "deserialize ?bs = Ok (Have 258, ?bs)"
    by (simp add: deserialize_Ok_iff of_be_def)
  moreover have "length ?bs = 4 + unat (of_be (take 4 ?bs) :: u32)"
    by (simp add: of_be_def)
  ultimately show ?thesis
    by (rule deserialize_complete_frame) simp
qed

text \<open>
  The unknown-type error is raised exactly on a non-keep-alive frame with a type byte above 9,
  and it carries that byte.
\<close>

theorem deserialize_invalid_type:
  "deserialize bs = Err (InvalidType i) \<longleftrightarrow>
     5 \<le> length bs \<and> (of_be (take 4 bs) :: u32) \<noteq> 0 \<and> bs ! 4 = i \<and> 9 < i"
proof -
  have "9 < i \<longleftrightarrow> i \<notin> {0, 1, 2, 3, 4, 5, 6, 7, 8, 9}" for i :: u8
  proof
    assume "i \<notin> {0, 1, 2, 3, 4, 5, 6, 7, 8, 9}"
    then have "unat i \<notin> {0, 1, 2, 3, 4, 5, 6, 7, 8, 9}"
      by (auto simp: word_unat_eq_iff)
    then show "9 < i" by (auto simp: word_less_nat_alt)
  qed auto
  then show ?thesis
    by (auto simp: deserialize_def Let_def not_less)
qed

end
