(* ===== verification/Handshake.thy ===== *)
theory Handshake
  imports Codec
begin

text \<open>
  The BitTorrent handshake, \<open>src/core/peer/handshake.rs\<close>, and the client's peer id,
  \<open>src/core/peer/peer_id.rs\<close>. The TCP stream is the bytes the peer has sent and not yet been
  read, and whether the stream still takes writes. Random bytes come from the \<open>rand\<close> crate and
  are a parameter.
\<close>

section \<open>The peer id\<close>

text \<open>\<open>rng i\<close> is the \<open>i\<close>-th draw of \<open>random_range(33..=126)\<close>.\<close>

definition peer_id :: "(nat \<Rightarrow> u8) \<Rightarrow> bytes" where
  "peer_id rng =
    (let id = replicate 20 0;
         id = id[0 := 45, 1 := 77, 2 := 83];
         id = id[3 := 48, 4 := 49, 5 := 48, 6 := 48];
         id = id[7 := 45]
     in take 8 id @ map (\<lambda>i. rng i) [0..<length id - 8])"

section \<open>The handshake\<close>

datatype handshake_error =
    HandshakeIo
  | InvalidHandShake
  | InvalidInfoHash
  | HandshakeOther

definition handshake_message :: "bytes \<Rightarrow> bytes \<Rightarrow> bytes" where
  "handshake_message pid info_hash =
    (let buf = replicate 68 0;
         buf = buf[0 := 19];
         buf = splice buf 1 (ascii ''BitTorrent protocol'');
         buf = splice buf 20 (replicate 8 0);
         buf = splice buf 28 info_hash;
         buf = splice buf 48 pid
     in buf)"

text \<open>\<open>write_all\<close> then \<open>read_exact\<close> of 68 bytes, then the checks, in the code's order.\<close>

definition check_handshake :: "bytes \<Rightarrow> bytes \<Rightarrow> (handshake_error, bytes) outcome" where
  "check_handshake info_hash buf =
    obind (idx buf 0) (\<lambda>pstrlen.
    obind (subslice buf 1 20) (\<lambda>pstr.
      if pstrlen \<noteq> 19 \<or> pstr \<noteq> ascii ''BitTorrent protocol'' then Err InvalidHandShake
      else obind (subslice buf 28 48) (\<lambda>hash.
        if hash \<noteq> info_hash then Err InvalidInfoHash
        else obind (subslice buf 48 68) (\<lambda>pid.
          if length pid = 20 then Ok pid else Err HandshakeOther))))"

text \<open>The peer's id, the bytes written, and what is left to read.\<close>

definition handshake ::
  "bool \<Rightarrow> bytes \<Rightarrow> bytes \<Rightarrow> bytes \<Rightarrow> (handshake_error, bytes \<times> bytes \<times> bytes) outcome" where
  "handshake writable inbound pid info_hash =
    (let buf = handshake_message pid info_hash in
     if \<not> writable then Err HandshakeIo
     else if length inbound < 68 then Err HandshakeIo
     else obind (check_handshake info_hash (take 68 inbound))
            (\<lambda>remote. Ok (remote, buf, drop 68 inbound)))"

lemma handshake_message_eq:
  "length info_hash = 20 \<Longrightarrow> length pid = 20 \<Longrightarrow>
   handshake_message pid info_hash =
     [19] @ ascii ''BitTorrent protocol'' @ replicate 8 0 @ info_hash @ pid"
  by (simp add: handshake_message_def Let_def splice_def numeral_eq_Suc)

lemma length_handshake_message [simp]:
  "length info_hash = 20 \<Longrightarrow> length pid = 20 \<Longrightarrow> length (handshake_message pid info_hash) = 68"
  by (simp add: handshake_message_eq)

text \<open>The checks on 68 received bytes.\<close>

lemma check_handshake_iff:
  "length buf = 68 \<Longrightarrow>
   check_handshake info_hash buf = Ok pid \<longleftrightarrow>
     buf ! 0 = 19 \<and> take 19 (drop 1 buf) = ascii ''BitTorrent protocol'' \<and>
     take 20 (drop 28 buf) = info_hash \<and> pid = drop 48 buf"
  by (auto simp: check_handshake_def)

lemma check_handshake_no_panic: "length buf = 68 \<Longrightarrow> check_handshake info_hash buf \<noteq> Panic"
  by (simp add: check_handshake_def obind_Panic_iff)

lemma check_handshake_message:
  "length info_hash = 20 \<Longrightarrow> length pid = 20 \<Longrightarrow>
   check_handshake info_hash (handshake_message pid info_hash) = Ok pid"
  by (simp add: check_handshake_iff) (simp add: handshake_message_eq)

interpretation hs: fixed_codec "\<lambda>pid. handshake_message pid info_hash"
    "check_handshake info_hash" "\<lambda>pid. length pid = 20 \<and> length info_hash = 20" 68
  for info_hash
  by unfold_locales (simp_all add: check_handshake_message)

text \<open>Against the message another instance sends for the torrent \<open>other\<close>.\<close>

lemma handshake_met:
  assumes "length pid = 20" "length remote = 20" "length info_hash = 20" "length other = 20"
  shows "handshake True (handshake_message remote other @ rest) pid info_hash =
    (if other = info_hash then Ok (remote, handshake_message pid info_hash, rest)
     else Err InvalidInfoHash)"
proof (cases "other = info_hash")
  case True
  have "take 68 (handshake_message remote info_hash @ rest) = handshake_message remote info_hash"
    and "drop 68 (handshake_message remote info_hash @ rest) = rest"
    using hs.take_enc [of remote info_hash rest] hs.drop_enc [of remote info_hash rest] assms
    by auto
  with True assms show ?thesis
    by (simp add: handshake_def Let_def hs.dec_enc)
next
  case False
  with assms show ?thesis
    by (simp add: handshake_def Let_def check_handshake_def handshake_message_eq)
qed

section \<open>Properties\<close>

text \<open>
  C28: The handshake succeeds exactly when the stream takes the write and delivers 68 bytes that
  start with the protocol string and carry our info hash at offset 28; it then returns the last
  20 of them as the peer's id, has sent our own handshake, and leaves the rest of the stream
  unread. The eight reserved bytes are never looked at.
\<close>

theorem handshake_accepts_iff:
  "handshake writable inbound pid info_hash = Ok (remote, sent, rest) \<longleftrightarrow>
     writable \<and> 68 \<le> length inbound \<and> inbound ! 0 = 19 \<and>
     take 19 (drop 1 inbound) = ascii ''BitTorrent protocol'' \<and>
     take 20 (drop 28 inbound) = info_hash \<and> remote = take 20 (drop 48 inbound) \<and>
     sent = handshake_message pid info_hash \<and> rest = drop 68 inbound"
proof (cases "writable \<and> 68 \<le> length inbound")
  case True
  then have 68: "length (take 68 inbound) = 68" by simp
  show ?thesis
    using True by (auto simp: handshake_def Let_def check_handshake_iff [OF 68] drop_take)
next
  case False
  then show ?thesis by (auto simp: handshake_def Let_def)
qed

text \<open>
  C27: Two instances of the client understand each other: against the handshake another instance
  sends for the same torrent the call returns that instance's peer id and consumes exactly its
  68 bytes, and for a torrent with another info hash it is refused.
\<close>

theorem handshake_interop:
  assumes "length pid = 20" "length remote = 20" "length info_hash = 20" "length other = 20"
  shows "handshake True (handshake_message remote other @ rest) pid info_hash =
    (if other = info_hash then Ok (remote, handshake_message pid info_hash, rest)
     else Err InvalidInfoHash)"
  by (rule handshake_met [OF assms])

theorem handshake_interop_witness:
  "handshake True (handshake_message (replicate 20 7) (replicate 20 1) @ [9]) (replicate 20 8)
     (replicate 20 1) = Ok (replicate 20 7, handshake_message (replicate 20 8) (replicate 20 1), [9])"
  using handshake_interop [of "replicate 20 8" "replicate 20 7" "replicate 20 1" "replicate 20 1" "[9]"]
  by simp

text \<open>
  The client's id is a well-formed Azureus-style id: 20 bytes, the first eight are
  \<open>-MS0100-\<close>, and the other twelve are printable ASCII whenever the generator keeps its range.
\<close>

theorem peer_id_shape:
  assumes "\<And>i. 33 \<le> rng i \<and> rng i \<le> 126"
  shows "length (peer_id rng) = 20 \<and> take 8 (peer_id rng) = ascii ''-MS0100-'' \<and>
    (\<forall>b \<in> set (drop 8 (peer_id rng)). 33 \<le> b \<and> b \<le> 126)"
  using assms by (auto simp: peer_id_def Let_def ascii_def numeral_eq_Suc)

theorem peer_id_shape_witness: "take 8 (peer_id (\<lambda>_. 65)) = ascii ''-MS0100-''"
  using peer_id_shape [of "\<lambda>_. 65"] by simp

end
