(* ===== verification/Peer_State.thy ===== *)
theory Peer_State
  imports Prelude Complex_Main
begin

text \<open>
  The state of one peer connection, \<open>src/core/peer/peer_state.rs\<close>, and the bit numbering of
  bitfields, which the download manager reads and writes too. A transfer rate is an exact rational
  where the code rounds to \<open>f64\<close>.
\<close>

section \<open>State\<close>

record peer_state =
  am_choking :: bool
  am_interested :: bool
  peer_choking :: bool
  peer_interested :: bool
  bitfield :: "bytes option"
  requested_blocks :: "(u32 \<times> u32 \<times> u32) list"
  downloaded :: u64
  uploaded :: u64
  download_rate :: rat
  upload_rate :: rat
  last_download_calc :: instant
  last_upload_calc :: instant
  prev_downloaded :: u64
  prev_uploaded :: u64

definition peer_state_new :: "instant \<Rightarrow> bytes option \<Rightarrow> peer_state" where
  "peer_state_new now bf =
    \<lparr> am_choking = True, am_interested = False, peer_choking = True, peer_interested = False,
      bitfield = bf, requested_blocks = [], downloaded = 0, uploaded = 0,
      download_rate = 0, upload_rate = 0, last_download_calc = now, last_upload_calc = now,
      prev_downloaded = 0, prev_uploaded = 0 \<rparr>"

text \<open>A second in nanoseconds. \<open>duration_since\<close> is zero for a later instant, as \<open>nat\<close> subtraction is.\<close>

definition second :: nat where
  "second = 1000000000"

definition rate :: "u64 \<Rightarrow> nat \<Rightarrow> rat" where
  "rate diff elapsed = of_nat (unat diff) / (of_nat elapsed / of_nat second)"

definition update_download_rate :: "instant \<Rightarrow> peer_state \<Rightarrow> peer_state" where
  "update_download_rate now s =
    (let elapsed = now - last_download_calc s in
     if second \<le> elapsed then
       let bytes_diff = downloaded s - prev_downloaded s in
       s\<lparr> download_rate := rate bytes_diff elapsed, prev_downloaded := downloaded s,
          last_download_calc := now \<rparr>
     else s)"

definition update_upload_rate :: "instant \<Rightarrow> peer_state \<Rightarrow> peer_state" where
  "update_upload_rate now s =
    (let elapsed = now - last_upload_calc s in
     if second \<le> elapsed then
       let bytes_diff = uploaded s - prev_uploaded s in
       s\<lparr> upload_rate := rate bytes_diff elapsed, prev_uploaded := uploaded s,
          last_upload_calc := now \<rparr>
     else s)"

section \<open>Bitfields\<close>

text \<open>The test the code writes as \<open>bitfield[byte_index] & (1 << bit_index) != 0\<close>.\<close>

definition bit_set :: "u8 \<Rightarrow> nat \<Rightarrow> bool" where
  "bit_set b i \<longleftrightarrow> b AND push_bit i 1 \<noteq> 0"

definition has_piece :: "peer_state \<Rightarrow> u32 \<Rightarrow> bool" where
  "has_piece s index =
    (case bitfield s of
       Some bf \<Rightarrow>
         (let byte_index = unat (index div 8);
              bit_index = 7 - unat (index mod 8)
          in byte_index < length bf \<and> bit_set (bf ! byte_index) bit_index)
     | None \<Rightarrow> False)"

text \<open>The abstraction: bit \<open>n\<close> of a bitfield, counting from the high bit of the first byte.\<close>

definition bitfield_has :: "bytes \<Rightarrow> nat \<Rightarrow> bool" where
  "bitfield_has bf n \<longleftrightarrow> n div 8 < length bf \<and> bit (bf ! (n div 8)) (7 - n mod 8)"

lemma bit_set_iff: "i < 8 \<Longrightarrow> bit_set b i \<longleftrightarrow> bit b i"
proof -
  assume "i < 8"
  have "b AND push_bit i 1 = (if bit b i then push_bit i 1 else 0)"
    by (rule bit_word_eqI) (auto simp: bit_simps)
  moreover have "push_bit i (1 :: u8) \<noteq> 0"
    using \<open>i < 8\<close> by (auto simp: bit_eq_iff bit_simps intro!: exI [of _ i])
  ultimately show ?thesis by (simp add: bit_set_def)
qed

lemma unat_div_mod_8:
  "unat ((i :: u32) div 8) = unat i div 8" "unat ((i :: u32) mod 8) = unat i mod 8"
  by (simp_all add: unat_div unat_mod)

lemma has_piece_iff:
  "has_piece s index \<longleftrightarrow> (\<exists>bf. bitfield s = Some bf \<and> bitfield_has bf (unat index))"
  by (auto simp: has_piece_def bitfield_has_def Let_def bit_set_iff unat_div_mod_8
      split: option.splits)

end
