(* ===== verification/Peer_Connection.thy ===== *)
theory Peer_Connection
  imports Message Handshake Peer_State
begin

text \<open>
  One connection to a peer, \<open>src/core/peer/peer_connection.rs\<close>. The TCP stream is two byte
  sequences, what the peer has sent and we have not read (\<open>inbound\<close>; it ends where the peer closes)
  and what we have written (\<open>outbound\<close>), with a flag that writes still succeed. The channel to the
  manager is the list of events sent, with a flag that its receiver is alive.
\<close>

section \<open>Events, commands and the connection\<close>

datatype peer_event =
    PeerChoked
  | PeerUnchoked
  | PeerInterested
  | PeerNotInterested
  | ReceivedHave u32
  | ReceivedBitfield bytes
  | RequestedBlock u32 u32 u32
  | ReceivedPiece u32 u32 bytes
  | PeerDisconnected
  | DownloadRate rat

datatype manager_command =
    CmdKeepAlive
  | CmdChoke
  | CmdUnchoke
  | CmdInterested
  | CmdNotInterested
  | CmdHavePiece u32
  | CmdRequestBlock u32 u32 u32
  | CmdCancelBlock u32 u32 u32
  | CmdDisconnect

datatype connection_error =
    ConnectionIo
  | HandshakeFailed handshake_error
  | MessageFailed message_error
  | SendFailed

record peer_connection =
  peer_addr :: "bytes \<times> u16"
  inbound :: bytes
  outbound :: bytes
  writable :: bool
  pstate :: peer_state
  to_manager :: "peer_event list"
  manager_open :: bool
  buf :: bytes

text \<open>
  \<open>connect ip\<close> is the operating system's answer to \<open>TcpStream::connect\<close>: \<open>None\<close> for a failure, or
  what the peer will send and whether our writes succeed.
\<close>

definition peer_connection_new ::
  "(bytes \<times> u16 \<Rightarrow> (bytes \<times> bool) option) \<Rightarrow> instant \<Rightarrow> peer_ip \<Rightarrow> bytes \<Rightarrow> bytes \<Rightarrow>
     (connection_error, peer_connection) outcome" where
  "peer_connection_new connect now ip pid info_hash =
    obind (subslice ip 0 4) (\<lambda>host.
    obind (subslice ip 4 6) (\<lambda>port.
      let addr = (host, of_be port) in
      (case connect addr of
         None \<Rightarrow> Err ConnectionIo
       | Some (stream, wr) \<Rightarrow>
           obind (map_err HandshakeFailed (handshake wr stream pid info_hash))
             (\<lambda>(remote, sent, rest).
               Ok \<lparr> peer_addr = addr, inbound = rest, outbound = sent, writable = wr,
                    pstate = peer_state_new now None, to_manager = [], manager_open = True,
                    buf = [] \<rparr>))))"

section \<open>Reading\<close>

text \<open>
  \<open>read_message\<close> reads the four-byte prefix into an array of its own, then that many bytes into
  the buffer, and hands the buffer to \<open>Message::deserialize\<close>.
\<close>

definition read_message ::
  "bytes \<Rightarrow> (connection_error, message \<times> bytes \<times> bytes) outcome" where
  "read_message stream =
    (if length stream < 4 then Err ConnectionIo
     else
       let lgth = unat (of_be (take 4 stream) :: u32);
           stream' = drop 4 stream
       in if length stream' < lgth then Err ConnectionIo
          else obind (map_err MessageFailed (deserialize (take lgth stream')))
                 (\<lambda>(m, buf'). Ok (m, buf', drop lgth stream')))"

definition send_event ::
  "peer_event \<Rightarrow> peer_connection \<Rightarrow> (connection_error, peer_connection) outcome" where
  "send_event e c =
    (if manager_open c then Ok (c\<lparr> to_manager := to_manager c @ [e] \<rparr>) else Err SendFailed)"

fun handle_message ::
  "instant \<Rightarrow> message \<Rightarrow> peer_connection \<Rightarrow> (connection_error, peer_connection) outcome" where
  "handle_message now KeepAlive c = Ok c"
| "handle_message now Choke c =
     send_event PeerChoked (c\<lparr> pstate := (pstate c)\<lparr> peer_choking := True \<rparr> \<rparr>)"
| "handle_message now UnChoke c =
     send_event PeerUnchoked (c\<lparr> pstate := (pstate c)\<lparr> peer_choking := False \<rparr> \<rparr>)"
| "handle_message now Interested c =
     send_event PeerInterested (c\<lparr> pstate := (pstate c)\<lparr> peer_interested := True \<rparr> \<rparr>)"
| "handle_message now NotInterested c =
     send_event PeerNotInterested (c\<lparr> pstate := (pstate c)\<lparr> peer_interested := False \<rparr> \<rparr>)"
| "handle_message now (Have index) c = send_event (ReceivedHave index) c"
| "handle_message now (Bitfield bs) c =
     send_event (ReceivedBitfield bs) (c\<lparr> pstate := (pstate c)\<lparr> bitfield := Some bs \<rparr> \<rparr>)"
| "handle_message now (Request index bgn lgth) c = send_event (RequestedBlock index bgn lgth) c"
| "handle_message now (Piece index bgn block) c =
     obind (send_event (ReceivedPiece index bgn block) c) (\<lambda>c.
       let s = (pstate c)\<lparr> downloaded := downloaded (pstate c) + word_of_nat (length block) \<rparr>;
           s = update_download_rate now s
       in send_event (DownloadRate (download_rate s)) (c\<lparr> pstate := s \<rparr>))"
| "handle_message now (Cancel index bgn lgth) c = Ok c"
| "handle_message now (Port port) c = Ok c"

section \<open>Writing\<close>

fun command_message :: "manager_command \<Rightarrow> message option" where
  "command_message CmdKeepAlive = Some KeepAlive"
| "command_message CmdChoke = Some Choke"
| "command_message CmdUnchoke = Some UnChoke"
| "command_message CmdInterested = Some Interested"
| "command_message CmdNotInterested = Some NotInterested"
| "command_message (CmdHavePiece index) = Some (Have index)"
| "command_message (CmdRequestBlock index bgn lgth) = Some (Request index bgn lgth)"
| "command_message (CmdCancelBlock index bgn lgth) = Some (Cancel index bgn lgth)"
| "command_message CmdDisconnect = None"

text \<open>\<open>write_all(&self.buf)\<close>: the whole buffer, which stays as it is.\<close>

definition write_buf :: "peer_connection \<Rightarrow> (connection_error, peer_connection) outcome" where
  "write_buf c =
    (if writable c then Ok (c\<lparr> outbound := outbound c @ buf c \<rparr>) else Err ConnectionIo)"

definition handle_manager_command ::
  "manager_command \<Rightarrow> peer_connection \<Rightarrow> (connection_error, peer_connection) outcome" where
  "handle_manager_command command c =
    (case command_message command of
       None \<Rightarrow> Ok c
     | Some message \<Rightarrow> write_buf (c\<lparr> buf := serialize_into message (buf c) \<rparr>))"

definition send_bitfield ::
  "bytes option \<Rightarrow> peer_connection \<Rightarrow> (connection_error, peer_connection) outcome" where
  "send_bitfield bf c =
    (case bf of
       None \<Rightarrow> Ok c
     | Some bs \<Rightarrow> write_buf (c\<lparr> buf := serialize_into (Bitfield bs) (buf c) \<rparr>))"

section \<open>The connection loop\<close>

text \<open>
  One turn of \<open>select!\<close> is a command (or the closing of the command channel) or a message. When
  the command wins, the pending \<open>read_message\<close> is dropped: the \<open>k\<close> bytes it had taken from the
  stream are lost, and if it had passed the prefix the buffer is left at the announced length, its
  unread tail being whatever the allocation held (\<open>junk\<close>).
\<close>

datatype select_event =
    FromManager "manager_command option" nat bytes
  | FromPeer instant

definition cancel_read :: "nat \<Rightarrow> bytes \<Rightarrow> peer_connection \<Rightarrow> peer_connection" where
  "cancel_read k junk c =
    (if k < 4 then c\<lparr> inbound := drop k (inbound c) \<rparr>
     else
       let lgth = unat (of_be (take 4 (inbound c)) :: u32)
       in c\<lparr> inbound := drop k (inbound c),
             buf := take lgth (take (k - 4) (drop 4 (inbound c)) @ junk) \<rparr>)"

text \<open>The result says whether the loop has returned (\<open>True\<close>) or waits for another event.\<close>

fun run_loop ::
  "select_event list \<Rightarrow> peer_connection \<Rightarrow> (connection_error, peer_connection \<times> bool) outcome" where
  "run_loop [] c = Ok (c, False)"
| "run_loop (FromManager command k junk # es) c =
     (let c = cancel_read k junk c in
      case command of
        None \<Rightarrow> Ok (c, True)
      | Some cmd \<Rightarrow> obind (handle_manager_command cmd c) (run_loop es))"
| "run_loop (FromPeer now # es) c =
     obind (read_message (inbound c)) (\<lambda>(message, buf', stream').
     obind (handle_message now message (c\<lparr> buf := buf', inbound := stream' \<rparr>)) (run_loop es))"

definition peer_connection_run ::
  "bytes option \<Rightarrow> select_event list \<Rightarrow> peer_connection \<Rightarrow>
     (connection_error, peer_connection \<times> bool) outcome" where
  "peer_connection_run bf es c = obind (send_bitfield bf c) (run_loop es)"

section \<open>Framing\<close>

lemma read_message_frame:
  assumes "unat (of_be (take 4 fr) :: u32) = length fr - 4" "4 \<le> length fr"
  shows "read_message (fr @ rest) =
     obind (map_err MessageFailed (deserialize (drop 4 fr))) (\<lambda>(m, b). Ok (m, b, rest))"
proof -
  have "\<not> length fr + length rest - 4 < length fr - 4" by arith
  with assms show ?thesis by (simp add: read_message_def Let_def)
qed

lemma read_message_serialized:
  "wire_ok m \<Longrightarrow>
   read_message (serialize m @ rest) =
     obind (map_err MessageFailed (deserialize (drop 4 (serialize m)))) (\<lambda>(m, b). Ok (m, b, rest))"
  by (rule read_message_frame) (simp_all add: serialize_prefix length_serialize_ge)

lemma drop_neq: "0 < n \<Longrightarrow> n \<le> length xs \<Longrightarrow> drop n xs \<noteq> xs"
  by (metis diff_less length_drop less_le_trans less_irrefl_nat)

text \<open>Without its prefix a serialized message never parses to itself.\<close>

lemma deserialize_body_differs: "deserialize (drop 4 (serialize m)) \<noteq> Ok (m, b)"
proof (cases m)
  case (Bitfield xs)
  then show ?thesis
    by (auto simp: deserialize_Ok_iff serialize_def drop_neq drop_neq [symmetric])
next
  case (Piece i g xs)
  have "length (drop 4 (serialize m)) = 9 + length xs" using Piece by (simp add: serialize_def)
  with Piece show ?thesis
    by (auto simp: deserialize_Ok_iff serialize_def drop_neq drop_neq [symmetric])
qed (auto simp: deserialize_Ok_iff serialize_def)

section \<open>Writing\<close>

lemma handle_manager_command_iff:
  "handle_manager_command cmd c = Ok c' \<longleftrightarrow>
    (case command_message cmd of
       None \<Rightarrow> c' = c
     | Some m \<Rightarrow> writable c \<and>
         c' = c\<lparr> buf := buf c @ serialize m, outbound := outbound c @ buf c @ serialize m \<rparr>)"
  by (auto simp: handle_manager_command_def write_buf_def serialize_into_append [of _ "buf c"]
      split: option.splits)

text \<open>What a buffer that is never cleared puts on the wire for a series of serializations.\<close>

fun resent :: "bytes \<Rightarrow> bytes list \<Rightarrow> bytes" where
  "resent acc [] = []"
| "resent acc (s # ss) = (acc @ s) @ resent (acc @ s) ss"

lemma run_loop_commands:
  "run_loop (map (\<lambda>(cmd, k, junk). FromManager (Some cmd) k junk) cmds) c = Ok (c', False) \<Longrightarrow>
   \<forall>(cmd, k, junk) \<in> set cmds. k < 4 \<Longrightarrow>
   outbound c' = outbound c @ resent (buf c) (map serialize (List.map_filter (command_message \<circ> fst) cmds)) \<and>
   buf c' = buf c @ concat (map serialize (List.map_filter (command_message \<circ> fst) cmds))"
proof (induction cmds arbitrary: c)
  case Nil
  then show ?case by (simp add: map_filter_simps)
next
  case (Cons x cmds)
  obtain cmd k junk where x: "x = (cmd, k, junk)" by (metis prod.exhaust)
  let ?c = "c\<lparr> inbound := drop k (inbound c) \<rparr>"
  from Cons.prems x obtain c1 where c1: "handle_manager_command cmd ?c = Ok c1"
    and rest: "run_loop (map (\<lambda>(cmd, k, junk). FromManager (Some cmd) k junk) cmds) c1 = Ok (c', False)"
    by (auto simp: cancel_read_def)
  from Cons.IH [OF rest] c1 Cons.prems(2) show ?case
    by (auto simp: x handle_manager_command_iff map_filter_simps split: option.splits)
qed

lemma read_leaves_buffer:
  assumes "run_loop [FromPeer now] d = Ok (c, fin)"
  shows "\<exists>m rest. read_message (inbound d) = Ok (m, buf c, rest)"
proof -
  from assms obtain m b rest where read: "read_message (inbound d) = Ok (m, b, rest)"
    and "handle_message now m (d\<lparr> buf := b, inbound := rest \<rparr>) = Ok c" by auto
  then have "buf c = b" by (cases m) (auto simp: send_event_def Let_def split: if_splits)
  with read show ?thesis by blast
qed

section \<open>Events mirror the state\<close>

lemma send_event_iff:
  "send_event e c = Ok c' \<longleftrightarrow> manager_open c \<and> c' = c\<lparr> to_manager := to_manager c @ [e] \<rparr>"
  by (auto simp: send_event_def)

text \<open>
  What the manager can tell about a peer from the events it was sent: whether the peer chokes us, is
  interested in us, its bitfield, and how many bytes it has delivered.
\<close>

type_synonym peer_view = "bool \<times> bool \<times> bytes option \<times> u64"

fun view_step :: "peer_view \<Rightarrow> peer_event \<Rightarrow> peer_view" where
  "view_step (ch, ir, bf, n) PeerChoked = (True, ir, bf, n)"
| "view_step (ch, ir, bf, n) PeerUnchoked = (False, ir, bf, n)"
| "view_step (ch, ir, bf, n) PeerInterested = (ch, True, bf, n)"
| "view_step (ch, ir, bf, n) PeerNotInterested = (ch, False, bf, n)"
| "view_step (ch, ir, bf, n) (ReceivedBitfield bs) = (ch, ir, Some bs, n)"
| "view_step (ch, ir, bf, n) (ReceivedPiece i b block) = (ch, ir, bf, n + word_of_nat (length block))"
| "view_step v _ = v"

definition replay :: "peer_event list \<Rightarrow> peer_view" where
  "replay es = foldl view_step (True, False, None, 0) es"

definition view :: "peer_state \<Rightarrow> peer_view" where
  "view s = (peer_choking s, peer_interested s, bitfield s, downloaded s)"

definition mirrored :: "peer_connection \<Rightarrow> bool" where
  "mirrored c \<longleftrightarrow> view (pstate c) = replay (to_manager c) \<and> PeerDisconnected \<notin> set (to_manager c)"

lemma replay_snoc: "replay (es @ [e]) = view_step (replay es) e"
  by (simp add: replay_def)

lemma view_update_download_rate [simp]: "view (update_download_rate now s) = view s"
  by (simp add: view_def update_download_rate_def Let_def)

lemma handle_message_mirrored:
  assumes "mirrored c" "handle_message now m c = Ok c'"
  shows "mirrored c'"
proof -
  from assms(1) have c: "c' = c \<Longrightarrow> mirrored c'" by simp
  from assms(1) have r: "replay (to_manager c) = view (pstate c)"
    and d: "PeerDisconnected \<notin> set (to_manager c)" by (simp_all add: mirrored_def)
  note rules = mirrored_def send_event_iff replay_snoc Let_def r
  show ?thesis
  proof (cases m)
    case (Piece i b block)
    have "view ((pstate c)\<lparr>downloaded := downloaded (pstate c) + word_of_nat (length block)\<rparr>) =
        view_step (view (pstate c)) (ReceivedPiece i b block)"
      by (simp add: view_def)
    then show ?thesis
      using assms(2) d Piece by (auto simp: rules replay_snoc [of "to_manager c @ [_]", simplified])
  qed (use assms(2) d c in simp, use assms(2) d r in
      \<open>auto simp: mirrored_def send_event_iff replay_snoc view_def\<close>)
qed

lemma mirrored_new:
  "peer_connection_new connect now ip pid info_hash = Ok c \<Longrightarrow> mirrored c"
  by (auto simp: peer_connection_new_def Let_def mirrored_def replay_def view_def
      peer_state_new_def split: option.splits)

lemma mirrored_frame:
  "pstate c' = pstate c \<Longrightarrow> to_manager c' = to_manager c \<Longrightarrow> mirrored c' = mirrored c"
  by (simp add: mirrored_def)

lemma mirrored_cancel [simp]: "mirrored (cancel_read k junk c) = mirrored c"
  by (rule mirrored_frame) (simp_all add: cancel_read_def Let_def)

lemma mirrored_command: "mirrored c \<Longrightarrow> handle_manager_command cmd c = Ok c' \<Longrightarrow> mirrored c'"
  by (auto simp: handle_manager_command_iff mirrored_def split: option.splits)

lemma mirrored_bitfield: "mirrored c \<Longrightarrow> send_bitfield bf c = Ok c' \<Longrightarrow> mirrored c'"
  by (auto simp: send_bitfield_def write_buf_def mirrored_def split: option.splits if_splits)

lemma mirrored_run_loop: "mirrored c \<Longrightarrow> run_loop es c = Ok (c', fin) \<Longrightarrow> mirrored c'"
proof (induction es arbitrary: c)
  case Nil
  then show ?case by simp
next
  case (Cons e es)
  show ?case
  proof (cases e)
    case (FromManager command k junk)
    with Cons.prems show ?thesis
      by (auto simp: Let_def split: option.splits)
        (blast intro: Cons.IH mirrored_command mirrored_cancel [THEN iffD2])
  next
    case (FromPeer now)
    with Cons.prems obtain m b st c1
      where c1: "handle_message now m (c\<lparr>buf := b, inbound := st\<rparr>) = Ok c1"
        and rest: "run_loop es c1 = Ok (c', fin)" by auto
    have "mirrored (c\<lparr>buf := b, inbound := st\<rparr>)"
      using Cons.prems(1) by (simp add: mirrored_def)
    from Cons.IH [OF handle_message_mirrored [OF this c1] rest] show ?thesis .
  qed
qed

lemma handle_message_no_panic: "handle_message now m c \<noteq> Panic"
  by (cases m) (auto simp: send_event_def obind_Panic_iff Let_def)

lemma run_loop_no_panic: "run_loop es c \<noteq> Panic"
proof (induction es c rule: run_loop.induct)
  case (2 command k junk es c)
  then show ?case
    by (auto simp: Let_def obind_Panic_iff handle_manager_command_def write_buf_def
        split: option.splits)
next
  case (3 now es c)
  then show ?case
    by (auto simp: obind_Panic_iff handle_message_no_panic read_message_def Let_def
        deserialize_no_panic)
qed simp

lemma double_framed:
  assumes "wire_ok m" "length (serialize m) < 2 ^ 32"
  shows "\<exists>b. read_message (be32 (len_u32 (serialize m)) @ serialize m @ rest) = Ok (m, b, rest)"
proof -
  from assms(1) obtain b where b: "deserialize (serialize m) = Ok (m, b)"
    using msg.dec_enc [of m] by (auto simp: parsed_def)
  have "read_message ((be32 (len_u32 (serialize m)) @ serialize m) @ rest) = Ok (m, b, rest)"
    by (subst read_message_frame) (simp_all add: unat_len_u32 [OF assms(2)] b)
  then show ?thesis by auto
qed

section \<open>Properties\<close>

text \<open>
  C17: The reader loses the frame. \<open>read_message\<close> strips the length prefix and then parses the
  payload as if the prefix were still there, so no message a peer serializes is ever received as
  itself, and a keep-alive or any of the four flag messages ends the connection with
  \<open>MessageTooShort\<close>.
\<close>

theorem read_message_loses_every_message:
  assumes "wire_ok m"
  shows "read_message (serialize m @ rest) \<noteq> Ok (m, b, r) \<and>
    (m \<in> {KeepAlive, Choke, UnChoke, Interested, NotInterested} \<longrightarrow>
       read_message (serialize m @ rest) = Err (MessageFailed MessageTooShort))"
  using assms deserialize_body_differs [of m]
  by (auto simp: read_message_serialized) (auto simp: serialize_def deserialize_def)

theorem read_message_loses_every_message_witness:
  "read_message (serialize Interested @ []) = Err (MessageFailed MessageTooShort)"
  using read_message_loses_every_message [of Interested "[]"] by simp

text \<open>
  What the reader does accept: a message whose complete frame, prefix included, is the payload
  of a second prefix. It then yields exactly that message and leaves the stream after it.
\<close>

theorem read_message_double_framed:
  assumes "wire_ok m" "length (serialize m) < 2 ^ 32"
  shows "\<exists>b. read_message (be32 (len_u32 (serialize m)) @ serialize m @ rest) = Ok (m, b, rest)"
  by (rule double_framed [OF assms])

theorem read_message_double_framed_witness:
  "\<exists>b. read_message (be32 5 @ serialize UnChoke @ [1]) = Ok (UnChoke, b, [1])"
  using read_message_double_framed [of UnChoke "[1]"] by (simp add: serialize_def len_u32_def)

text \<open>
  C30: A command does not clear the send buffer. Over any series of commands with no read of a message's payload
  between them the stream carries, for each command, everything the buffer held before it followed by the new
  message, so each message is sent again with every later one. Only reading a message clears
  the buffer, which then holds what the parse has left of the peer's own message: the next command sends that back.
\<close>

theorem commands_resend_buffer:
  assumes "run_loop (map (\<lambda>(cmd, k, junk). FromManager (Some cmd) k junk) cmds) c = Ok (c', False)"
    and "\<forall>(cmd, k, junk) \<in> set cmds. k < 4"
  shows "outbound c' = outbound c @ resent (buf c) (map serialize (List.map_filter (command_message \<circ> fst) cmds)) \<and>
    buf c' = buf c @ concat (map serialize (List.map_filter (command_message \<circ> fst) cmds)) \<and>
    (\<forall>now d. run_loop [FromPeer now] d = Ok (c, False) \<longrightarrow> (\<exists>m rest. read_message (inbound d) = Ok (m, buf c, rest)))"
  using run_loop_commands [OF assms] read_leaves_buffer by blast

theorem commands_resend_buffer_witness:
  "\<exists>c'. run_loop [FromManager (Some CmdInterested) 0 [], FromManager (Some CmdUnchoke) 0 []]
      \<lparr> peer_addr = ([127, 0, 0, 1], 6881), inbound = [], outbound = [], writable = True,
        pstate = peer_state_new 0 None, to_manager = [], manager_open = True, buf = [] \<rparr>
      = Ok (c', False) \<and>
    outbound c' = serialize Interested @ serialize Interested @ serialize UnChoke"
proof -
  let ?c = "\<lparr> peer_addr = ([127, 0, 0, 1], 6881), inbound = [], outbound = [], writable = True,
        pstate = peer_state_new 0 None, to_manager = [], manager_open = True, buf = [] \<rparr>"
  obtain c' where c': "run_loop (map (\<lambda>(cmd, k, junk). FromManager (Some cmd) k junk)
      [(CmdInterested, 0, []), (CmdUnchoke, 0, [])]) ?c = Ok (c', False)"
    by (simp add: cancel_read_def handle_manager_command_def write_buf_def)
  from commands_resend_buffer [OF c'] c' show ?thesis
    by (intro exI [of _ c']) (simp add: map_filter_simps)
qed

text \<open>
  C29: The events are a faithful account of the connection. After any run of a connection, whatever
  the interleaving of commands and messages, replaying the events sent to the manager gives the
  choke and interest flags, the bitfield and the byte count the connection itself holds; and no
  event ever says that the peer has disconnected.
\<close>

theorem connection_events_mirror_state:
  assumes "peer_connection_new connect now ip pid info_hash = Ok c"
    and "peer_connection_run bf es c = Ok (c', fin)"
  shows "view (pstate c') = replay (to_manager c') \<and> PeerDisconnected \<notin> set (to_manager c')"
proof -
  from assms(2) obtain c1 where "send_bitfield bf c = Ok c1" "run_loop es c1 = Ok (c', fin)"
    by (auto simp: peer_connection_run_def)
  then have "mirrored c'"
    using mirrored_new [OF assms(1)] by (blast intro: mirrored_bitfield mirrored_run_loop)
  then show ?thesis by (simp add: mirrored_def)
qed

theorem connection_events_mirror_state_witness:
  "\<exists>c' :: peer_connection. view (pstate c') = replay (to_manager c') \<and> to_manager c' = [PeerUnchoked]"
proof -
  let ?h = "replicate 20 1 :: bytes" and ?p = "replicate 20 2 :: bytes"
  let ?stream = "handshake_message ?p ?h @ (be32 5 @ serialize UnChoke @ [])"
  obtain c where c: "peer_connection_new (\<lambda>_. Some (?stream, True)) 0 [127, 0, 0, 1, 26, 225] ?p ?h = Ok c"
    and i: "inbound c = be32 5 @ serialize UnChoke @ []" "to_manager c = []" "manager_open c"
    by (simp add: peer_connection_new_def Let_def handshake_met)
  obtain b where "read_message (inbound c) = Ok (UnChoke, b, [])"
    using double_framed [of UnChoke "[]"] i by (auto simp: serialize_def len_u32_def)
  then obtain c' where c': "run_loop [FromPeer 0] c = Ok (c', False)" "to_manager c' = [PeerUnchoked]"
    using i by (simp add: send_event_def)
  then have "peer_connection_run None [FromPeer 0] c = Ok (c', False)"
    by (simp add: peer_connection_run_def send_bitfield_def)
  from connection_events_mirror_state [OF c this] c'(2)
  show ?thesis by blast
qed

text \<open>
  No input from a peer and no order of commands makes a connection panic: every run ends in a
  value or an error.
\<close>

theorem connection_never_panics: "peer_connection_run bf es c \<noteq> Panic"
  by (auto simp: peer_connection_run_def obind_Panic_iff run_loop_no_panic send_bitfield_def
      write_buf_def split: option.splits)

end
