(* ===== verification/Download_Manager.thy ===== *)
theory Download_Manager
  imports Piece_Manager Disk_Layout Peer_Connection
begin

text \<open>
  The download manager, \<open>src/core/peer/download_manager.rs\<close>: it turns the events of the connections
  into requests, verified pieces and writes. Around it are the disk, the command channels of the
  connections (a sender is a number; what was sent on open channels is recorded in order) and the
  clock. A channel has 100 places, and a send to a full one waits for the connection to take a command; how many it will
  ever take is a parameter. \<open>None\<close> is a call that does not come back, by a loop that never ends, a panic, or a
  send that waits for ever.
\<close>

section \<open>State\<close>

record download_manager =
  dm_piece_manager :: piece_manager
  dm_peers :: "(peer_ip, nat \<times> bytes option) hash_map"
  dm_disk_io :: "disk_io option"

record dm_world =
  dw_disk :: disk
  dw_open :: "nat \<Rightarrow> bool"
  dw_takes :: "nat \<Rightarrow> nat \<Rightarrow> bool"
  dw_sent :: "(nat \<times> manager_command) list"
  dw_waiting :: bool

definition download_manager_new :: "torrent \<Rightarrow> u32 \<Rightarrow> download_manager option" where
  "download_manager_new t block_size =
    map_option (\<lambda>pm. \<lparr> dm_piece_manager = pm, dm_peers = [], dm_disk_io = None \<rparr>)
      (piece_manager_new t block_size)"

definition set_disk_io :: "disk_io \<Rightarrow> download_manager \<Rightarrow> download_manager" where
  "set_disk_io dio dm = dm\<lparr> dm_disk_io := Some dio \<rparr>"

definition dm_add_peer :: "peer_ip \<Rightarrow> nat \<Rightarrow> download_manager \<Rightarrow> download_manager" where
  "dm_add_peer ip sender dm = dm\<lparr> dm_peers := hm_insert ip (sender, None) (dm_peers dm) \<rparr>"

definition dm_remove_peer :: "peer_ip \<Rightarrow> download_manager \<Rightarrow> download_manager" where
  "dm_remove_peer ip dm = dm\<lparr> dm_peers := hm_remove ip (dm_peers dm) \<rparr>"

text \<open>
  A send to a connection that is gone, or goes while the send waits, fails, and the failure is ignored. To one that
  stays, the \<open>n\<close>-th command has a place when it is among the first 100, or once command \<open>n - 100\<close> has been taken;
  \<open>dw_takes\<close> says whether it ever is. If not, the manager waits for ever and does nothing more.
\<close>

definition command_capacity :: nat where
  "command_capacity = 100"

definition sent_to :: "nat \<Rightarrow> dm_world \<Rightarrow> nat" where
  "sent_to sender w = length (filter (\<lambda>(k, _). k = sender) (dw_sent w))"

definition send_command :: "nat \<Rightarrow> manager_command \<Rightarrow> dm_world \<Rightarrow> dm_world" where
  "send_command sender command w =
    (let n = sent_to sender w in
     if dw_waiting w \<or> \<not> dw_open w sender then w
     else if n < command_capacity \<or> dw_takes w sender (n - command_capacity)
     then w\<lparr> dw_sent := dw_sent w @ [(sender, command)] \<rparr>
     else w\<lparr> dw_waiting := True \<rparr>)"

section \<open>Bitfields\<close>

definition available_pieces :: "bytes \<Rightarrow> u32 list" where
  "available_pieces bf =
    concat (map (\<lambda>(byte_index, byte).
        map (\<lambda>bit_index. word_of_nat (byte_index * 8 + bit_index))
          (filter (\<lambda>bit_index. bit_set byte (7 - bit_index)) [0..<8]))
      (enumerate 0 bf))"

definition get_peer_available_pieces :: "peer_ip \<Rightarrow> download_manager \<Rightarrow> u32 list" where
  "get_peer_available_pieces ip dm =
    (case hm_get (dm_peers dm) ip of
       Some (_, Some bf) \<Rightarrow> available_pieces bf
     | _ \<Rightarrow> [])"

definition peer_has_needed_pieces :: "peer_ip \<Rightarrow> download_manager \<Rightarrow> bool" where
  "peer_has_needed_pieces ip dm =
    (get_next_piece_to_download (get_peer_available_pieces ip dm) (dm_piece_manager dm) \<noteq> None)"

definition handle_bitfield ::
  "peer_ip \<Rightarrow> bytes \<Rightarrow> download_manager \<times> dm_world \<Rightarrow> download_manager \<times> dm_world" where
  "handle_bitfield ip bf = (\<lambda>(dm, w).
    let dm = (case hm_get (dm_peers dm) ip of
        Some (sender, _) \<Rightarrow> dm\<lparr> dm_peers := hm_insert ip (sender, Some bf) (dm_peers dm) \<rparr>
      | None \<Rightarrow> dm);
        w = (if peer_has_needed_pieces ip dm then
            (case hm_get (dm_peers dm) ip of
               Some (sender, _) \<Rightarrow> send_command sender CmdInterested w
             | None \<Rightarrow> w)
          else w)
    in (dm, w))"

definition set_have :: "u32 \<Rightarrow> bytes \<Rightarrow> bytes" where
  "set_have piece_index bf =
    (let byte_index = piece_index div 8;
         bit_index = 7 - piece_index mod 8
     in if byte_index < len_u32 bf
        then bf[unat byte_index := (bf ! unat byte_index) OR push_bit (unat bit_index) 1]
        else bf)"

definition handle_have ::
  "peer_ip \<Rightarrow> u32 \<Rightarrow> download_manager \<times> dm_world \<Rightarrow> download_manager \<times> dm_world" where
  "handle_have ip piece_index = (\<lambda>(dm, w).
    (case hm_get (dm_peers dm) ip of
       Some (sender, Some bf) \<Rightarrow>
         (dm\<lparr> dm_peers := hm_insert ip (sender, Some (set_have piece_index bf)) (dm_peers dm) \<rparr>, w)
     | _ \<Rightarrow> (dm, w)))"

section \<open>Requests\<close>

text \<open>The offset is cut to 32 bits in the command.\<close>

definition request_next_block_for_piece ::
  "instant \<Rightarrow> peer_ip \<Rightarrow> u32 \<Rightarrow> download_manager \<times> dm_world \<Rightarrow> download_manager \<times> dm_world" where
  "request_next_block_for_piece now ip piece_index = (\<lambda>(dm, w).
    (case get_next_block_for_piece piece_index (dm_piece_manager dm) of
       None \<Rightarrow> (dm, w)
     | Some (offset, len) \<Rightarrow>
         (dm\<lparr> dm_piece_manager := request_block now piece_index offset ip (dm_piece_manager dm) \<rparr>,
          (case hm_get (dm_peers dm) ip of
             Some (sender, _) \<Rightarrow> send_command sender (CmdRequestBlock piece_index (ucast offset) len) w
           | None \<Rightarrow> w))))"

definition request_pieces_from_peer ::
  "instant \<Rightarrow> peer_ip \<Rightarrow> download_manager \<times> dm_world \<Rightarrow> download_manager \<times> dm_world" where
  "request_pieces_from_peer now ip = (\<lambda>(dm, w).
    (case get_next_piece_to_download (get_peer_available_pieces ip dm) (dm_piece_manager dm) of
       Some piece_index \<Rightarrow> request_next_block_for_piece now ip piece_index (dm, w)
     | None \<Rightarrow> (dm, w)))"

definition handle_unchoke ::
  "instant \<Rightarrow> peer_ip \<Rightarrow> download_manager \<times> dm_world \<Rightarrow> download_manager \<times> dm_world" where
  "handle_unchoke now ip s = request_pieces_from_peer now ip s"

section \<open>Received blocks\<close>

definition broadcast_have :: "u32 \<Rightarrow> download_manager \<Rightarrow> dm_world \<Rightarrow> dm_world" where
  "broadcast_have piece_index dm w =
    fold (\<lambda>(sender, _). send_command sender (CmdHavePiece piece_index)) (hm_values (dm_peers dm)) w"

definition handle_recieve_piece ::
  "(bytes \<Rightarrow> bytes) \<Rightarrow> u32 \<Rightarrow> u64 \<Rightarrow> bytes \<Rightarrow> download_manager \<times> dm_world \<Rightarrow>
   (download_manager \<times> dm_world) option" where
  "handle_recieve_piece sha1 piece_index bgn data = (\<lambda>(dm, w).
    Option.bind (receive_block sha1 piece_index bgn data (dm_piece_manager dm)) (\<lambda>(piece_complete, pm).
      let dm = dm\<lparr> dm_piece_manager := pm \<rparr> in
      if piece_complete then
        (case dm_disk_io dm of
           None \<Rightarrow> Some (dm, w)
         | Some dio \<Rightarrow>
             Option.bind (get_piece_data piece_index pm) (\<lambda>r.
               case r of
                 None \<Rightarrow> Some (dm, w)
               | Some d \<Rightarrow>
                   (case write_piece dio piece_index d (dw_disk w) of
                      (disk, Ok _) \<Rightarrow>
                        (let dm = dm\<lparr> dm_piece_manager := mark_piece_written piece_index pm \<rparr>
                         in Some (dm, broadcast_have piece_index dm (w\<lparr> dw_disk := disk \<rparr>)))
                    | (disk, Err _) \<Rightarrow> Some (dm, w\<lparr> dw_disk := disk \<rparr>)
                    | (disk, Panic) \<Rightarrow> None)))
      else Some (dm, w)))"

section \<open>The event loop\<close>

fun handle_event ::
  "(bytes \<Rightarrow> bytes) \<Rightarrow> instant \<Rightarrow> peer_event \<times> peer_ip \<Rightarrow> download_manager \<times> dm_world \<Rightarrow>
   (download_manager \<times> dm_world) option" where
  "handle_event sha1 now (ReceivedBitfield bf, ip) s = Some (handle_bitfield ip bf s)"
| "handle_event sha1 now (ReceivedHave piece_index, ip) s = Some (handle_have ip piece_index s)"
| "handle_event sha1 now (PeerUnchoked, ip) s = Some (handle_unchoke now ip s)"
| "handle_event sha1 now (ReceivedPiece index bgn block, ip) s =
     handle_recieve_piece sha1 index (ucast bgn) block s"
| "handle_event sha1 now (PeerDisconnected, ip) (dm, w) = Some (dm_remove_peer ip dm, w)"
| "handle_event sha1 now (_, ip) s = Some s"

text \<open>
  One turn: a received event, or \<open>None\<close> from a closed channel, which changes nothing. In every handler the sends
  come last, so a send that waits for ever is where the turn stops.
\<close>

definition turn ::
  "(bytes \<Rightarrow> bytes) \<Rightarrow> instant \<times> (peer_event \<times> peer_ip) option \<Rightarrow> download_manager \<times> dm_world \<Rightarrow>
   (download_manager \<times> dm_world) option" where
  "turn sha1 = (\<lambda>(now, received) s.
    case received of
      Some event \<Rightarrow> Option.bind (handle_event sha1 now event s) (\<lambda>s. if dw_waiting (snd s) then None else Some s)
    | None \<Rightarrow> Some s)"

text \<open>\<open>recv n\<close> is what the \<open>n\<close>-th call to \<open>recv\<close> on the event channel gives.\<close>

partial_function (option) dm_run ::
  "(bytes \<Rightarrow> bytes) \<Rightarrow> (nat \<Rightarrow> instant \<times> (peer_event \<times> peer_ip) option) \<Rightarrow> nat \<Rightarrow>
   download_manager \<times> dm_world \<Rightarrow> (download_manager \<times> dm_world) option" where
  "dm_run sha1 recv n s =
    Option.bind (turn sha1 (recv n) s) (\<lambda>s.
      if is_download_complete (dm_piece_manager (fst s)) then Some s
      else dm_run sha1 recv (n + 1) s)"

end
