(* ===== verification/Download_Facts.thy ===== *)
theory Download_Facts
  imports Download_Manager
begin

text \<open>
  What the download manager of \<open>src/core/peer/download_manager.rs\<close> guarantees, and what it does not.
  Lemmas: its reading of bitfields agrees with the connection's, every event leaves it in a good
  state, only data with the right hash reaches the disk, requests follow unchokes one for one, and
  when the event loop returns.
\<close>

section \<open>Bitfields\<close>

lemma in_available:
  "i \<in> set (available_pieces bf) \<longleftrightarrow>
     (\<exists>k < length bf. \<exists>b < 8. bit_set (bf ! k) (7 - b) \<and> i = word_of_nat (k * 8 + b))"
  by (force simp: available_pieces_def in_set_enumerate_eq image_iff)

lemma available_iff:
  assumes "length bf \<le> 2 ^ 29"
  shows "i \<in> set (available_pieces bf) \<longleftrightarrow> bitfield_has bf (unat i)"
proof
  assume "i \<in> set (available_pieces bf)"
  then obtain k b where kb: "k < length bf" "b < 8" "bit_set (bf ! k) (7 - b)" "i = word_of_nat (k * 8 + b)"
    by (auto simp: in_available)
  have "k * 8 + b < 2 ^ 32" using kb(1,2) assms by simp
  then have "unat i = k * 8 + b" unfolding kb(4) by (rule unat_word_of_nat32)
  then show "bitfield_has bf (unat i)"
    using kb(1-3) by (simp add: bitfield_has_def bit_set_iff)
next
  assume has: "bitfield_has bf (unat i)"
  have "i = word_of_nat (unat i div 8 * 8 + unat i mod 8)" by simp
  moreover have "unat i div 8 < length bf" "bit_set (bf ! (unat i div 8)) (7 - unat i mod 8)"
    using has by (simp_all add: bitfield_has_def bit_set_iff)
  moreover have "unat i mod 8 < 8" by simp
  ultimately show "i \<in> set (available_pieces bf)"
    unfolding in_available by blast
qed

lemma length_set_have [simp]: "length (set_have i bf) = length bf"
  by (simp add: set_have_def Let_def)

lemma unat_bit_index: "unat (7 - (i :: u32) mod 8) = 7 - unat i mod 8"
proof -
  have "unat (i mod 8) \<le> unat (7 :: u32)" by (simp add: unat_div_mod_8)
  then show ?thesis by (simp add: unat_sub word_le_nat_alt unat_div_mod_8)
qed

lemma set_have_iff:
  assumes "length bf < 2 ^ 32"
  shows "bitfield_has (set_have i bf) n \<longleftrightarrow>
    bitfield_has bf n \<or> n = unat i \<and> unat i div 8 < length bf"
proof (cases "unat i div 8 < length bf")
  case True
  let ?k = "unat i div 8"
  have "i div 8 < len_u32 bf"
    using True unat_len_u32 [OF assms] by (simp add: word_less_nat_alt unat_div_mod_8)
  define m :: u8 where "m = push_bit (7 - unat i mod 8) 1"
  from \<open>i div 8 < len_u32 bf\<close> have eq: "set_have i bf = bf[?k := bf ! ?k OR m]"
    by (simp add: set_have_def Let_def unat_bit_index unat_div_mod_8 m_def)
  have bit: "bit (bf ! ?k OR m) (7 - n mod 8) \<longleftrightarrow>
      bit (bf ! ?k) (7 - n mod 8) \<or> n mod 8 = unat i mod 8"
  proof -
    have "n mod 8 < 8" "unat i mod 8 < 8" by simp_all
    then have "7 - n mod 8 = 7 - unat i mod 8 \<longleftrightarrow> n mod 8 = unat i mod 8" by linarith
    moreover have "7 - n mod 8 < 8" by simp
    ultimately show ?thesis by (auto simp: bit_simps m_def)
  qed
  show ?thesis
  proof (cases "n div 8 = ?k")
    case True
    have "n = unat i \<longleftrightarrow> n mod 8 = unat i mod 8"
      using True by (metis div_mult_mod_eq)
    with True \<open>?k < length bf\<close> show ?thesis by (simp add: bitfield_has_def eq bit)
  next
    case False
    then have "n \<noteq> unat i" by auto
    with False show ?thesis by (simp add: bitfield_has_def eq)
  qed
next
  case False
  then have "\<not> i div 8 < len_u32 bf"
    using unat_len_u32 [OF assms] by (simp add: word_less_nat_alt unat_div_mod_8)
  with False show ?thesis by (simp add: set_have_def Let_def)
qed

section \<open>The invariant\<close>

text \<open>
  What the disk may have become: each change is a \<open>write_piece\<close> of data whose hash is the torrent's
  for that piece.
\<close>

inductive hash_writes :: "(bytes \<Rightarrow> bytes) \<Rightarrow> torrent \<Rightarrow> disk_io option \<Rightarrow> disk \<Rightarrow> disk \<Rightarrow> bool"
  for sha1 t dio d0 where
  start: "hash_writes sha1 t dio d0 d0"
| piece_write: "hash_writes sha1 t dio d0 d \<Longrightarrow> dio = Some io \<Longrightarrow>
    piece_hash (t_info t) (unat i) = Some (sha1 data) \<Longrightarrow>
    hash_writes sha1 t dio d0 (fst (write_piece io i data d))"

definition disk_ready :: "disk_io option \<Rightarrow> bool" where
  "disk_ready dio \<longleftrightarrow>
     (\<forall>io. dio = Some io \<longrightarrow> length (dio_files io) = length (entry_sizes (dio_file_details io)))"

definition dm_inv ::
  "(bytes \<Rightarrow> bytes) \<Rightarrow> disk \<Rightarrow> download_manager \<times> dm_world \<Rightarrow> bool" where
  "dm_inv sha1 d0 s \<longleftrightarrow> pm_inv sha1 (dm_piece_manager (fst s)) \<and> disk_ready (dm_disk_io (fst s)) \<and>
     hash_writes sha1 (pm_torrent (dm_piece_manager (fst s))) (dm_disk_io (fst s)) d0 (dw_disk (snd s))"

text \<open>What no event changes.\<close>

definition dm_ident ::
  "download_manager \<times> dm_world \<Rightarrow> (torrent \<times> u32 \<times> u32 set) \<times> disk_io option \<times> (nat \<Rightarrow> bool)" where
  "dm_ident s = (pm_ident (dm_piece_manager (fst s)), dm_disk_io (fst s), dw_open (snd s))"

lemma send_command_frame [simp]:
  "dw_disk (send_command c cmd w) = dw_disk w" "dw_open (send_command c cmd w) = dw_open w"
  "dw_takes (send_command c cmd w) = dw_takes w"
  by (simp_all add: send_command_def Let_def)

lemma broadcast_frame [simp]:
  "dw_disk (broadcast_have i dm w) = dw_disk w" "dw_open (broadcast_have i dm w) = dw_open w"
  "dw_takes (broadcast_have i dm w) = dw_takes w"
proof -
  have "dw_disk (fold (\<lambda>(c, _). send_command c cmd) xs w) = dw_disk w \<and>
      dw_open (fold (\<lambda>(c, _). send_command c cmd) xs w) = dw_open w \<and>
      dw_takes (fold (\<lambda>(c, _). send_command c cmd) xs w) = dw_takes w" for cmd and xs :: "(nat \<times> bytes option) list"
    by (induction xs arbitrary: w) auto
  then show "dw_disk (broadcast_have i dm w) = dw_disk w" "dw_open (broadcast_have i dm w) = dw_open w"
    "dw_takes (broadcast_have i dm w) = dw_takes w"
    by (simp_all add: broadcast_have_def)
qed

text \<open>The manager never waits for ever when the connections it is to send to take all their commands.\<close>

definition takes_all :: "dm_world \<Rightarrow> nat \<Rightarrow> bool" where
  "takes_all w sender \<longleftrightarrow> dw_open w sender \<longrightarrow> (\<forall>n. dw_takes w sender n)"

definition dm_senders :: "download_manager \<Rightarrow> nat set" where
  "dm_senders dm = fst ` set (hm_values (dm_peers dm))"

definition dm_flows :: "download_manager \<times> dm_world \<Rightarrow> bool" where
  "dm_flows s \<longleftrightarrow> \<not> dw_waiting (snd s) \<and> (\<forall>k \<in> dm_senders (fst s). takes_all (snd s) k)"

lemma dm_senders_get: "hm_get (dm_peers dm) ip = Some (sender, bf) \<Longrightarrow> sender \<in> dm_senders dm"
  by (force simp: dm_senders_def hm_values_def hm_get_def dest: map_of_SomeD)

lemma dm_senders_put:
  "hm_get (dm_peers dm) ip = Some (sender, bf) \<Longrightarrow>
     dm_senders (dm\<lparr> dm_peers := hm_insert ip (sender, bf') (dm_peers dm) \<rparr>) \<subseteq> dm_senders dm"
  using image_mono [OF set_hm_values_insert [of ip "(sender, bf')" "dm_peers dm"], of fst] dm_senders_get [of dm ip sender bf]
  by (simp add: dm_senders_def subset_iff) metis

lemma dm_senders_remove: "dm_senders (dm_remove_peer ip dm) \<subseteq> dm_senders dm"
  by (auto simp: dm_senders_def dm_remove_peer_def hm_remove_def hm_values_def AList.delete_eq)

lemma dm_senders_pieces [simp]: "dm_senders (dm\<lparr> dm_piece_manager := pm \<rparr>) = dm_senders dm"
  by (simp add: dm_senders_def)

lemma takes_all_frame:
  "dw_open w' = dw_open w \<Longrightarrow> dw_takes w' = dw_takes w \<Longrightarrow> takes_all w' k = takes_all w k"
  by (simp add: takes_all_def)

lemma send_flows: "takes_all w sender \<Longrightarrow> dw_waiting (send_command sender cmd w) = dw_waiting w"
  by (auto simp: takes_all_def send_command_def Let_def)

lemma flows_put:
  assumes "dm_flows (dm, w)" "dm_senders dm' \<subseteq> dm_senders dm" "dw_open w' = dw_open w" "dw_takes w' = dw_takes w"
    and "dw_waiting w' = dw_waiting w"
  shows "dm_flows (dm', w')"
  using assms takes_all_frame [OF assms(3,4)] by (auto simp: dm_flows_def)

lemma flows_send:
  assumes "dm_flows (dm, w)" "sender \<in> dm_senders dm"
  shows "dm_flows (dm, send_command sender cmd w)"
  by (rule flows_put [OF assms(1)]) (use assms in \<open>simp_all add: dm_flows_def send_flows\<close>)

lemma flows_broadcast:
  assumes "dm_flows (dm, w)"
  shows "dm_flows (dm, broadcast_have i dm w)"
proof -
  have "dm_flows (dm, fold (\<lambda>(c, _). send_command c (CmdHavePiece i)) xs w)"
    if "fst ` set xs \<subseteq> dm_senders dm" for xs :: "(nat \<times> bytes option) list"
    using assms that
  proof (induction xs arbitrary: w)
    case (Cons x xs)
    from Cons.prems flows_send [OF Cons.prems(1)] Cons.IH show ?case by (auto simp: split_beta)
  qed simp
  then show ?thesis by (simp add: broadcast_have_def dm_senders_def)
qed

text \<open>What a received block does to the peers and the channels: at most a have message is broadcast.\<close>

lemma broadcast_pieces [simp]: "broadcast_have i (dm\<lparr> dm_piece_manager := pm \<rparr>) w = broadcast_have i dm w"
  by (simp add: broadcast_have_def)

lemma handle_recieve_sends:
  assumes "handle_recieve_piece sha1 i q data (dm, w) = Some s'"
  shows "\<exists>pm disk. fst s' = dm\<lparr> dm_piece_manager := pm \<rparr> \<and>
    (snd s' = w\<lparr> dw_disk := disk \<rparr> \<or> snd s' = broadcast_have i dm (w\<lparr> dw_disk := disk \<rparr>))"
proof -
  have w: "w = w\<lparr> dw_disk := dw_disk w \<rparr>" by simp
  from assms obtain r pm where rec: "receive_block sha1 i q data (dm_piece_manager dm) = Some (r, pm)"
    by (auto simp: handle_recieve_piece_def bind_eq_Some_conv)
  show ?thesis
  proof (cases "r \<and> dm_disk_io dm \<noteq> None")
    case False
    with assms rec have "s' = (dm\<lparr> dm_piece_manager := pm \<rparr>, w)"
      by (auto simp: handle_recieve_piece_def Let_def split: if_splits)
    then show ?thesis by (metis fst_conv snd_conv w)
  next
    case True
    then obtain dio where dio: "r" "dm_disk_io dm = Some dio" by blast
    with assms rec obtain rd where rd: "get_piece_data i pm = Some rd"
      by (auto simp: handle_recieve_piece_def Let_def bind_eq_Some_conv)
    show ?thesis
    proof (cases rd)
      case None
      with assms rec dio rd have "s' = (dm\<lparr> dm_piece_manager := pm \<rparr>, w)"
        by (auto simp: handle_recieve_piece_def Let_def)
      then show ?thesis by (metis fst_conv snd_conv w)
    next
      case (Some d)
      obtain disk res where "write_piece dio i d (dw_disk w) = (disk, res)" by fastforce
      with assms rec dio rd Some show ?thesis
        by (cases res) (auto simp: handle_recieve_piece_def Let_def)
    qed
  qed
qed

lemma handle_event_flows:
  assumes "dm_flows s" "handle_event sha1 now ev s = Some s'"
  shows "dm_flows s'"
proof -
  obtain dm w e ip where s: "s = (dm, w)" and ev: "ev = (e, ip)" by (metis prod.exhaust)
  note flows = assms(1) [unfolded s]
  show ?thesis
  proof (cases e)
    case (ReceivedPiece i b block)
    with assms(2) obtain pm disk where *: "fst s' = dm\<lparr> dm_piece_manager := pm \<rparr>"
      "snd s' = w\<lparr> dw_disk := disk \<rparr> \<or> snd s' = broadcast_have i dm (w\<lparr> dw_disk := disk \<rparr>)"
      using handle_recieve_sends [of sha1 i "ucast b" block dm w s'] by (auto simp: s ev)
    have "dm_flows (dm, w\<lparr> dw_disk := disk \<rparr>)" by (rule flows_put [OF flows]) simp_all
    with flows_broadcast [OF this, of i] * show ?thesis by (auto simp: dm_flows_def)
  next
    case PeerUnchoked
    then show ?thesis
      using assms(2) flows flows_send [OF flows dm_senders_get]
      by (auto simp: s ev handle_unchoke_def request_pieces_from_peer_def request_next_block_for_piece_def dm_flows_def
          split: option.splits)
  next
    case (ReceivedBitfield bf)
    show ?thesis
    proof (cases "hm_get (dm_peers dm) ip")
      case (Some p)
      obtain sender bf0 where p: "p = (sender, bf0)" by fastforce
      let ?dm = "dm\<lparr> dm_peers := hm_insert ip (sender, Some bf) (dm_peers dm) \<rparr>"
      have put: "dm_flows (?dm, w)" by (rule flows_put [OF flows dm_senders_put]) (use Some p in simp_all)
      have "sender \<in> dm_senders ?dm" by (rule dm_senders_get [of _ ip]) simp
      from flows_send [OF put this] put show ?thesis
        using assms(2) by (auto simp: s ev ReceivedBitfield handle_bitfield_def Some p Let_def split: if_splits)
    qed (use assms(2) flows in \<open>auto simp: s ev ReceivedBitfield handle_bitfield_def Let_def split: if_splits\<close>)
  next
    case (ReceivedHave i)
    then show ?thesis
      using assms(2) flows flows_put [OF flows dm_senders_put]
      by (auto simp: s ev handle_have_def split: option.splits)
  next
    case PeerDisconnected
    with assms(2) flows_put [OF flows dm_senders_remove] show ?thesis by (auto simp: s ev)
  qed (use assms flows in \<open>auto simp: s ev\<close>)
qed

lemma turn_event: "dm_flows s \<Longrightarrow> turn sha1 (now, Some ev) s = handle_event sha1 now ev s"
  using handle_event_flows [of s sha1 now ev]
  by (cases "handle_event sha1 now ev s") (auto simp: turn_def dm_flows_def)

lemma turn_handled: "turn sha1 (now, Some ev) s = Some s' \<Longrightarrow> handle_event sha1 now ev s = Some s'"
  by (auto simp: turn_def bind_eq_Some_conv split: if_splits)

lemma turn_none [simp]: "turn sha1 (now, None) s = Some s"
  by (simp add: turn_def)

lemma turn_flows:
  assumes "dm_flows s" "turn sha1 x s = Some s'"
  shows "dm_flows s'"
proof -
  obtain now received where x: "x = (now, received)" by fastforce
  show ?thesis
    using assms handle_event_flows [OF assms(1) turn_handled] by (cases received) (auto simp: x)
qed

text \<open>Events that only touch the peers and the channels.\<close>

lemma dm_frame:
  assumes "dm_inv sha1 d0 s" "dm_piece_manager (fst s') = dm_piece_manager (fst s)"
    and "dm_disk_io (fst s') = dm_disk_io (fst s)" "dw_disk (snd s') = dw_disk (snd s)"
    and "dw_open (snd s') = dw_open (snd s)"
  shows "dm_inv sha1 d0 s' \<and> dm_ident s' = dm_ident s"
  using assms by (simp add: dm_inv_def dm_ident_def)

lemma handle_bitfield_ok:
  "dm_inv sha1 d0 s \<Longrightarrow>
     dm_inv sha1 d0 (handle_bitfield ip bf s) \<and> dm_ident (handle_bitfield ip bf s) = dm_ident s"
  by (erule dm_frame)
    (cases s; simp add: handle_bitfield_def Let_def split: option.split prod.split)+

lemma handle_have_ok:
  "dm_inv sha1 d0 s \<Longrightarrow>
     dm_inv sha1 d0 (handle_have ip i s) \<and> dm_ident (handle_have ip i s) = dm_ident s"
  by (erule dm_frame) (cases s; simp add: handle_have_def split: option.split prod.split)+

lemma pm_ident_torrent: "pm_ident pm' = pm_ident pm \<Longrightarrow> pm_torrent pm' = pm_torrent pm"
  by (simp add: pm_ident_def)

lemma dm_put:
  assumes "dm_inv sha1 d0 (dm, w)" "pm_inv sha1 pm" "pm_ident pm = pm_ident (dm_piece_manager dm)"
    and "dw_disk w' = dw_disk w" "dw_open w' = dw_open w"
  shows "dm_inv sha1 d0 (dm\<lparr> dm_piece_manager := pm \<rparr>, w')"
    and "dm_ident (dm\<lparr> dm_piece_manager := pm \<rparr>, w') = dm_ident (dm, w)"
  using assms by (simp_all add: dm_inv_def dm_ident_def pm_ident_torrent [OF assms(3)])

lemma handle_unchoke_ok:
  assumes "dm_inv sha1 d0 s"
  shows "dm_inv sha1 d0 (handle_unchoke now ip s) \<and> dm_ident (handle_unchoke now ip s) = dm_ident s"
proof -
  obtain dm w where s: "s = (dm, w)" by fastforce
  then have pm: "pm_inv sha1 (dm_piece_manager dm)" using assms by (simp add: dm_inv_def)
  show ?thesis
    using assms dm_put [of sha1 d0 dm w] pm_request_ok [OF pm]
    by (simp add: s handle_unchoke_def request_pieces_from_peer_def request_next_block_for_piece_def
        split: option.split prod.split)
qed

lemma handle_recieve_ok:
  assumes "dm_inv sha1 d0 s"
  shows "\<exists>s'. handle_recieve_piece sha1 i q data s = Some s' \<and> dm_inv sha1 d0 s' \<and> dm_ident s' = dm_ident s"
proof -
  obtain dm w where s: "s = (dm, w)" by fastforce
  then have pm: "pm_inv sha1 (dm_piece_manager dm)" using assms by (simp add: dm_inv_def)
  from pm_receive_ok [OF pm, of i q data] obtain r pm1 where
    rec: "receive_block sha1 i q data (dm_piece_manager dm) = Some (r, pm1)"
    and pm1: "pm_inv sha1 pm1" "pm_ident pm1 = pm_ident (dm_piece_manager dm)" by blast
  note put = dm_put [OF assms [unfolded s] pm1 refl refl]
  from pm_get_data_ok [OF pm1(1), of i] obtain rd where
    rd: "get_piece_data i pm1 = Some rd" "pm_data_right sha1 (pm_ident pm1) i rd" by blast
  show ?thesis
  proof (cases "r \<and> dm_disk_io dm \<noteq> None \<and> rd \<noteq> None")
    case False
    with put rec rd show ?thesis
      by (auto simp: s handle_recieve_piece_def Let_def split: option.split)
  next
    case True
    then obtain dio d where io: "r" "dm_disk_io dm = Some dio" "rd = Some d" by blast
    obtain disk res where wr: "write_piece dio i d (dw_disk w) = (disk, res)" by fastforce
    have "length (dio_files dio) = length (entry_sizes (dio_file_details dio))"
      using assms io(2) by (simp add: s dm_inv_def disk_ready_def)
    then have res: "res \<noteq> Panic"
      using wr write_piece_no_panic [of dio i d "dw_disk w"] by simp
    have hash: "piece_hash (t_info (pm_torrent (dm_piece_manager dm))) (unat i) = Some (sha1 d)"
      using rd(2) io(3) pm1(2) by (simp add: pm_data_right_def pm_ident_def)
    have disk: "hash_writes sha1 (pm_torrent (dm_piece_manager dm)) (Some dio) d0 disk"
      using hash_writes.piece_write [of sha1 "pm_torrent (dm_piece_manager dm)" "Some dio" d0 "dw_disk w" dio i d, OF _ refl hash]
        assms io(2) wr by (simp add: s dm_inv_def)
    have upd: "dm_inv sha1 d0 (dm\<lparr> dm_piece_manager := pm' \<rparr>, w') \<and>
        dm_ident (dm\<lparr> dm_piece_manager := pm' \<rparr>, w') = dm_ident s"
      if "pm_inv sha1 pm'" "pm_ident pm' = pm_ident (dm_piece_manager dm)" "dw_disk w' = disk" "dw_open w' = dw_open w"
      for pm' w'
      using that disk assms io(2) pm_ident_torrent [OF that(2)] by (simp add: s dm_inv_def dm_ident_def)
    show ?thesis
      using rec rd(1) io wr res upd pm1 pm_written_ok [OF pm1(1), of i]
      by (cases res) (simp_all add: s handle_recieve_piece_def Let_def)
  qed
qed

lemma turn_ok:
  assumes "dm_inv sha1 d0 s" "dm_flows s"
  shows "\<exists>s'. turn sha1 x s = Some s' \<and> dm_inv sha1 d0 s' \<and> dm_ident s' = dm_ident s"
proof -
  obtain now received where x: "x = (now, received)" by fastforce
  show ?thesis
  proof (cases received)
    case (Some ev)
    obtain e ip where ev: "ev = (e, ip)" by fastforce
    have "dm_inv sha1 d0 (dm_remove_peer ip (fst s), snd s) \<and>
        dm_ident (dm_remove_peer ip (fst s), snd s) = dm_ident s"
      by (rule dm_frame [OF assms(1)]) (simp_all add: dm_remove_peer_def)
    then show ?thesis
      using handle_bitfield_ok [OF assms(1)] handle_have_ok [OF assms(1)] handle_unchoke_ok [OF assms(1)]
        handle_recieve_ok [OF assms(1)] assms
      by (cases e; cases s) (auto simp: turn_event x Some ev)
  qed (use assms x in simp)
qed

interpretation dm_machine: op_machine "\<lambda>s. dm_inv sha1 d0 s \<and> dm_flows s" "turn sha1" dm_ident
  for sha1 d0
  by unfold_locales (use turn_ok turn_flows in blast)

section \<open>What is sent\<close>

fun is_request :: "manager_command \<Rightarrow> bool" where
  "is_request (CmdRequestBlock _ _ _) = True"
| "is_request _ = False"

definition requests :: "(nat \<times> manager_command) list \<Rightarrow> nat" where
  "requests sent = length (filter (\<lambda>(_, cmd). is_request cmd) sent)"

fun is_unchoke :: "instant \<times> (peer_event \<times> peer_ip) option \<Rightarrow> bool" where
  "is_unchoke (_, Some (PeerUnchoked, _)) = True"
| "is_unchoke _ = False"

lemma requests_send [simp]:
  "\<not> is_request cmd \<Longrightarrow> requests (dw_sent (send_command c cmd w)) = requests (dw_sent w)"
  by (simp add: send_command_def requests_def Let_def)

lemma requests_send_le: "requests (dw_sent (send_command c cmd w)) \<le> requests (dw_sent w) + 1"
  by (simp add: send_command_def requests_def Let_def)

lemma requests_broadcast [simp]: "requests (dw_sent (broadcast_have i dm w)) = requests (dw_sent w)"
proof -
  have "requests (dw_sent (fold (\<lambda>(c, _). send_command c (CmdHavePiece i)) xs w)) = requests (dw_sent w)"
    for xs :: "(nat \<times> bytes option) list"
    by (induction xs arbitrary: w) auto
  then show ?thesis by (simp add: broadcast_have_def)
qed

lemma broadcast_none [simp]: "dm_peers dm = [] \<Longrightarrow> broadcast_have i dm w = w"
  by (simp add: broadcast_have_def hm_values_def)

lemma handle_recieve_requests:
  assumes "handle_recieve_piece sha1 i q data (dm, w) = Some s'"
  shows "requests (dw_sent (snd s')) = requests (dw_sent w) \<and> dm_peers (fst s') = dm_peers dm \<and>
    (dm_peers dm = [] \<longrightarrow> dw_sent (snd s') = dw_sent w)"
  using handle_recieve_sends [OF assms] by auto

lemma turn_requests:
  assumes "turn sha1 x s = Some s'"
  shows "requests (dw_sent (snd s')) \<le> requests (dw_sent (snd s)) + (if is_unchoke x then 1 else 0)"
proof -
  obtain now received dm w where x: "x = (now, received)" and s: "s = (dm, w)" by (metis prod.exhaust)
  show ?thesis
  proof (cases received)
    case (Some ev)
    obtain e ip where ev: "ev = (e, ip)" by fastforce
    note turn = turn_handled [OF assms [unfolded x s Some ev]]
    show ?thesis
    proof (cases e)
      case (ReceivedPiece i b block)
      then show ?thesis using turn handle_recieve_requests [of sha1 i "ucast b" block dm w s'] by (simp add: s)
    next
      case PeerUnchoked
      then show ?thesis using turn requests_send_le
        by (auto simp: s x Some ev handle_unchoke_def request_pieces_from_peer_def
            request_next_block_for_piece_def split: option.split)
    qed (use turn in \<open>auto simp: s handle_bitfield_def handle_have_def Let_def split: option.splits\<close>)
  qed (use assms in \<open>simp add: x\<close>)
qed

lemma run_requests:
  "run_ops (turn sha1) xs s = Some s' \<Longrightarrow>
     requests (dw_sent (snd s')) \<le> requests (dw_sent (snd s)) + length (filter is_unchoke xs)"
proof (induction xs arbitrary: s)
  case (Cons x xs)
  then obtain s1 where s1: "turn sha1 x s = Some s1" "run_ops (turn sha1) xs s1 = Some s'"
    by (auto simp: bind_eq_Some_conv)
  from Cons.IH [OF s1(2)] turn_requests [OF s1(1)] show ?case by auto
qed simp

text \<open>With no peer registered nothing is sent, and no event registers one.\<close>

lemma turn_unregistered:
  assumes "turn sha1 x (dm, w) = Some (dm', w')" "dm_peers dm = []"
  shows "dm_peers dm' = [] \<and> dw_sent w' = dw_sent w"
proof -
  obtain now received where x: "x = (now, received)" by fastforce
  have none: "hm_get (dm_peers dm) ip = None" for ip by (simp add: assms(2))
  show ?thesis
  proof (cases received)
    case (Some ev)
    obtain e ip where ev: "ev = (e, ip)" by fastforce
    note turn = turn_handled [OF assms(1) [unfolded x Some ev]]
    show ?thesis
    proof (cases e)
      case (ReceivedPiece i b block)
      then have rec: "handle_recieve_piece sha1 i (ucast b) block (dm, w) = Some (dm', w')" using turn by simp
      from handle_recieve_requests [OF rec] assms(2) show ?thesis by simp
    qed (use turn assms(2) none in \<open>auto simp: handle_bitfield_def handle_have_def handle_unchoke_def
        request_pieces_from_peer_def request_next_block_for_piece_def dm_remove_peer_def hm_remove_def
        Let_def split: option.splits prod.splits if_splits\<close>)
  qed (use assms in \<open>simp add: x\<close>)
qed

lemma run_unregistered:
  "run_ops (turn sha1) xs (dm, w) = Some (dm', w') \<Longrightarrow> dm_peers dm = [] \<Longrightarrow>
     dm_peers dm' = [] \<and> dw_sent w' = dw_sent w"
proof (induction xs arbitrary: dm w)
  case (Cons x xs)
  then obtain dm1 w1 where s1: "turn sha1 x (dm, w) = Some (dm1, w1)"
    "run_ops (turn sha1) xs (dm1, w1) = Some (dm', w')"
    by (auto simp: bind_eq_Some_conv)
  from turn_unregistered [OF s1(1) Cons.prems(2)] Cons.IH [OF s1(2)] show ?case by simp
qed simp

section \<open>The event loop\<close>

lemma dm_run_ops:
  assumes "dm_run sha1 recv n s = Some s'"
  shows "\<exists>k. run_ops (turn sha1) (map recv [n..<n + Suc k]) s = Some s' \<and>
    is_download_complete (dm_piece_manager (fst s'))"
proof (rule dm_run.raw_induct [OF _ assms, where P = "\<lambda>sha1 recv n s s'.
    \<exists>k. run_ops (turn sha1) (map recv [n..<n + Suc k]) s = Some s' \<and>
      is_download_complete (dm_piece_manager (fst s'))"])
  fix f sha1 recv n s s'
  assume IH: "\<And>sha1 recv n s s'. f sha1 recv n s = Some s' \<Longrightarrow>
      \<exists>k. run_ops (turn sha1) (map recv [n..<n + Suc k]) s = Some s' \<and>
        is_download_complete (dm_piece_manager (fst s'))"
    and step: "Option.bind (turn sha1 (recv n) s) (\<lambda>s.
      if is_download_complete (dm_piece_manager (fst s)) then Some s else f sha1 recv (n + 1) s) = Some s'"
  then obtain s1 where s1: "turn sha1 (recv n) s = Some s1"
    and rest: "(if is_download_complete (dm_piece_manager (fst s1)) then Some s1 else f sha1 recv (n + 1) s1) = Some s'"
    by (auto simp: bind_eq_Some_conv)
  show "\<exists>k. run_ops (turn sha1) (map recv [n..<n + Suc k]) s = Some s' \<and>
      is_download_complete (dm_piece_manager (fst s'))"
  proof (cases "is_download_complete (dm_piece_manager (fst s1))")
    case True
    with rest s1 show ?thesis by (intro exI [of _ 0]) simp
  next
    case False
    with rest IH [of sha1 recv "n + 1" s1 s'] obtain k where
      k: "run_ops (turn sha1) (map recv [n + 1..<n + 1 + Suc k]) s1 = Some s'"
        "is_download_complete (dm_piece_manager (fst s'))" by auto
    have "[n..<n + Suc (Suc k)] = n # [n + 1..<n + 1 + Suc k]" by (simp add: upt_rec)
    with k s1 show ?thesis by (intro exI [of _ "Suc k"]) (simp del: upt_Suc)
  qed
qed

lemma dm_run_closed:
  assumes "dm_run sha1 recv n s = Some s'"
  shows "(\<forall>k \<ge> n. snd (recv k) = None) \<longrightarrow> is_download_complete (dm_piece_manager (fst s))"
proof (rule dm_run.raw_induct [OF _ assms, where P = "\<lambda>sha1 recv n s s'.
    (\<forall>k \<ge> n. snd (recv k) = None) \<longrightarrow> is_download_complete (dm_piece_manager (fst s))"])
  fix f sha1 recv and n :: nat and s s'
  assume IH: "\<And>sha1 recv n s s'. f sha1 recv n s = Some s' \<Longrightarrow>
      (\<forall>k \<ge> n. snd (recv k) = None) \<longrightarrow> is_download_complete (dm_piece_manager (fst s))"
    and step: "Option.bind (turn sha1 (recv n) s) (\<lambda>s.
      if is_download_complete (dm_piece_manager (fst s)) then Some s else f sha1 recv (n + 1) s) = Some s'"
  show "(\<forall>k \<ge> n. snd (recv k) = None) \<longrightarrow> is_download_complete (dm_piece_manager (fst s))"
  proof
    assume closed: "\<forall>k \<ge> n. snd (recv k) = None"
    then have "snd (recv n) = None" by simp
    then obtain now where "recv n = (now, None)" by (cases "recv n") simp
    then have "turn sha1 (recv n) s = Some s" by simp
    with step have "is_download_complete (dm_piece_manager (fst s)) \<or> f sha1 recv (n + 1) s = Some s'"
      by (simp split: if_splits)
    then show "is_download_complete (dm_piece_manager (fst s))"
    proof
      assume "f sha1 recv (n + 1) s = Some s'"
      from IH [OF this] closed show ?thesis by simp
    qed
  qed
qed

section \<open>Properties\<close>

text \<open>
  C37: One numbering of pieces. For a bitfield of at most 512 MiB the pieces the download manager
  lists are exactly those the connection says the peer has, and recording a have message adds
  exactly that piece, or nothing when the bitfield is too short for it.
\<close>

theorem bitfield_views_agree:
  assumes "bitfield s = Some bf" "length bf \<le> 2 ^ 29"
  shows "(i \<in> set (available_pieces bf) \<longleftrightarrow> has_piece s i) \<and>
    (has_piece (s\<lparr> bitfield := Some (set_have j bf) \<rparr>) i \<longleftrightarrow>
       has_piece s i \<or> i = j \<and> unat j div 8 < length bf)"
proof -
  have "length bf < 2 ^ 32" using assms(2) by simp
  then show ?thesis
    using assms by (auto simp: has_piece_iff available_iff set_have_iff word_unat_eq_iff)
qed

theorem bitfield_views_agree_witness:
  "9 \<in> set (available_pieces [128, 64]) \<and>
   has_piece (peer_state_new 0 (Some (set_have 15 [128, 64]))) 15"
proof -
  have "has_piece (peer_state_new 0 (Some [128, 64])) 9"
    by (simp add: has_piece_def peer_state_new_def bit_set_def)
  with bitfield_views_agree [of "peer_state_new 0 (Some [128, 64])" "[128, 64]" 9 9]
    bitfield_views_agree [of "peer_state_new 0 (Some [128, 64])" "[128, 64]" 15 15]
  show ?thesis by (simp add: peer_state_new_def)
qed

text \<open>The manager as a download starts: a disk is set and peers are registered.\<close>

definition start_download ::
  "disk_io \<Rightarrow> (peer_ip \<times> nat) list \<Rightarrow> download_manager \<Rightarrow> download_manager" where
  "start_download dio peers dm = fold (\<lambda>(ip, sender). dm_add_peer ip sender) peers (set_disk_io dio dm)"

lemma start_download_frame [simp]:
  "dm_piece_manager (start_download dio peers dm) = dm_piece_manager dm"
  "dm_disk_io (start_download dio peers dm) = Some dio"
proof -
  have "dm_piece_manager (fold (\<lambda>(ip, sender). dm_add_peer ip sender) peers dm) = dm_piece_manager dm \<and>
      dm_disk_io (fold (\<lambda>(ip, sender). dm_add_peer ip sender) peers dm) = dm_disk_io dm" for dm
    by (induction peers arbitrary: dm) (auto simp: dm_add_peer_def)
  then show "dm_piece_manager (start_download dio peers dm) = dm_piece_manager dm"
    "dm_disk_io (start_download dio peers dm) = Some dio"
    by (simp_all add: start_download_def set_disk_io_def)
qed

text \<open>The senders that were registered.\<close>

lemma start_download_senders:
  assumes "download_manager_new t bs = Some dm"
  shows "dm_senders (start_download dio peers dm) \<subseteq> snd ` set peers"
proof -
  have "dm_senders (fold (\<lambda>(ip, sender). dm_add_peer ip sender) peers dm) \<subseteq> dm_senders dm \<union> snd ` set peers" for dm
  proof (induction peers arbitrary: dm)
    case (Cons p peers)
    have "dm_senders (dm_add_peer (fst p) (snd p) dm) \<subseteq> insert (snd p) (dm_senders dm)"
      using set_hm_values_insert [of "fst p" "(snd p, None)" "dm_peers dm"] by (auto simp: dm_senders_def dm_add_peer_def)
    with Cons.IH [of "dm_add_peer (fst p) (snd p) dm"] show ?case by (auto simp: split_beta)
  qed simp
  moreover have "dm_senders (set_disk_io dio dm) = {}"
    using assms by (auto simp: download_manager_new_def set_disk_io_def dm_senders_def hm_values_def)
  ultimately show ?thesis unfolding start_download_def by blast
qed

definition commands_taken :: "(peer_ip \<times> nat) list \<Rightarrow> dm_world \<Rightarrow> bool" where
  "commands_taken peers w \<longleftrightarrow> \<not> dw_waiting w \<and>
     (\<forall>(ip, sender) \<in> set peers. dw_open w sender \<longrightarrow> (\<forall>n. dw_takes w sender n))"

lemma dm_flows_start:
  "download_manager_new t bs = Some dm \<Longrightarrow> commands_taken peers w \<Longrightarrow> dm_flows (start_download dio peers dm, w)"
  using start_download_senders [of t bs dm dio peers]
  by (fastforce simp: dm_flows_def commands_taken_def takes_all_def)

lemma download_manager_new_piece_manager:
  "download_manager_new t bs = Some dm \<Longrightarrow> piece_manager_new t bs = Some (dm_piece_manager dm)"
  by (auto simp: download_manager_new_def)

lemma dm_inv_start:
  assumes "download_manager_new t bs = Some dm" "piece_count t \<le> 2 ^ 32"
    and "length (dio_files dio) = length (entry_sizes (dio_file_details dio))"
  shows "dm_inv sha1 (dw_disk w) (start_download dio peers dm, w)"
  using pm_inv_new [OF download_manager_new_piece_manager [OF assms(1)] assms(2)] assms(3)
  by (simp add: dm_inv_def disk_ready_def hash_writes.start)

text \<open>
  Nothing unverified reaches the disk. From the start of a download with any registered peers that take their
  commands, whatever events arrive in whatever order, every turn of the event loop returns, and all that has happened
  to the disk is a series of piece writes whose data has the hash the torrent gives for that piece.
\<close>

theorem download_disk_integrity:
  assumes "download_manager_new t bs = Some dm" "piece_count t \<le> 2 ^ 32"
    and "length (dio_files dio) = length (entry_sizes (dio_file_details dio))" "commands_taken peers w"
  shows "\<exists>s. run_ops (turn sha1) events (start_download dio peers dm, w) = Some s \<and>
    hash_writes sha1 t (Some dio) (dw_disk w) (dw_disk (snd s))"
proof -
  have "pm_torrent (dm_piece_manager dm) = t"
    using download_manager_new_piece_manager [OF assms(1)]
    by (auto simp: piece_manager_new_def dest: arg_cong [where f = pm_torrent])
  moreover from dm_machine.run_ok [OF conjI [OF dm_inv_start [OF assms(1-3)] dm_flows_start [OF assms(1,4)]],
      where xs = events] obtain s where
    "run_ops (turn sha1) events (start_download dio peers dm, w) = Some s"
    "dm_inv sha1 (dw_disk w) s" "dm_ident s = dm_ident (start_download dio peers dm, w)" by blast
  ultimately show ?thesis
    by (auto simp: dm_inv_def dm_ident_def pm_ident_def)
qed

text \<open>A disk that holds the one file of the sample torrent.\<close>

definition sample_single :: disk_io where
  "sample_single = \<lparr> dio_base_path = [], dio_file_details = SingleFile 4, dio_piece_length = 4,
     dio_files = [1], dio_total_size = 4 \<rparr>"

definition sample_dm_world :: dm_world where
  "sample_dm_world = \<lparr> dw_disk = \<lparr> d_mkdir = (\<lambda>_. True), d_resolve = (\<lambda>_. Some 1), d_content = (\<lambda>_. [0, 0, 0, 0]) \<rparr>,
     dw_open = (\<lambda>_. True), dw_takes = (\<lambda>_ _. True), dw_sent = [], dw_waiting = False \<rparr>"

lemma sample_taken: "commands_taken peers sample_dm_world"
  by (auto simp: commands_taken_def sample_dm_world_def)

definition sample_dm :: download_manager where
  "sample_dm = the (download_manager_new sample_torrent 2)"

lemma sample_dm_new: "download_manager_new sample_torrent 2 = Some sample_dm"
  by (simp add: sample_dm_def download_manager_new_def sample_new)

lemma sample_single_new:
  "disk_io_new [] (SingleFile 4) 4 (dw_disk sample_dm_world) = (dw_disk sample_dm_world, Ok sample_single)"
  by (auto simp: disk_io_new_def open_file_def sample_dm_world_def sample_single_def set_content_def
      resize_def fun_eq_iff)

theorem download_disk_integrity_witness:
  "\<exists>s. run_ops (turn (\<lambda>_. replicate 20 7))
      [(0, Some (ReceivedPiece 0 2 [3, 4], [5])), (1, Some (PeerUnchoked, [5])), (2, None)]
      (start_download sample_single [([5], 0)] sample_dm, sample_dm_world) = Some s \<and>
    hash_writes (\<lambda>_. replicate 20 7) sample_torrent (Some sample_single) (dw_disk sample_dm_world) (dw_disk (snd s))"
  by (rule download_disk_integrity [OF sample_dm_new])
    (simp_all add: sample_count sample_single_def entry_sizes_def sample_taken)

text \<open>
  C33: One request per unchoke. Over any series of events the manager sends at most one block request
  for each unchoke it handles; a received block, which the code means to follow with the next
  request, never causes one. A peer that unchokes once is asked for a single block.
\<close>

theorem one_request_per_unchoke:
  assumes "run_ops (turn sha1) events (dm, w) = Some (dm', w')"
  shows "requests (dw_sent w') \<le> requests (dw_sent w) + length (filter is_unchoke events)"
  using run_requests [OF assms] by simp

theorem one_request_per_unchoke_witness:
  "\<exists>dm' w'. run_ops (turn (\<lambda>_. replicate 20 7))
      [(0, Some (PeerUnchoked, [5])), (1, Some (ReceivedPiece 0 0 [1, 2], [5])), (2, Some (ReceivedPiece 0 2 [3, 4], [5]))]
      (start_download sample_single [([5], 0)] sample_dm, sample_dm_world) = Some (dm', w') \<and>
    requests (dw_sent w') \<le> 1"
proof -
  let ?events = "[(0, Some (PeerUnchoked, [5])), (1, Some (ReceivedPiece 0 0 [1, 2], [5])),
    (2, Some (ReceivedPiece 0 2 [3, 4], [5]))] :: (instant \<times> (peer_event \<times> peer_ip) option) list"
  let ?s = "(start_download sample_single [([5], 0)] sample_dm, sample_dm_world)"
  have "dm_inv (\<lambda>_. replicate 20 7) (dw_disk sample_dm_world) ?s"
    by (rule dm_inv_start [OF sample_dm_new])
      (simp_all add: sample_count sample_single_def entry_sizes_def)
  from dm_machine.run_total [OF conjI [OF this dm_flows_start [OF sample_dm_new sample_taken]], where xs = ?events] obtain dm' w' where
    run: "run_ops (turn (\<lambda>_. replicate 20 7)) ?events ?s = Some (dm', w')" by fastforce
  from one_request_per_unchoke [OF run] have "requests (dw_sent w') \<le> 1"
    by (simp add: sample_dm_world_def requests_def)
  with run show ?thesis by blast
qed

text \<open>
  A manager no peer is registered with never sends anything. No event registers a peer, so
  when \<open>add_peer\<close> was not called, as in \<open>main\<close>, no interest, request or have message goes out,
  however many peers are connected and whatever they say.
\<close>

theorem unregistered_manager_is_silent:
  assumes "download_manager_new t bs = Some dm"
    and "run_ops (turn sha1) events (start_download dio [] dm, w) = Some (dm', w')"
  shows "dw_sent w' = dw_sent w \<and> dm_peers dm' = []"
proof -
  have "dm_peers (start_download dio [] dm) = []"
    using assms(1) by (auto simp: download_manager_new_def start_download_def set_disk_io_def)
  from run_unregistered [OF assms(2) this] show ?thesis by simp
qed

theorem unregistered_manager_is_silent_witness:
  "\<exists>dm' w'. run_ops (turn (\<lambda>_. replicate 20 7))
      [(0, Some (ReceivedBitfield [128], [5])), (1, Some (PeerUnchoked, [5]))]
      (start_download sample_single [] sample_dm, sample_dm_world) = Some (dm', w') \<and> dw_sent w' = []"
proof -
  let ?events = "[(0, Some (ReceivedBitfield [128], [5])), (1, Some (PeerUnchoked, [5]))]
    :: (instant \<times> (peer_event \<times> peer_ip) option) list"
  let ?s = "(start_download sample_single [] sample_dm, sample_dm_world)"
  have "dm_inv (\<lambda>_. replicate 20 7) (dw_disk sample_dm_world) ?s"
    by (rule dm_inv_start [OF sample_dm_new])
      (simp_all add: sample_count sample_single_def entry_sizes_def)
  from dm_machine.run_total [OF conjI [OF this dm_flows_start [OF sample_dm_new sample_taken]], where xs = ?events] obtain dm' w' where
    run: "run_ops (turn (\<lambda>_. replicate 20 7)) ?events ?s = Some (dm', w')" by fastforce
  from unregistered_manager_is_silent [OF sample_dm_new run] have "dw_sent w' = []"
    by (simp add: sample_dm_world_def)
  with run show ?thesis by blast
qed

text \<open>
  One peer can stop the whole download. When the queue of a registered connection is full and it takes no more commands, the
  first event that makes the manager send to it is the last it handles: the event loop never returns.
\<close>

theorem full_queue_stops_manager:
  assumes "hm_get (dm_peers dm) ip = Some (k, old)" "dw_open w k"
    and "command_capacity \<le> sent_to k w" "\<not> dw_takes w k (sent_to k w - command_capacity)"
    and "get_next_piece_to_download (available_pieces bf) (dm_piece_manager dm) \<noteq> None"
    and "recv n = (now, Some (ReceivedBitfield bf, ip))"
  shows "dm_run sha1 recv n (dm, w) = None"
proof -
  have "dw_waiting (send_command k CmdInterested w)" using assms(2-4) by (simp add: send_command_def Let_def)
  then have "turn sha1 (recv n) (dm, w) = None"
    using assms(1,5) by (simp add: turn_def assms(6) handle_bitfield_def Let_def peer_has_needed_pieces_def
        get_peer_available_pieces_def)
  then show ?thesis by (subst dm_run.simps) simp
qed

text \<open>
  C40: The event loop spins when the connections are gone. Once the channel gives nothing any more and
  the download is not complete, \<open>run\<close> never returns: a closed channel is polled again for ever.
\<close>

theorem closed_channel_spins:
  assumes "\<And>k. n \<le> k \<Longrightarrow> snd (recv k) = None" "\<not> is_download_complete (dm_piece_manager (fst s))"
  shows "dm_run sha1 recv n s = None"
proof (rule ccontr)
  assume "dm_run sha1 recv n s \<noteq> None"
  then obtain s' where "dm_run sha1 recv n s = Some s'" by blast
  from dm_run_closed [OF this] assms show False by blast
qed

theorem closed_channel_spins_witness:
  "dm_run (\<lambda>_. []) (\<lambda>n. (n, None)) 0 (start_download sample_single [] sample_dm, sample_dm_world) = None"
proof (rule closed_channel_spins)
  have "p_state (new_piece (t_info sample_torrent) 2 0) = PieceMissing"
    by (rule new_piece_state [OF sample_fits]) (simp add: sample_torrent_def)
  then show "\<not> is_download_complete
      (dm_piece_manager (fst (start_download sample_single [] sample_dm, sample_dm_world)))"
    by (simp add: sample_dm_def download_manager_new_def sample_new is_download_complete_def
        hm_values_def piece_is_complete_def)
qed simp

end
