(* ===== verification/Download_Disk.thy ===== *)
theory Download_Disk
  imports Download_Facts
begin

text \<open>
  What a download needs of the disk: \<open>download_manager.rs\<close> over \<open>disk_io.rs\<close>. The interface is a locale: writing
  a good piece does not panic, keeps what is known of the disk, and puts the piece there unless the write
  fails. A torrent of one file below 4 GiB never fails; with several files the writes may
  go wrong, and less is promised.
\<close>

section \<open>The content of a torrent\<close>

definition block_count :: "torrent \<Rightarrow> u32 \<Rightarrow> nat" where
  "block_count t bs = nblocks (piece_length (t_info t)) bs"

text \<open>The data of a piece was received, block by block.\<close>

definition assembled ::
  "torrent \<Rightarrow> u32 \<Rightarrow> (u32 \<Rightarrow> u64 \<Rightarrow> bytes \<Rightarrow> bool) \<Rightarrow> u32 \<Rightarrow> bytes \<Rightarrow> bool" where
  "assembled t bs heard j x \<longleftrightarrow>
     (\<forall>k < block_count t bs. heard j (off bs k) (part x (piece_length (t_info t)) bs k))"

definition slice_of :: "torrent \<Rightarrow> bytes \<Rightarrow> nat \<Rightarrow> bytes" where
  "slice_of t d i =
    (let n = unat (piece_length (t_info t)) in take n (drop (i * n) d))"

text \<open>The content has the hashes of the torrent, in whole pieces.\<close>

definition content_of :: "(bytes \<Rightarrow> bytes) \<Rightarrow> torrent \<Rightarrow> bytes \<Rightarrow> bool" where
  "content_of sha1 t d \<longleftrightarrow> length d = piece_count t * unat (piece_length (t_info t)) \<and>
     piece_length (t_info t) \<noteq> 0 \<and>
     (\<forall>i < piece_count t. piece_hash (t_info t) i = Some (sha1 (slice_of t d i)))"

lemma slice_length:
  assumes "length d = piece_count t * unat (piece_length (t_info t))" "i < piece_count t"
  shows "length (slice_of t d i) = unat (piece_length (t_info t))"
proof -
  have "(i + 1) * unat (piece_length (t_info t)) \<le> length d"
    using assms by (simp only: mult_le_mono1 Suc_eq_plus1 [symmetric] Suc_le_eq)
  then show ?thesis by (simp add: slice_of_def Let_def)
qed

lemma slices_all:
  assumes len: "length x = n * m" "length d = n * m"
    and slices: "\<And>i. i < n \<Longrightarrow> take m (drop (i * m) x) = take m (drop (i * m) d)"
  shows "x = d"
proof (rule nth_equalityI)
  show "length x = length d" by (simp add: len)
next
  fix j assume "j < length x"
  then have j: "j < n * m" by (simp add: len)
  then have m: "0 < m" by (cases m) auto
  then have i: "j div m < n" using j by (simp add: div_less_iff_less_mult)
  have "j mod m < m" using m by simp
  have "j div m * m \<le> j" by (rule div_times_less_eq_dividend)
  then have le: "j div m * m \<le> n * m" using j by linarith
  then have "take m (drop (j div m * m) x) ! (j mod m) = x ! (j div m * m + j mod m)"
    and "take m (drop (j div m * m) d) ! (j mod m) = d ! (j div m * m + j mod m)"
    using \<open>j mod m < m\<close> le len by (simp_all only: nth_take nth_drop div_mult_mod_eq)
  with slices [OF i] show "x ! j = d ! j" by simp
qed

section \<open>One file\<close>

text \<open>The disk side: one file of the size of the content, with the torrent's piece length.\<close>

definition disk_fits :: "torrent \<Rightarrow> disk_io \<Rightarrow> disk \<Rightarrow> bool" where
  "disk_fits t dio d \<longleftrightarrow> disk_wf dio d \<and> (\<exists>n. dio_file_details dio = SingleFile n) \<and>
     unat (dio_piece_length dio) = unat (piece_length (t_info t)) \<and>
     unat (dio_total_size dio) = piece_count t * unat (piece_length (t_info t)) \<and>
     unat (dio_total_size dio) < 2 ^ 32"

text \<open>A torrent of one file that is a whole number of pieces, below 4 GiB.\<close>

definition single_whole :: "torrent \<Rightarrow> bool" where
  "single_whole t \<longleftrightarrow> (\<exists>n. info_files (t_info t) = SingleFile n \<and>
     unat n = piece_count t * unat (piece_length (t_info t)) \<and> unat n < 2 ^ 32)"

lemma disk_fits_new:
  assumes whole: "single_whole t" and pos: "0 < piece_count t"
    and new: "disk_io_new base (info_files (t_info t)) (ucast (piece_length (t_info t))) d0 = (d, Ok dio)"
  shows "disk_fits t dio d"
proof -
  from whole obtain n where n: "info_files (t_info t) = SingleFile n"
    "unat n = piece_count t * unat (piece_length (t_info t))" "unat n < 2 ^ 32" by (auto simp: single_whole_def)
  have files: "length (dio_files dio) = 1" and total: "dio_total_size dio = n"
    using new by (auto simp: disk_io_new_def n(1) split: if_splits prod.splits)
  then have "distinct (dio_files dio)" by (auto simp: length_Suc_conv)
  moreover have "sum_list (entry_sizes (info_files (t_info t))) < 2 ^ 64"
    using n(3) by (simp add: n(1) entry_sizes_def)
  ultimately have wf: "disk_wf dio d" "dio_file_details dio = SingleFile n"
    "dio_piece_length dio = ucast (piece_length (t_info t))"
    using disk_io_new_wf [OF new] n(1) by simp_all
  have "unat (piece_length (t_info t)) \<le> unat n" using n(2) pos by simp
  then have "unat (piece_length (t_info t)) < 2 ^ 32" using n(3) by linarith
  then have "unat (dio_piece_length dio) = unat (piece_length (t_info t))"
    unfolding wf(3) by (rule unat_down32)
  with wf n total show ?thesis by (simp add: disk_fits_def)
qed

text \<open>The number of pieces then fits 32 bits.\<close>

lemma single_whole_count:
  assumes "single_whole t" "piece_length (t_info t) \<noteq> 0"
  shows "piece_count t \<le> 2 ^ 32"
proof -
  have "0 < unat (piece_length (t_info t))" using assms(2) by (simp add: unat_gt_0)
  then have "piece_count t \<le> piece_count t * unat (piece_length (t_info t))" by (cases "unat (piece_length (t_info t))") simp_all
  also have "\<dots> < 2 ^ 32" using assms(1) by (auto simp: single_whole_def)
  finally show ?thesis by simp
qed

lemma disk_fits_range:
  assumes "disk_fits t dio d" "i < piece_count t" "piece_count t \<le> 2 ^ 32" "piece_length (t_info t) \<noteq> 0"
  shows "in_range dio (word_of_nat i)" "piece_start dio (word_of_nat i) = i * unat (piece_length (t_info t))"
    "piece_extent dio (word_of_nat i) = unat (piece_length (t_info t))"
proof -
  let ?L = "unat (piece_length (t_info t))"
  have i: "unat (word_of_nat i :: u32) = i" by (rule unat_word_of_nat32) (use assms in simp)
  have L: "0 < ?L" using assms(4) by (simp add: unat_gt_0)
  have fits: "i * ?L + ?L \<le> piece_count t * ?L"
    using assms(2) by (metis Suc_leI add.commute mult_Suc mult_le_mono1)
  show start: "piece_start dio (word_of_nat i) = i * ?L"
    using assms(1) i by (simp add: piece_start_def disk_fits_def)
  show "in_range dio (word_of_nat i)"
    using assms(1,2) fits L start by (auto simp: in_range_def disk_fits_def)
  show "piece_extent dio (word_of_nat i) = ?L"
    using assms(1) fits start by (simp add: piece_extent_def disk_fits_def)
qed

definition image_slice :: "torrent \<Rightarrow> disk_io \<Rightarrow> disk \<Rightarrow> nat \<Rightarrow> bytes" where
  "image_slice t dio disk i =
    (let n = unat (piece_length (t_info t)) in take n (drop (i * n) (torrent_image dio disk)))"

definition on_disk :: "(bytes \<Rightarrow> bytes) \<Rightarrow> torrent \<Rightarrow> disk_io \<Rightarrow> disk \<Rightarrow> nat \<Rightarrow> bool" where
  "on_disk sha1 t dio disk i \<longleftrightarrow> piece_hash (t_info t) i = Some (sha1 (image_slice t dio disk i))"

text \<open>The write of a piece changes its slice of the file and no other.\<close>

lemma write_slice:
  assumes fits: "disk_fits t dio disk" and i: "unat j < piece_count t" and count: "piece_count t \<le> 2 ^ 32"
    and L: "piece_length (t_info t) \<noteq> 0" and len: "length x = unat (piece_length (t_info t))"
  obtains disk' where "write_piece dio j x disk = (disk', Ok ())" "disk_fits t dio disk'"
    "image_slice t dio disk' (unat j) = x"
    "\<And>i. i < piece_count t \<Longrightarrow> i \<noteq> unat j \<Longrightarrow> image_slice t dio disk' i = image_slice t dio disk i"
proof -
  let ?L = "unat (piece_length (t_info t))"
  have "word_of_nat (unat j) = j" by simp
  note range = disk_fits_range [OF fits i count L, unfolded this]
  from fits obtain n where wf: "disk_wf dio disk" "dio_file_details dio = SingleFile n"
    by (auto simp: disk_fits_def)
  have ext: "length x = piece_extent dio j" using len range(3) by simp
  from write_piece_single [OF wf(1) range(1) wf(2) ext] obtain disk' where
    wr: "write_piece dio j x disk = (disk', Ok ())" "disk_wf dio disk'"
      "torrent_image dio disk' = splice (torrent_image dio disk) (unat j * ?L) x"
    unfolding range(2) by metis
  have inside: "unat j * ?L + length x \<le> length (torrent_image dio disk)"
    using in_range_fits [OF range(1)] range len by (simp add: length_image [OF wf(1)])
  have "image_slice t dio disk' i = image_slice t dio disk i" if i': "i < piece_count t" "i \<noteq> unat j" for i
  proof -
    note range_i = disk_fits_range [OF fits i'(1) count L]
    have "unat (word_of_nat i :: u32) = i" by (rule unat_word_of_nat32) (use i' count in simp)
    with i' have "j \<noteq> word_of_nat i" by auto
    from pieces_disjoint [OF this, of dio] splice_other [OF inside, of "i * ?L" ?L] range range_i len
    show ?thesis by (auto simp: wr(3) image_slice_def Let_def)
  qed
  moreover have "image_slice t dio disk' (unat j) = x"
    using splice_same [OF inside] len by (simp add: wr(3) image_slice_def Let_def)
  moreover have "disk_fits t dio disk'" using fits wr(2) by (simp add: disk_fits_def)
  ultimately show thesis using that wr(1) by blast
qed

section \<open>The interface\<close>

text \<open>
  \<open>D\<close> is what holds of the disk throughout, \<open>B\<close> what is known once a piece has been written, and \<open>lossy\<close> says
  that a write may fail.
\<close>

locale piece_writer =
  fixes t :: torrent and dio :: disk_io and good :: "u32 \<Rightarrow> bytes \<Rightarrow> bool"
    and D :: "disk \<Rightarrow> bool" and B :: "disk \<Rightarrow> nat \<Rightarrow> bool" and lossy :: bool
  assumes writes: "D d \<Longrightarrow> unat j < piece_count t \<Longrightarrow> good j x \<Longrightarrow> write_piece dio j x d = (d', r) \<Longrightarrow>
    r \<noteq> Panic \<and> D d' \<and> (r = Ok () \<or> lossy) \<and> (r = Ok () \<longrightarrow> B d' (unat j)) \<and>
    (\<forall>i < piece_count t. i \<noteq> unat j \<longrightarrow> B d i \<longrightarrow> B d' i)"

text \<open>
  For peers that send the content, the good data of a piece is its slice; for others, data with its hash, made of
  blocks that were received: \<open>heard\<close> is what is known of those.
\<close>

locale slice_writer = piece_writer +
  fixes content :: bytes
  assumes good_slice: "good j (slice_of t content (unat j))"

locale hash_writer = piece_writer +
  fixes sha1 :: "bytes \<Rightarrow> bytes" and heard :: "u32 \<Rightarrow> u64 \<Rightarrow> bytes \<Rightarrow> bool" and bs :: u32
  assumes good_hash: "piece_hash (t_info t) (unat j) = Some (sha1 x) \<Longrightarrow>
    length x = unat (piece_length (t_info t)) \<Longrightarrow> assembled t bs heard j x \<Longrightarrow> good j x"

text \<open>A single file: no write fails, and a piece that was written stays.\<close>

definition single_disk :: "torrent \<Rightarrow> disk_io \<Rightarrow> disk \<Rightarrow> bool" where
  "single_disk t dio d \<longleftrightarrow> disk_fits t dio d \<and> piece_count t \<le> 2 ^ 32 \<and> piece_length (t_info t) \<noteq> 0"

lemma single_disk_write:
  assumes "single_disk t dio d" "unat j < piece_count t" "length x = unat (piece_length (t_info t))"
    and "write_piece dio j x d = (d', r)"
  shows "r = Ok () \<and> single_disk t dio d' \<and> image_slice t dio d' (unat j) = x \<and>
    (\<forall>i < piece_count t. i \<noteq> unat j \<longrightarrow> image_slice t dio d' i = image_slice t dio d i)"
  using write_slice [of t dio d j x] assms by (auto simp: single_disk_def)

interpretation slices: slice_writer t dio "\<lambda>j x. x = slice_of t content (unat j)"
  "\<lambda>d. single_disk t dio d \<and> length content = piece_count t * unat (piece_length (t_info t))"
  "\<lambda>d i. image_slice t dio d i = slice_of t content i" False content
  for t dio content
proof unfold_locales
  fix d j x d' and r :: "(disk_error, unit) outcome"
  assume d: "single_disk t dio d \<and> length content = piece_count t * unat (piece_length (t_info t))"
    and j: "unat j < piece_count t" and x: "x = slice_of t content (unat j)" and wr: "write_piece dio j x d = (d', r)"
  have "length x = unat (piece_length (t_info t))" using slice_length d j x by blast
  from single_disk_write [OF _ j this wr] d x
  show "r \<noteq> Panic \<and> (single_disk t dio d' \<and> length content = piece_count t * unat (piece_length (t_info t))) \<and>
    (r = Ok () \<or> False) \<and> (r = Ok () \<longrightarrow> image_slice t dio d' (unat j) = slice_of t content (unat j)) \<and>
    (\<forall>i < piece_count t. i \<noteq> unat j \<longrightarrow> image_slice t dio d i = slice_of t content i \<longrightarrow>
      image_slice t dio d' i = slice_of t content i)" by simp
qed simp

interpretation hashes: hash_writer t dio
  "\<lambda>j x. piece_hash (t_info t) (unat j) = Some (sha1 x) \<and> length x = unat (piece_length (t_info t))"
  "single_disk t dio" "on_disk sha1 t dio" False sha1 "\<lambda>_ _ _. True" bs
  for t dio sha1 bs
proof unfold_locales
  fix d j x d' and r :: "(disk_error, unit) outcome"
  assume d: "single_disk t dio d" and j: "unat j < piece_count t"
    and x: "piece_hash (t_info t) (unat j) = Some (sha1 x) \<and> length x = unat (piece_length (t_info t))"
    and wr: "write_piece dio j x d = (d', r)"
  from single_disk_write [OF d j _ wr] x
  show "r \<noteq> Panic \<and> single_disk t dio d' \<and> (r = Ok () \<or> False) \<and> (r = Ok () \<longrightarrow> on_disk sha1 t dio d' (unat j)) \<and>
    (\<forall>i < piece_count t. i \<noteq> unat j \<longrightarrow> on_disk sha1 t dio d i \<longrightarrow> on_disk sha1 t dio d' i)"
    by (simp add: on_disk_def)
qed simp

text \<open>
  Any files at all: a write does not panic, whatever it does to the disk, and the disk is the result of writes of
  data with the hash and the length of a piece.
\<close>

inductive exact_writes :: "(bytes \<Rightarrow> bytes) \<Rightarrow> torrent \<Rightarrow> disk_io \<Rightarrow> disk \<Rightarrow> disk \<Rightarrow> bool"
  for sha1 t dio d0 where
  start: "exact_writes sha1 t dio d0 d0"
| piece_write: "exact_writes sha1 t dio d0 d \<Longrightarrow> unat i < piece_count t \<Longrightarrow>
    piece_hash (t_info t) (unat i) = Some (sha1 data) \<Longrightarrow> length data = unat (piece_length (t_info t)) \<Longrightarrow>
    exact_writes sha1 t dio d0 (fst (write_piece dio i data d))"

text \<open>Data with the hash and the length of a piece was received.\<close>

definition has_data ::
  "(bytes \<Rightarrow> bytes) \<Rightarrow> torrent \<Rightarrow> u32 \<Rightarrow> (u32 \<Rightarrow> u64 \<Rightarrow> bytes \<Rightarrow> bool) \<Rightarrow> nat \<Rightarrow> bool" where
  "has_data sha1 t bs heard i \<longleftrightarrow>
     (\<exists>x. piece_hash (t_info t) i = Some (sha1 x) \<and> length x = unat (piece_length (t_info t)) \<and>
        assembled t bs heard (word_of_nat i) x)"

definition files_open :: "disk_io \<Rightarrow> bool" where
  "files_open dio \<longleftrightarrow> length (dio_files dio) = length (entry_sizes (dio_file_details dio))"

lemma open_files_length:
  "open_files base fs files n d = (d', Ok (files', n')) \<Longrightarrow> length files' = length files + length fs"
  by (induction base fs files n d rule: open_files.induct) (auto split: outcome.splits prod.splits)

lemma disk_io_new_files:
  assumes "disk_io_new base details plen d = (d', Ok dio)"
  shows "files_open dio \<and> dio_file_details dio = details \<and> dio_piece_length dio = plen"
  using assms
  by (auto simp: files_open_def disk_io_new_def entry_sizes_def split: if_splits prod.splits file_details.splits
      dest: open_files_length)

lemma files_open_no_panic: "files_open dio \<Longrightarrow> write_piece dio j x d = (d', r) \<Longrightarrow> r \<noteq> Panic"
  using write_piece_no_panic [of dio j x d] by (simp add: files_open_def)

interpretation any: slice_writer t dio "\<lambda>_ _. True" "\<lambda>_. files_open dio" "\<lambda>_ _. True" True content
  for t dio content
  by unfold_locales (use files_open_no_panic in blast)+

interpretation exact: hash_writer t dio
  "\<lambda>j x. piece_hash (t_info t) (unat j) = Some (sha1 x) \<and> length x = unat (piece_length (t_info t)) \<and>
     assembled t bs heard j x"
  "\<lambda>d. files_open dio \<and> exact_writes sha1 t dio d0 d" "\<lambda>_. has_data sha1 t bs heard" True sha1 heard bs
  for t dio sha1 heard bs d0
proof unfold_locales
  fix d j x d' and r :: "(disk_error, unit) outcome"
  assume d: "files_open dio \<and> exact_writes sha1 t dio d0 d" and j: "unat j < piece_count t"
    and x: "piece_hash (t_info t) (unat j) = Some (sha1 x) \<and> length x = unat (piece_length (t_info t)) \<and>
      assembled t bs heard j x"
    and wr: "write_piece dio j x d = (d', r)"
  have "exact_writes sha1 t dio d0 d'" using piece_write [of sha1 t dio d0 d j x] d j x wr by simp
  with files_open_no_panic [OF _ wr] d x
  show "r \<noteq> Panic \<and> (files_open dio \<and> exact_writes sha1 t dio d0 d') \<and> (r = Ok () \<or> True) \<and>
    (r = Ok () \<longrightarrow> has_data sha1 t bs heard (unat j)) \<and>
    (\<forall>i < piece_count t. i \<noteq> unat j \<longrightarrow> has_data sha1 t bs heard i \<longrightarrow> has_data sha1 t bs heard i)"
    by (auto simp: has_data_def)
qed simp

end
