(* ===== verification/Download_Complete.thy ===== *)
theory Download_Complete
  imports Download_Disk
begin

text \<open>
  The download as a whole: \<open>download_manager.rs\<close> over \<open>piece_manager.rs\<close>, \<open>piece.rs\<close> and \<open>disk_io.rs\<close>,
  for a torrent of whole pieces. As long as every block that arrives is a block of the content, the pieces
  follow the set of blocks received, and the disk does what the interface \<open>slice_writer\<close> says; when all
  blocks have been received the event loop returns, and a single file is then the content.
\<close>

section \<open>The blocks of the content\<close>

text \<open>The \<open>k\<close>-th block of piece \<open>i\<close>, as a peer sends it.\<close>

definition block_event :: "torrent \<Rightarrow> u32 \<Rightarrow> bytes \<Rightarrow> nat \<Rightarrow> nat \<Rightarrow> peer_event" where
  "block_event t bs d i k =
    ReceivedPiece (word_of_nat i) (ucast (off bs k)) (part (slice_of t d i) (piece_length (t_info t)) bs k)"

text \<open>An event that, if it is a block, is a block of the content.\<close>

definition honest_event :: "torrent \<Rightarrow> u32 \<Rightarrow> bytes \<Rightarrow> peer_event \<Rightarrow> bool" where
  "honest_event t bs d e \<longleftrightarrow>
     (\<forall>i q x. e = ReceivedPiece i q x \<longrightarrow>
        (\<exists>j k. j < piece_count t \<and> k < block_count t bs \<and> e = block_event t bs d j k))"

lemma content_length: "content_of sha1 t d \<Longrightarrow> length d = piece_count t * unat (piece_length (t_info t))"
  by (simp add: content_of_def)

lemma delivered_complete_iff:
  assumes "delivered d K p" "piece_id p = (i, len, h, bs)"
  shows "piece_is_complete p \<longleftrightarrow> {..<nblocks len bs} \<subseteq> K"
  using assms by (auto simp: delivered_def piece_id_def piece_is_complete_def split: if_splits)

lemma delivered_content:
  assumes "delivered d K p" "{..<nblocks (p_length p) (p_block_size p)} \<subseteq> K" "length d = unat (p_length p)"
  shows "piece_content p = Some d"
proof (rule content_parts [OF _ assms(3)])
  show "piece_layout p" using assms(1) by (simp add: delivered_def)
  fix k assume "k < nblocks (p_length p) (p_block_size p)"
  with delivered_block_data [OF assms(1) this] assms(2)
  show "block_data p (off (p_block_size p) k) = Some (part d (p_length p) (p_block_size p) k)" by auto
qed

text \<open>What a piece that has become complete hands out.\<close>

lemma delivered_data:
  assumes "delivered d K p" "{..<nblocks (p_length p) (p_block_size p)} \<subseteq> K" "length d = unat (p_length p)"
    and "p_state p \<noteq> PieceWritten" "piece_is_complete p"
  shows "piece_get_data p = Some (Some d)"
proof -
  have "p_state p = PieceComplete" using assms(4,5) by (simp add: piece_is_complete_def)
  moreover have "piece_layout p" using assms(1) by (simp add: delivered_def)
  ultimately show ?thesis using delivered_content [OF assms(1-3)] by (simp add: piece_get_data_eq)
qed

lemma off_small:
  assumes "k < block_count t bs" "piece_fits (piece_length (t_info t)) bs"
  shows "ucast (ucast (off bs k) :: u32) = off bs k"
proof -
  have "unat (off bs k) = k * unat bs"
    using unat_off [OF assms(2), of k] assms(1) by (simp add: block_count_def)
  also have "\<dots> < unat (piece_length (t_info t))"
    using less_nblocks_iff [OF assms(2), of k] assms(1) by (simp add: block_count_def)
  finally have "unat (off bs k) < 2 ^ 32" using assms(2) by (simp add: piece_fits_def)
  then have "unat (ucast (ucast (off bs k) :: u32) :: u64) = unat (off bs k)" by (simp add: unat_down32)
  then show ?thesis by (simp only: word_unat_eq_iff)
qed

lemma block_event_inj:
  assumes "piece_fits (piece_length (t_info t)) bs" "piece_count t \<le> 2 ^ 32"
    and "i < piece_count t" "j < piece_count t" "k < block_count t bs" "l < block_count t bs"
    and "block_event t bs d i k = block_event t bs d j l"
  shows "i = j \<and> k = l"
proof -
  have w: "(word_of_nat i :: u32) = word_of_nat j" "(ucast (off bs k) :: u32) = ucast (off bs l)"
    using assms(7) by (simp_all only: block_event_def peer_event.inject)
  have "i < 2 ^ 32" "j < 2 ^ 32" using assms(2,3,4) by linarith+
  with w(1) have "i = j" by (simp only: word_of_nat_u32_inj)
  moreover from w(2) have "off bs k = off bs l"
    using off_small [OF assms(5,1)] off_small [OF assms(6,1)] by metis
  ultimately show ?thesis
    using off_inj [OF assms(1), of k l] assms(5,6) by (simp add: block_count_def)
qed

text \<open>The blocks of a sequence of receipts.\<close>

definition blocks_of ::
  "torrent \<Rightarrow> u32 \<Rightarrow> bytes \<Rightarrow> (instant \<times> (peer_event \<times> peer_ip) option) list \<Rightarrow> (nat \<times> nat) set" where
  "blocks_of t bs d xs = {(i, k). i < piece_count t \<and> k < block_count t bs \<and>
     (\<exists>now ip. (now, Some (block_event t bs d i k, ip)) \<in> set xs)}"

definition honest :: "torrent \<Rightarrow> u32 \<Rightarrow> bytes \<Rightarrow> instant \<times> (peer_event \<times> peer_ip) option \<Rightarrow> bool" where
  "honest t bs d x \<longleftrightarrow> (\<forall>e ip. snd x = Some (e, ip) \<longrightarrow> honest_event t bs d e)"

lemma blocks_of_Cons: "blocks_of t bs d (x # xs) = blocks_of t bs d [x] \<union> blocks_of t bs d xs"
  by (auto simp: blocks_of_def)

section \<open>Progress\<close>

context slice_writer
begin

text \<open>
  The blocks in \<open>K\<close> are in, the others are not; a piece is complete exactly when all its blocks are
  in, and then it has been written, unless writes may fail.
\<close>

definition progress ::
  "(bytes \<Rightarrow> bytes) \<Rightarrow> u32 \<Rightarrow> (nat \<times> nat) set \<Rightarrow> download_manager \<times> dm_world \<Rightarrow> bool" where
  "progress sha1 bs K s \<longleftrightarrow>
     pm_inv sha1 (dm_piece_manager (fst s)) \<and> pm_torrent (dm_piece_manager (fst s)) = t \<and>
     pm_block_size (dm_piece_manager (fst s)) = bs \<and> dm_disk_io (fst s) = Some dio \<and> D (dw_disk (snd s)) \<and>
     (\<forall>i < piece_count t. \<exists>p. hm_get (pm_pieces (dm_piece_manager (fst s))) (word_of_nat i) = Some p \<and>
        delivered (slice_of t content i) {k. (i, k) \<in> K} p \<and>
        ({..<block_count t bs} \<subseteq> {k. (i, k) \<in> K} \<longrightarrow> lossy \<or> B (dw_disk (snd s)) i))"

lemma progress_piece:
  assumes "progress sha1 bs K s" "i < piece_count t" "piece_count t \<le> 2 ^ 32"
  obtains p where "hm_get (pm_pieces (dm_piece_manager (fst s))) (word_of_nat i) = Some p"
    "delivered (slice_of t content i) {k. (i, k) \<in> K} p" "p_length p = piece_length (t_info t)"
    "p_block_size p = bs" "piece_hash (t_info t) i = Some (p_hash p)"
    "piece_is_complete p \<longleftrightarrow> {..<block_count t bs} \<subseteq> {k. (i, k) \<in> K}"
proof -
  from assms(1,2) obtain p where p: "hm_get (pm_pieces (dm_piece_manager (fst s))) (word_of_nat i) = Some p"
    "delivered (slice_of t content i) {k. (i, k) \<in> K} p" unfolding progress_def by blast
  have inv: "pm_inv sha1 (dm_piece_manager (fst s))" "pm_torrent (dm_piece_manager (fst s)) = t"
    "pm_block_size (dm_piece_manager (fst s)) = bs" using assms(1) by (simp_all add: progress_def)
  have "unat (word_of_nat i :: u32) = i" by (rule unat_word_of_nat32) (use assms in simp)
  with inv p(1) obtain h where h: "piece_hash (t_info t) i = Some h"
    "piece_id p = (word_of_nat i, piece_length (t_info t), h, bs)"
    unfolding pm_inv_def by metis
  from delivered_complete_iff [OF p(2) h(2)] p h show thesis
    by (intro that) (auto simp: piece_id_def block_count_def)
qed

text \<open>A complete download is one whose blocks are all in.\<close>

lemma progress_complete:
  assumes prog: "progress sha1 bs K s" and count: "piece_count t \<le> 2 ^ 32"
  shows "is_download_complete (dm_piece_manager (fst s)) \<longleftrightarrow>
    (\<forall>i < piece_count t. \<forall>k < block_count t bs. (i, k) \<in> K)"
proof -
  let ?pm = "dm_piece_manager (fst s)"
  have wf: "hm_wf (pm_pieces ?pm)" using prog by (simp add: progress_def pm_inv_def)
  have "is_download_complete ?pm \<longleftrightarrow> (\<forall>j p. hm_get (pm_pieces ?pm) j = Some p \<longrightarrow> piece_is_complete p)"
    using hm_values_iff [OF wf] by (auto simp: is_download_complete_def list_all_iff)
  also have "\<dots> \<longleftrightarrow> (\<forall>i < piece_count t. {..<block_count t bs} \<subseteq> {k. (i, k) \<in> K})"
  proof safe
    fix i k
    assume all: "\<forall>j p. hm_get (pm_pieces ?pm) j = Some p \<longrightarrow> piece_is_complete p" and i: "i < piece_count t"
      and k: "k < block_count t bs"
    obtain p where "hm_get (pm_pieces ?pm) (word_of_nat i) = Some p"
      "piece_is_complete p \<longleftrightarrow> {..<block_count t bs} \<subseteq> {k. (i, k) \<in> K}"
      using progress_piece [OF prog i count] by metis
    with all k show "(i, k) \<in> K" by auto
  next
    fix j p
    assume all: "\<forall>i < piece_count t. {..<block_count t bs} \<subseteq> {k. (i, k) \<in> K}"
      and p: "hm_get (pm_pieces ?pm) j = Some p"
    have "pm_inv sha1 ?pm" "pm_torrent ?pm = t" using prog by (simp_all add: progress_def)
    with p have "piece_hash (t_info t) (unat j) \<noteq> None" unfolding pm_inv_def by (metis option.distinct(1))
    then have j: "unat j < piece_count t" by (auto simp: piece_hash_eq piece_count_def split: if_splits)
    obtain p' where "hm_get (pm_pieces ?pm) (word_of_nat (unat j)) = Some p'"
      "piece_is_complete p' \<longleftrightarrow> {..<block_count t bs} \<subseteq> {k. (unat j, k) \<in> K}"
      using progress_piece [OF prog j count] by metis
    with all j p show "piece_is_complete p" by simp
  qed
  finally show ?thesis by auto
qed

lemma progress_written:
  assumes "progress sha1 bs K s" "\<forall>i < piece_count t. \<forall>k < block_count t bs. (i, k) \<in> K" "i < piece_count t" "\<not> lossy"
  shows "B (dw_disk (snd s)) i"
proof -
  have "{..<block_count t bs} \<subseteq> {k. (i, k) \<in> K}" using assms(2,3) by auto
  with assms(1,3,4) show ?thesis unfolding progress_def by blast
qed

text \<open>One piece replaced, with a disk on which the others are as they were.\<close>

lemma progress_put:
  assumes "progress sha1 bs K (dm, w)" "i < piece_count t" "piece_count t \<le> 2 ^ 32"
    and "pm_inv sha1 pm" "pm_torrent pm = t" "pm_block_size pm = bs"
    and "\<And>j. hm_get (pm_pieces pm) j =
      (if j = word_of_nat i then Some p else hm_get (pm_pieces (dm_piece_manager dm)) j)"
    and "delivered (slice_of t content i) {k. (i, k) \<in> K'} p"
    and "\<And>j k. j \<noteq> i \<Longrightarrow> (j, k) \<in> K' \<longleftrightarrow> (j, k) \<in> K"
    and "D (dw_disk w')"
    and "{..<block_count t bs} \<subseteq> {k. (i, k) \<in> K'} \<Longrightarrow> lossy \<or> B (dw_disk w') i"
    and "\<And>j. j < piece_count t \<Longrightarrow> j \<noteq> i \<Longrightarrow> B (dw_disk w) j \<Longrightarrow> B (dw_disk w') j"
  shows "progress sha1 bs K' (dm\<lparr> dm_piece_manager := pm \<rparr>, w')"
  unfolding progress_def fst_conv snd_conv
proof (intro conjI allI impI)
  fix j assume j: "j < piece_count t"
  show "\<exists>p. hm_get (pm_pieces (dm_piece_manager (dm\<lparr> dm_piece_manager := pm \<rparr>))) (word_of_nat j) = Some p \<and>
      delivered (slice_of t content j) {k. (j, k) \<in> K'} p \<and>
      ({..<block_count t bs} \<subseteq> {k. (j, k) \<in> K'} \<longrightarrow> lossy \<or> B (dw_disk w') j)"
  proof (cases "j = i")
    case True
    with assms(7,8,11) show ?thesis by auto
  next
    case False
    then have "(word_of_nat j :: u32) \<noteq> word_of_nat i"
      using j assms(2,3) word_of_nat_u32_inj [of j i] by simp
    moreover have "{k. (j, k) \<in> K'} = {k. (j, k) \<in> K}" using assms(9) [OF False] by simp
    moreover from assms(1) j obtain p' where
      "hm_get (pm_pieces (dm_piece_manager dm)) (word_of_nat j) = Some p'"
      "delivered (slice_of t content j) {k. (j, k) \<in> K} p'"
      "{..<block_count t bs} \<subseteq> {k. (j, k) \<in> K} \<longrightarrow> lossy \<or> B (dw_disk w) j"
      unfolding progress_def fst_conv snd_conv by blast
    ultimately show ?thesis using assms(7) [of "word_of_nat j"] assms(12) [OF j False] by auto
  qed
qed (use assms in \<open>simp_all add: progress_def\<close>)

section \<open>Steps\<close>

text \<open>What a block of the content does to its piece.\<close>

lemma progress_receive:
  assumes prog: "progress sha1 bs K s" and right: "content_of sha1 t content"
    and count: "piece_count t \<le> 2 ^ 32" and i: "i < piece_count t" and k: "k < block_count t bs"
  obtains p pm where
    "receive_block sha1 (word_of_nat i) (off bs k) (part (slice_of t content i) (piece_length (t_info t)) bs k)
      (dm_piece_manager (fst s)) = Some (piece_is_complete p, pm)"
    "pm = (dm_piece_manager (fst s))\<lparr> pm_pieces :=
      hm_insert (word_of_nat i) p (pm_pieces (dm_piece_manager (fst s))) \<rparr>"
    "pm_inv sha1 pm" "delivered (slice_of t content i) {k'. (i, k') \<in> insert (i, k) K} p"
    "p_length p = piece_length (t_info t)" "p_block_size p = bs" "p_state p \<noteq> PieceWritten"
    "piece_is_complete p \<longleftrightarrow> {..<block_count t bs} \<subseteq> {k'. (i, k') \<in> insert (i, k) K}"
proof -
  let ?pm = "dm_piece_manager (fst s)"
  let ?data = "part (slice_of t content i) (piece_length (t_info t)) bs k"
  have K: "{k'. (i, k') \<in> insert (i, k) K} = insert k {k. (i, k) \<in> K}" by auto
  have inv: "pm_inv sha1 ?pm" using prog by (simp add: progress_def)
  obtain p where p: "hm_get (pm_pieces ?pm) (word_of_nat i) = Some p" "delivered (slice_of t content i) {k. (i, k) \<in> K} p"
    "p_length p = piece_length (t_info t)" "p_block_size p = bs" "piece_hash (t_info t) i = Some (p_hash p)"
    using progress_piece [OF prog i count] by auto
  have len: "length (slice_of t content i) = unat (p_length p)" using slice_length [OF content_length [OF right] i] p(3) by simp
  have hash: "sha1 (slice_of t content i) = p_hash p" using right i p(5) by (simp add: content_of_def)
  have kp: "k < nblocks (p_length p) (p_block_size p)" using k p by (simp add: block_count_def)
  from delivered_step [OF p(2) kp len, of sha1] hash obtain p' where
    rec: "piece_receive_block sha1 (off bs k) ?data p = Some (True, p')"
    and del: "delivered (slice_of t content i) (insert k {k. (i, k) \<in> K}) p'"
    and id: "piece_id p' = piece_id p" and state: "p_state p' \<noteq> PieceWritten"
    by (auto simp: p(3,4))
  have p': "p_length p' = piece_length (t_info t)" "p_block_size p' = bs"
    using id p by (simp_all add: piece_id_def)
  have recv: "receive_block sha1 (word_of_nat i) (off bs k) ?data ?pm =
      Some (piece_is_complete p', ?pm\<lparr> pm_pieces := hm_insert (word_of_nat i) p' (pm_pieces ?pm) \<rparr>)"
    by (simp add: receive_block_def p(1) rec)
  moreover from pm_receive_ok [OF inv, of "word_of_nat i" "off bs k" ?data] recv
  have "pm_inv sha1 (?pm\<lparr> pm_pieces := hm_insert (word_of_nat i) p' (pm_pieces ?pm) \<rparr>)" by auto
  moreover have "piece_is_complete p' \<longleftrightarrow> {..<block_count t bs} \<subseteq> insert k {k. (i, k) \<in> K}"
    using delivered_complete_iff [OF del, of _ "piece_length (t_info t)" _ bs] p'
    by (auto simp: block_count_def piece_id_def)
  ultimately show thesis using that [OF _ refl] del p' state unfolding K by blast
qed

lemma progress_block:
  assumes prog: "progress sha1 bs K s" and right: "content_of sha1 t content"
    and count: "piece_count t \<le> 2 ^ 32" and i: "i < piece_count t" and k: "k < block_count t bs"
  shows "\<exists>s'. handle_recieve_piece sha1 (word_of_nat i) (off bs k)
      (part (slice_of t content i) (piece_length (t_info t)) bs k) s = Some s' \<and>
    progress sha1 bs (insert (i, k) K) s'"
proof -
  obtain dm w where s: "s = (dm, w)" by fastforce
  let ?K = "insert (i, k) K" and ?j = "word_of_nat i :: u32"
  have inv: "pm_torrent (dm_piece_manager dm) = t" "pm_block_size (dm_piece_manager dm) = bs"
    "dm_disk_io dm = Some dio" "D (dw_disk w)"
    using prog by (simp_all add: s progress_def)
  have j: "unat ?j = i" by (rule unat_word_of_nat32) (use i count in simp)
  note put = progress_put [OF prog [unfolded s] i count]
  from progress_receive [OF prog right count i k] obtain p pm where
    rec: "receive_block sha1 ?j (off bs k) (part (slice_of t content i) (piece_length (t_info t)) bs k)
      (dm_piece_manager dm) = Some (piece_is_complete p, pm)"
    and pm: "pm = (dm_piece_manager dm)\<lparr> pm_pieces := hm_insert ?j p (pm_pieces (dm_piece_manager dm)) \<rparr>"
    and pm_inv: "pm_inv sha1 pm" and del: "delivered (slice_of t content i) {k'. (i, k') \<in> ?K} p"
    and p: "p_length p = piece_length (t_info t)" "p_block_size p = bs" "p_state p \<noteq> PieceWritten"
    and complete: "piece_is_complete p \<longleftrightarrow> {..<block_count t bs} \<subseteq> {k'. (i, k') \<in> ?K}"
    by (auto simp: s)
  show ?thesis
  proof (cases "piece_is_complete p")
    case False
    have "progress sha1 bs ?K (dm\<lparr> dm_piece_manager := pm \<rparr>, w)"
      by (rule put [OF pm_inv _ _ _ del]) (use inv False complete in \<open>auto simp: pm\<close>)
    with False rec show ?thesis by (simp add: s handle_recieve_piece_def Let_def)
  next
    case True
    have all: "{..<nblocks (p_length p) (p_block_size p)} \<subseteq> {k'. (i, k') \<in> ?K}"
      using True complete by (simp add: p block_count_def)
    have len: "length (slice_of t content i) = unat (piece_length (t_info t))"
      by (rule slice_length [OF content_length [OF right] i])
    from delivered_data [OF del all] len p True have "piece_get_data p = Some (Some (slice_of t content i))" by simp
    then have get: "get_piece_data ?j pm = Some (Some (slice_of t content i))"
      by (simp add: get_piece_data_def pm)
    obtain disk r where wr: "write_piece dio ?j (slice_of t content i) (dw_disk w) = (disk, r)" by fastforce
    note written = writes [OF inv(4) _ _ wr, unfolded j, OF i good_slice [of ?j, unfolded j]]
    show ?thesis
    proof (cases r)
      case (Ok u)
      let ?pm = "mark_piece_written ?j pm"
      let ?w = "broadcast_have ?j (dm\<lparr> dm_piece_manager := ?pm \<rparr>) (w\<lparr> dw_disk := disk \<rparr>)"
      have "progress sha1 bs ?K (dm\<lparr> dm_piece_manager := ?pm \<rparr>, ?w)"
        by (rule put [OF pm_written_ok [OF pm_inv, THEN conjunct1] _ _ _ delivered_written [OF del all]])
          (use inv written Ok in \<open>simp_all add: mark_piece_written_def pm\<close>)
      with True rec get wr inv(3) Ok show ?thesis by (simp add: s handle_recieve_piece_def Let_def)
    next
      case (Err e)
      have "progress sha1 bs ?K (dm\<lparr> dm_piece_manager := pm \<rparr>, w\<lparr> dw_disk := disk \<rparr>)"
        by (rule put [OF pm_inv _ _ _ del]) (use inv written Err in \<open>simp_all add: pm\<close>)
      with True rec get wr inv(3) Err show ?thesis by (simp add: s handle_recieve_piece_def Let_def)
    qed (use written in simp)
  qed
qed

text \<open>Events other than blocks leave the blocks that are in as they are.\<close>

lemma progress_frame:
  assumes "progress sha1 bs K s" "dm_piece_manager (fst s') = dm_piece_manager (fst s)"
    and "dm_disk_io (fst s') = dm_disk_io (fst s)" "dw_disk (snd s') = dw_disk (snd s)"
  shows "progress sha1 bs K s'"
  using assms by (simp add: progress_def)

lemma progress_request:
  assumes prog: "progress sha1 bs K (dm, w)" and count: "piece_count t \<le> 2 ^ 32"
    and block: "get_next_block_for_piece j (dm_piece_manager dm) = Some (q, n)"
    and disk: "dw_disk w' = dw_disk w"
  shows "progress sha1 bs K
    (dm\<lparr> dm_piece_manager := request_block now j q ip (dm_piece_manager dm) \<rparr>, w')"
proof -
  let ?pm = "dm_piece_manager dm"
  have inv: "pm_inv sha1 ?pm" "pm_torrent ?pm = t" "pm_block_size ?pm = bs" "D (dw_disk w)"
    using prog by (simp_all add: progress_def)
  from next_block_Some [OF inv(1) block] obtain p b where p: "hm_get (pm_pieces ?pm) j = Some p"
    "hm_get (p_blocks p) q = Some b" "\<not> block_is_complete b" by blast
  from inv p(1) have "piece_hash (t_info t) (unat j) \<noteq> None"
    unfolding pm_inv_def by (metis option.distinct(1))
  then have j: "unat j < piece_count t" by (auto simp: piece_hash_eq piece_count_def split: if_splits)
  from prog j have del: "delivered (slice_of t content (unat j)) {k. (unat j, k) \<in> K} p"
    and there: "{..<block_count t bs} \<subseteq> {k. (unat j, k) \<in> K} \<Longrightarrow> lossy \<or> B (dw_disk w) (unat j)"
    using p(1) by (auto simp: progress_def)
  have req: "request_block now j q ip ?pm =
      ?pm\<lparr> pm_pieces := hm_insert j (piece_request_from_peer now q ip p) (pm_pieces ?pm) \<rparr>"
    by (simp add: request_block_def p(1))
  show ?thesis
  proof (rule progress_put [OF prog j count])
    show "pm_inv sha1 (request_block now j q ip ?pm)" using pm_request_ok [OF inv(1)] by blast
    show "delivered (slice_of t content (unat j)) {k. (unat j, k) \<in> K} (piece_request_from_peer now q ip p)"
      by (rule delivered_request [OF del p(2,3)])
  qed (use inv there disk in \<open>simp_all add: req\<close>)
qed

lemma progress_turn:
  assumes prog: "progress sha1 bs K s" and right: "content_of sha1 t content"
    and count: "piece_count t \<le> 2 ^ 32" and fits: "piece_fits (piece_length (t_info t)) bs"
    and honest: "honest t bs content x" and flows: "dm_flows s"
  shows "\<exists>s'. turn sha1 x s = Some s' \<and> progress sha1 bs (K \<union> blocks_of t bs content [x]) s'"
proof -
  obtain now received dm w where x: "x = (now, received)" and s: "s = (dm, w)" by (metis prod.exhaust)
  show ?thesis
  proof (cases received)
    case None
    then have "blocks_of t bs content [x] = {}" by (simp add: blocks_of_def x)
    with prog None show ?thesis by (simp add: x)
  next
    case (Some ev)
    obtain e ip where ev: "ev = (e, ip)" by fastforce
    have honest_e: "honest_event t bs content e" using honest by (simp add: honest_def x Some ev)
    show ?thesis
    proof (cases e)
      case (ReceivedPiece i b block)
      from honest_e ReceivedPiece obtain j k where jk: "j < piece_count t" "k < block_count t bs"
        "e = block_event t bs content j k" by (auto simp: honest_event_def)
      have "blocks_of t bs content [x] = {(j, k)}"
        using block_event_inj [OF fits count _ jk(1) _ jk(2)] jk
        by (auto simp: blocks_of_def x Some ev)
      then have K: "K \<union> blocks_of t bs content [x] = insert (j, k) K" by simp
      have "turn sha1 x s = handle_recieve_piece sha1 (word_of_nat j) (off bs k)
          (part (slice_of t content j) (piece_length (t_info t)) bs k) s"
        unfolding x Some ev jk(3) turn_event [OF flows] by (simp add: block_event_def off_small [OF jk(2) fits])
      with progress_block [OF prog right count jk(1,2)] show ?thesis unfolding K by simp
    next
      case PeerUnchoked
      have none: "blocks_of t bs content [x] = {}" by (simp add: blocks_of_def x Some ev PeerUnchoked block_event_def)
      have "progress sha1 bs K (handle_unchoke now ip (dm, w))"
        using prog [unfolded s]
        by (auto simp: handle_unchoke_def request_pieces_from_peer_def request_next_block_for_piece_def
            split: option.split intro!: progress_request [OF _ count])
      with none show ?thesis using flows by (simp add: turn_event x Some ev PeerUnchoked s)
    qed (use prog flows in \<open>auto simp: blocks_of_def x Some ev block_event_def turn_event s handle_bitfield_def
        handle_have_def dm_remove_peer_def Let_def elim!: progress_frame split: option.split\<close>)
  qed
qed

lemma progress_run:
  assumes "content_of sha1 t content" "piece_count t \<le> 2 ^ 32" "piece_fits (piece_length (t_info t)) bs"
  shows "progress sha1 bs K s \<Longrightarrow> dm_flows s \<Longrightarrow> \<forall>x \<in> set xs. honest t bs content x \<Longrightarrow>
    \<exists>s'. run_ops (turn sha1) xs s = Some s' \<and> progress sha1 bs (K \<union> blocks_of t bs content xs) s'"
proof (induction xs arbitrary: K s)
  case Nil
  then show ?case by (simp add: blocks_of_def)
next
  case (Cons x xs)
  from progress_turn [OF Cons.prems(1) assms _ Cons.prems(2), of x] Cons.prems(3) obtain s1 where
    s1: "turn sha1 x s = Some s1" "progress sha1 bs (K \<union> blocks_of t bs content [x]) s1" by auto
  from Cons.IH [OF s1(2) turn_flows [OF Cons.prems(2) s1(1)]] Cons.prems(3) s1(1) show ?case by (simp add: blocks_of_Cons [of _ _ _ x xs] Un_assoc)
qed

lemma progress_start:
  assumes new: "download_manager_new t bs = Some dm" and count: "piece_count t \<le> 2 ^ 32"
    and right: "content_of sha1 t content" and disk: "D (dw_disk w)"
  shows "progress sha1 bs {} (start_download dio peers dm, w)"
proof -
  note new = download_manager_new_piece_manager [OF new]
  have fits: "piece_count t = 0 \<or> info_fits (t_info t) bs" using new piece_manager_new_iff by blast
  let ?pm = "dm_piece_manager dm"
  have pm: "pm_torrent ?pm = t" "pm_block_size ?pm = bs" and pieces: "pm_pieces ?pm =
      foldl (\<lambda>m i. hm_insert (word_of_nat i) (new_piece (t_info t) bs i) m) [] [0..<piece_count t]"
    using new [unfolded piece_manager_new_eq [OF fits], symmetric] by simp_all
  have L: "piece_length (t_info t) \<noteq> 0" using right by (simp add: content_of_def)
  have start: "hm_get (pm_pieces ?pm) (word_of_nat i) = Some (new_piece (t_info t) bs i) \<and>
      delivered (slice_of t content i) {} (new_piece (t_info t) bs i) \<and> 0 < block_count t bs"
    if i: "i < piece_count t" for i
  proof -
    have fits: "info_fits (t_info t) bs" using fits i by simp
    have "unat (word_of_nat i :: u32) = i" by (rule unat_word_of_nat32) (use i count in simp)
    moreover have "hm_get (pm_pieces ?pm) k =
        (if unat k < piece_count t then Some (new_piece (t_info t) bs (unat k)) else None)" for k
      unfolding pieces by (rule foldl_insert_get) (use count in simp)
    moreover have "delivered (slice_of t content i) {} (new_piece (t_info t) bs i)"
      using new_piece_eq [OF fits] i L by (auto simp: piece_count_def intro: delivered_new)
    moreover have "0 < block_count t bs"
      using L fits nblocks_pos_iff by (auto simp: block_count_def info_fits_def)
    ultimately show ?thesis using i by simp
  qed
  show ?thesis
    unfolding progress_def fst_conv snd_conv start_download_frame
  proof (intro conjI allI impI)
    show "pm_inv sha1 ?pm" by (rule pm_inv_new [OF new count])
    fix i assume "i < piece_count t"
    from start [OF this] show "\<exists>p. hm_get (pm_pieces ?pm) (word_of_nat i) = Some p \<and>
        delivered (slice_of t content i) {k. (i, k) \<in> {}} p \<and>
        ({..<block_count t bs} \<subseteq> {k. (i, k) \<in> {}} \<longrightarrow> lossy \<or> B (dw_disk w) i)"
      by (simp add: lessThan_empty_iff)
  qed (use pm disk in simp_all)
qed

end

section \<open>The event loop returns\<close>

lemma dm_run_returns:
  "run_ops (turn sha1) (map recv [n..<n + Suc k]) s = Some s1 \<Longrightarrow>
   is_download_complete (dm_piece_manager (fst s1)) \<Longrightarrow> dm_run sha1 recv n s \<noteq> None"
proof (induction k arbitrary: n s)
  case 0
  then have "turn sha1 (recv n) s = Some s1" by (auto simp: bind_eq_Some_conv)
  with 0 show ?case by (subst dm_run.simps) simp
next
  case (Suc k)
  have "[n..<n + Suc (Suc k)] = n # [n + 1..<n + 1 + Suc k]" by (simp add: upt_rec)
  with Suc.prems(1) obtain s2 where s2: "turn sha1 (recv n) s = Some s2"
    "run_ops (turn sha1) (map recv [n + 1..<n + 1 + Suc k]) s2 = Some s1"
    by (auto simp: bind_eq_Some_conv simp del: upt_Suc)
  from Suc.IH [OF s2(2) Suc.prems(2)] s2(1) show ?case by (subst dm_run.simps) simp
qed

text \<open>Every block of the content is received some time.\<close>

definition all_blocks_arrive ::
  "torrent \<Rightarrow> u32 \<Rightarrow> bytes \<Rightarrow> (nat \<Rightarrow> instant \<times> (peer_event \<times> peer_ip) option) \<Rightarrow> bool" where
  "all_blocks_arrive t bs d recv \<longleftrightarrow>
     (\<forall>i < piece_count t. \<forall>k < block_count t bs. \<exists>n now ip. recv n = (now, Some (block_event t bs d i k, ip)))"

lemma all_blocks_bound:
  assumes "all_blocks_arrive t bs d recv"
  shows "\<exists>N. \<forall>i < piece_count t. \<forall>k < block_count t bs. (i, k) \<in> blocks_of t bs d (map recv [0..<0 + Suc N])"
proof -
  let ?D = "{..<piece_count t} \<times> {..<block_count t bs}"
  have "\<forall>x \<in> ?D. \<exists>n. \<exists>now ip. recv n = (now, Some (block_event t bs d (fst x) (snd x), ip))"
    using assms by (auto simp: all_blocks_arrive_def)
  then obtain f where f: "\<forall>x \<in> ?D. \<exists>now ip. recv (f x) = (now, Some (block_event t bs d (fst x) (snd x), ip))"
    by metis
  have le: "f x \<le> Max (f ` ?D)" if "x \<in> ?D" for x using that by (intro Max_ge) auto
  have "(i, k) \<in> blocks_of t bs d (map recv [0..<0 + Suc (Max (f ` ?D))])"
    if ik: "i < piece_count t" "k < block_count t bs" for i k
  proof -
    have D: "(i, k) \<in> ?D" using ik by simp
    from f D obtain now ip where "recv (f (i, k)) = (now, Some (block_event t bs d i k, ip))" by fastforce
    moreover have "f (i, k) \<in> set [0..<0 + Suc (Max (f ` ?D))]"
      using le [OF D] by (simp only: set_upt atLeastLessThan_iff add_0 less_Suc_eq_le le0)
    ultimately have "(now, Some (block_event t bs d i k, ip)) \<in> set (map recv [0..<0 + Suc (Max (f ` ?D))])"
      unfolding set_map by (metis image_eqI)
    with ik show ?thesis unfolding blocks_of_def by blast
  qed
  then show ?thesis by blast
qed

text \<open>The event loop returns, with everything that progress says of a complete download.\<close>

context slice_writer
begin

lemma honest_returns:
  assumes new: "download_manager_new t bs = Some dm" and right: "content_of sha1 t content"
    and count: "piece_count t \<le> 2 ^ 32" "0 < piece_count t" and disk: "D (dw_disk w)"
    and honest: "\<And>n. honest t bs content (recv n)" and arrive: "all_blocks_arrive t bs content recv"
    and taken: "commands_taken peers w"
  obtains s K where "dm_run sha1 recv 0 (start_download dio peers dm, w) = Some s"
    "is_download_complete (dm_piece_manager (fst s))" "progress sha1 bs K s"
    "\<forall>i < piece_count t. \<forall>k < block_count t bs. (i, k) \<in> K"
proof -
  let ?s = "(start_download dio peers dm, w)"
  have fits: "piece_fits (piece_length (t_info t)) bs"
    using download_manager_new_piece_manager [OF new] piece_manager_new_iff [of t bs] count(2)
    by (auto simp: info_fits_def)
  note run = progress_run [OF right count(1) fits progress_start [OF new count(1) right disk, of peers] dm_flows_start [OF new taken]]
  from all_blocks_bound [OF arrive] obtain N where
    N: "\<forall>i < piece_count t. \<forall>k < block_count t bs. (i, k) \<in> blocks_of t bs content (map recv [0..<0 + Suc N])" by blast
  from run [of "map recv [0..<0 + Suc N]"] honest obtain s1 where
    s1: "run_ops (turn sha1) (map recv [0..<0 + Suc N]) ?s = Some s1"
      "progress sha1 bs (blocks_of t bs content (map recv [0..<0 + Suc N])) s1" by auto
  have "is_download_complete (dm_piece_manager (fst s1))"
    using progress_complete [OF s1(2) count(1)] N by simp
  from dm_run_returns [OF s1(1) this] obtain s where s: "dm_run sha1 recv 0 ?s = Some s" by auto
  from dm_run_ops [OF s] obtain k where
    k: "run_ops (turn sha1) (map recv [0..<0 + Suc k]) ?s = Some s"
      "is_download_complete (dm_piece_manager (fst s))" by blast
  from run [of "map recv [0..<0 + Suc k]"] honest k(1) have
    prog: "progress sha1 bs (blocks_of t bs content (map recv [0..<0 + Suc k])) s" by auto
  with k(2) progress_complete [OF prog count(1)] s that show thesis by blast
qed

end

lemma single_disk_new:
  assumes "single_whole t" "0 < piece_count t" "piece_length (t_info t) \<noteq> 0"
    and "disk_io_new base (info_files (t_info t)) (ucast (piece_length (t_info t))) d0 = (d, Ok dio)"
  shows "single_disk t dio d"
  using disk_fits_new [OF assms(1,2,4)] single_whole_count [OF assms(1,3)] assms(3) by (simp add: single_disk_def)

lemma single_image:
  assumes "single_disk t dio disk" "content_of sha1 t d"
    and "\<And>i. i < piece_count t \<Longrightarrow> image_slice t dio disk i = slice_of t d i"
  shows "torrent_image dio disk = d"
proof (rule slices_all)
  show "length (torrent_image dio disk) = piece_count t * unat (piece_length (t_info t))"
    using assms(1) by (simp add: single_disk_def disk_fits_def length_image)
  show "length d = piece_count t * unat (piece_length (t_info t))" by (rule content_length [OF assms(2)])
qed (use assms(3) in \<open>simp add: image_slice_def slice_of_def Let_def\<close>)

lemma honest_download_returns:
  assumes new: "download_manager_new t bs = Some dm" and count: "piece_count t \<le> 2 ^ 32" "0 < piece_count t"
    and right: "content_of sha1 t d"
    and opened: "disk_io_new base (info_files (t_info t)) (ucast (piece_length (t_info t))) d0 = (dw_disk w, Ok dio)"
    and honest: "\<And>n. honest t bs d (recv n)" and arrive: "all_blocks_arrive t bs d recv"
    and taken: "commands_taken peers w"
  shows "\<exists>s. dm_run sha1 recv 0 (start_download dio peers dm, w) = Some s \<and>
    is_download_complete (dm_piece_manager (fst s)) \<and> (single_whole t \<longrightarrow> torrent_image dio (dw_disk (snd s)) = d)"
proof (cases "single_whole t")
  case True
  have L: "piece_length (t_info t) \<noteq> 0" using right by (simp add: content_of_def)
  have disk: "single_disk t dio (dw_disk w) \<and> length d = piece_count t * unat (piece_length (t_info t))"
    using single_disk_new [OF True count(2) L opened] content_length [OF right] by simp
  from slices.honest_returns [OF new right count disk honest arrive taken] obtain s K where
    s: "dm_run sha1 recv 0 (start_download dio peers dm, w) = Some s" "is_download_complete (dm_piece_manager (fst s))"
    and prog: "slices.progress t dio d sha1 bs K s" and all: "\<forall>i < piece_count t. \<forall>k < block_count t bs. (i, k) \<in> K" .
  have "single_disk t dio (dw_disk (snd s))" using prog by (simp add: slices.progress_def)
  from single_image [OF this right slices.progress_written [OF prog all]] s show ?thesis by simp
next
  case False
  have "files_open dio" using disk_io_new_files [OF opened] by blast
  from any.honest_returns [OF new right count this honest arrive taken] False show ?thesis by metis
qed

section \<open>Properties\<close>

text \<open>
  C1: The download completes. For a torrent of whole pieces, in whatever files: if the peers send only
  blocks of the content, in any order, mixed with any other events and any number of times,
  and every block arrives some time, then the event loop returns with the download complete. The command queues of
  the registered peers have 100 places each, so the peers' connections must take the commands or end; with no peer registered, as
  in \<open>main\<close>, nothing is asked of them. If the torrent is a single file below 4 GiB and no write fails for want of
  room, the file on disk is then exactly the content.
\<close>

theorem download_completes:
  assumes new: "download_manager_new t bs = Some dm" and count: "piece_count t \<le> 2 ^ 32" "0 < piece_count t"
    and right: "content_of sha1 t d"
    and opened: "disk_io_new base (info_files (t_info t)) (ucast (piece_length (t_info t))) d0 = (dw_disk w, Ok dio)"
    and honest: "\<And>n. honest t bs d (recv n)" and arrive: "all_blocks_arrive t bs d recv"
    and taken: "commands_taken peers w"
  shows "\<exists>s. dm_run sha1 recv 0 (start_download dio peers dm, w) = Some s \<and>
    is_download_complete (dm_piece_manager (fst s)) \<and> (single_whole t \<longrightarrow> torrent_image dio (dw_disk (snd s)) = d)"
  using assms by (rule honest_download_returns)

text \<open>The two blocks of the sample torrent, from two peers, one of them twice, between other events.\<close>

definition sample_recv :: "nat \<Rightarrow> instant \<times> (peer_event \<times> peer_ip) option" where
  "sample_recv n =
    (n, if n = 1 then Some (ReceivedPiece 0 2 [3, 4], [5])
        else if n = 4 then Some (ReceivedPiece 0 0 [1, 2], [6])
        else Some (PeerUnchoked, [5]))"

definition sample_sha1 :: "bytes \<Rightarrow> bytes" where
  "sample_sha1 x = (if x = [1, 2, 3, 4] then replicate 20 7 else [])"

lemma sample_facts:
  "single_whole sample_torrent" "0 < piece_count sample_torrent"
  "content_of sample_sha1 sample_torrent [1, 2, 3, 4]"
  "disk_io_new [] (info_files (t_info sample_torrent)) (ucast (piece_length (t_info sample_torrent)))
    (dw_disk sample_dm_world) = (dw_disk sample_dm_world, Ok sample_single)"
  using sample_single_new
  by (simp_all add: single_whole_def sample_count content_of_def sample_hash sample_sha1_def slice_of_def) (simp_all add: sample_torrent_def)

lemma sample_few: "piece_count sample_torrent \<le> 2 ^ 32"
  by (simp add: sample_count)

lemma sample_blocks:
  "block_count sample_torrent 2 = 2"
  "block_event sample_torrent 2 [1, 2, 3, 4] 0 0 = ReceivedPiece 0 0 [1, 2]"
  "block_event sample_torrent 2 [1, 2, 3, 4] 0 1 = ReceivedPiece 0 2 [3, 4]"
proof -
  have len: "piece_length (t_info sample_torrent) = 4" by (simp add: sample_torrent_def)
  then show "block_count sample_torrent 2 = 2" by (simp add: block_count_def nblocks_def)
  have slice: "slice_of sample_torrent [1, 2, 3, 4] 0 = [1, 2, 3, 4]" by (simp add: slice_of_def len)
  show "block_event sample_torrent 2 [1, 2, 3, 4] 0 0 = ReceivedPiece 0 0 [1, 2]"
    "block_event sample_torrent 2 [1, 2, 3, 4] 0 1 = ReceivedPiece 0 2 [3, 4]"
    by (simp_all add: block_event_def slice len part_def off_def blen_def)
qed

lemma below_two: "k < 2 \<longleftrightarrow> k = 0 \<or> k = Suc 0" for k :: nat
  by auto

lemma sample_events:
  "honest sample_torrent 2 [1, 2, 3, 4] (sample_recv n)"
  "all_blocks_arrive sample_torrent 2 [1, 2, 3, 4] sample_recv"
proof -
  show "honest sample_torrent 2 [1, 2, 3, 4] (sample_recv n)"
    using sample_blocks
    by (auto simp: honest_def honest_event_def sample_recv_def sample_count below_two split: if_splits)
  have "sample_recv 4 = (4, Some (block_event sample_torrent 2 [1, 2, 3, 4] 0 0, [6]))"
    "sample_recv 1 = (1, Some (block_event sample_torrent 2 [1, 2, 3, 4] 0 1, [5]))"
    using sample_blocks by (simp_all add: sample_recv_def)
  then show "all_blocks_arrive sample_torrent 2 [1, 2, 3, 4] sample_recv"
    using sample_blocks by (auto simp: all_blocks_arrive_def sample_count below_two)
qed

theorem download_completes_witness:
  "\<exists>s. dm_run sample_sha1 sample_recv 0 (start_download sample_single [([5], 0)] sample_dm, sample_dm_world)
      = Some s \<and> is_download_complete (dm_piece_manager (fst s)) \<and>
    torrent_image sample_single (dw_disk (snd s)) = [1, 2, 3, 4]"
  using download_completes [OF sample_dm_new sample_few sample_facts(2-4) sample_events sample_taken] sample_facts(1) by simp

end
