(* ===== verification/Download_Verified.thy ===== *)
theory Download_Verified
  imports Download_Complete
begin

text \<open>
  What a finished download guarantees whoever the peers are: \<open>download_manager.rs\<close> over the pieces and the
  disk. Lemma: an invariant that says of every written piece what the interface \<open>hash_writer\<close> promises of it, when
  every block that arrives is one that is known of.
\<close>

section \<open>The blocks of a piece\<close>

text \<open>
  A block compares lengths as 32-bit numbers, so the data must be below 4 GiB for the comparison to
  mean anything; the length prefix of a message sees to that.
\<close>

definition small_event :: "peer_event \<Rightarrow> bool" where
  "small_event e \<longleftrightarrow> (\<forall>i q x. e = ReceivedPiece i q x \<longrightarrow> length x < 2 ^ 32)"

definition known :: "(u32 \<Rightarrow> u64 \<Rightarrow> bytes \<Rightarrow> bool) \<Rightarrow> u32 \<Rightarrow> u64 \<Rightarrow> bytes \<Rightarrow> bool" where
  "known heard i q x \<longleftrightarrow> length x < 2 ^ 32 \<and> heard i q x"

definition known_event :: "(u32 \<Rightarrow> u64 \<Rightarrow> bytes \<Rightarrow> bool) \<Rightarrow> peer_event \<Rightarrow> bool" where
  "known_event heard e \<longleftrightarrow> (\<forall>i q x. e = ReceivedPiece i q x \<longrightarrow> known heard i (ucast q) x)"

lemma known_small: "known heard i q x \<Longrightarrow> length x < 2 ^ 32"
  by (simp add: known_def)

lemma known_event_small: "known_event (\<lambda>_ _ _. True) e = small_event e"
  by (simp add: known_event_def known_def small_event_def)

text \<open>What a block does to the state of a piece, and what a complete piece hands out.\<close>

lemma receive_outcome:
  assumes layout: "piece_layout p" and res: "piece_receive_block sha1 q data p = Some (r, p')"
  shows "(p_state p' = PieceWritten \<longrightarrow> p_state p = PieceWritten) \<and>
    (p_state p' = PieceComplete \<longrightarrow> p_state p = PieceComplete \<or> (\<exists>d. piece_get_data p' = Some (Some d)))"
proof (cases "hm_get (p_blocks p) q")
  case None
  with res have "p' = p" by (simp add: piece_receive_block_def)
  then show ?thesis by simp
next
  case (Some b)
  let ?p = "p\<lparr> p_blocks := hm_insert q (receive_data data b) (p_blocks p) \<rparr>"
  note cases = piece_receive_cases(3) [OF layout Some res refl]
  from cases consider (same) "p' = ?p"
    | (complete) d where "piece_content ?p = Some d" "p' = ?p\<lparr> p_state := PieceComplete \<rparr>"
    | (failed) "p' = ?p\<lparr> p_blocks := hm_map cancle (p_blocks ?p), p_state := PieceMissing \<rparr>"
    by (auto split: if_splits)
  then show ?thesis
  proof cases
    case (complete d)
    with piece_layout_receive [OF layout res] show ?thesis by (auto simp: piece_get_data_eq)
  qed simp_all
qed

lemma known_data:
  assumes "piece_sound sha1 p" "stored (known heard) p" "piece_get_data p = Some (Some d)"
  shows "sha1 d = p_hash p" "length d = unat (p_length p)"
    "k < nblocks (p_length p) (p_block_size p) \<Longrightarrow>
       heard (p_index p) (off (p_block_size p) k) (part d (p_length p) (p_block_size p) k)"
proof -
  have layout: "piece_layout p" using assms(1) by (simp add: piece_sound_def)
  with assms(3) have c: "p_state p = PieceComplete" "piece_content p = Some d"
    by (simp_all add: piece_get_data_eq split: if_splits)
  with assms(1) show "sha1 d = p_hash p" by (simp add: piece_sound_def)
  note content = stored_content [OF layout assms(2) known_small c(2)]
  show "length d = unat (p_length p)" by (rule content(1))
  show "k < nblocks (p_length p) (p_block_size p) \<Longrightarrow>
      heard (p_index p) (off (p_block_size p) k) (part d (p_length p) (p_block_size p) k)"
    using content(2) by (simp add: known_def)
qed

section \<open>The invariant of the download\<close>

context hash_writer
begin

text \<open>
  A piece that is complete but not written is one whose write has failed; there is data for it all the same.
\<close>

definition verified :: "download_manager \<times> dm_world \<Rightarrow> bool" where
  "verified s \<longleftrightarrow> pm_inv sha1 (dm_piece_manager (fst s)) \<and>
     pm_torrent (dm_piece_manager (fst s)) = t \<and> pm_block_size (dm_piece_manager (fst s)) = bs \<and> dm_disk_io (fst s) = Some dio \<and> D (dw_disk (snd s)) \<and>
     (\<forall>i < piece_count t. hm_get (pm_pieces (dm_piece_manager (fst s))) (word_of_nat i) \<noteq> None) \<and>
     (\<forall>i p. hm_get (pm_pieces (dm_piece_manager (fst s))) i = Some p \<longrightarrow>
        stored (known heard) p \<and> (p_state p = PieceWritten \<longrightarrow> B (dw_disk (snd s)) (unat i)) \<and>
        (p_state p = PieceComplete \<longrightarrow> lossy \<and> has_data sha1 t bs heard (unat i)))"

lemma verified_frame:
  assumes "verified s" "dm_piece_manager (fst s') = dm_piece_manager (fst s)"
    and "dm_disk_io (fst s') = dm_disk_io (fst s)" "dw_disk (snd s') = dw_disk (snd s)"
  shows "verified s'"
  using assms by (simp add: verified_def)

lemma verified_index:
  assumes "verified (dm, w)" "hm_get (pm_pieces (dm_piece_manager dm)) j = Some p"
  shows "unat j < piece_count t" "piece_hash (t_info t) (unat j) = Some (p_hash p)"
    "p_length p = piece_length (t_info t)" "p_index p = j" "p_block_size p = bs"
proof -
  from assms have "pm_inv sha1 (dm_piece_manager dm)" "pm_torrent (dm_piece_manager dm) = t"
    "pm_block_size (dm_piece_manager dm) = bs" by (simp_all add: verified_def)
  with assms(2) obtain h where h: "piece_hash (t_info t) (unat j) = Some h"
    "piece_id p = (j, piece_length (t_info t), h, bs)"
    unfolding pm_inv_def by metis
  then show "unat j < piece_count t" by (auto simp: piece_hash_eq piece_count_def split: if_splits)
  show "piece_hash (t_info t) (unat j) = Some (p_hash p)" "p_length p = piece_length (t_info t)"
    "p_index p = j" "p_block_size p = bs" using h by (simp_all add: piece_id_def)
qed

text \<open>One piece replaced, with a disk on which the others are as they were.\<close>

lemma verified_put:
  assumes ver: "verified (dm, w)"
    and "pm_inv sha1 pm" "pm_torrent pm = t" "pm_block_size pm = bs"
    and "\<And>i. hm_get (pm_pieces pm) i =
      (if i = j then Some p' else hm_get (pm_pieces (dm_piece_manager dm)) i)"
    and "stored (known heard) p'" "p_state p' = PieceWritten \<Longrightarrow> B (dw_disk w') (unat j)"
    and "p_state p' = PieceComplete \<Longrightarrow> lossy \<and> has_data sha1 t bs heard (unat j)"
    and "D (dw_disk w')"
    and other: "\<And>i. i < piece_count t \<Longrightarrow> i \<noteq> unat j \<Longrightarrow> B (dw_disk w) i \<Longrightarrow> B (dw_disk w') i"
  shows "verified (dm\<lparr> dm_piece_manager := pm \<rparr>, w')"
proof -
  have old: "stored (known heard) q \<and> (p_state q = PieceWritten \<longrightarrow> B (dw_disk w') (unat i)) \<and>
      (p_state q = PieceComplete \<longrightarrow> lossy \<and> has_data sha1 t bs heard (unat i))"
    if q: "hm_get (pm_pieces (dm_piece_manager dm)) i = Some q" "i \<noteq> j" for i q
  proof -
    have "unat i \<noteq> unat j" using q(2) by (simp add: word_unat_eq_iff)
    with other [OF verified_index(1) [OF ver q(1)]] ver q(1) show ?thesis by (auto simp: verified_def)
  qed
  show ?thesis
    unfolding verified_def fst_conv snd_conv
  proof (intro conjI allI impI)
    fix i assume "i < piece_count t"
    then show "hm_get (pm_pieces (dm_piece_manager (dm\<lparr> dm_piece_manager := pm \<rparr>))) (word_of_nat i) \<noteq> None"
      using ver assms(5) by (simp add: verified_def)
  next
    fix i q assume "hm_get (pm_pieces (dm_piece_manager (dm\<lparr> dm_piece_manager := pm \<rparr>))) i = Some q"
    with old [of i q] assms(5-8) show "stored (known heard) q" "p_state q = PieceWritten \<Longrightarrow> B (dw_disk w') (unat i)"
      "p_state q = PieceComplete \<Longrightarrow> lossy" "p_state q = PieceComplete \<Longrightarrow> has_data sha1 t bs heard (unat i)"
      by (auto split: if_splits)
  qed (use assms in \<open>simp_all add: verified_def\<close>)
qed

lemma verified_request:
  assumes ver: "verified (dm, w)" and disk: "dw_disk w' = dw_disk w"
  shows "verified (dm\<lparr> dm_piece_manager := request_block now j q ip (dm_piece_manager dm) \<rparr>, w')"
proof (cases "hm_get (pm_pieces (dm_piece_manager dm)) j")
  case None
  with ver disk show ?thesis by (simp add: request_block_def verified_def)
next
  case (Some p)
  let ?pm = "dm_piece_manager dm"
  from ver have inv: "pm_inv sha1 ?pm" "pm_torrent ?pm = t" "pm_block_size ?pm = bs" "D (dw_disk w)"
    and p: "stored (known heard) p" "p_state p = PieceWritten \<Longrightarrow> B (dw_disk w) (unat j)"
      "p_state p = PieceComplete \<Longrightarrow> lossy \<and> has_data sha1 t bs heard (unat j)"
    using Some by (auto simp: verified_def)
  have req: "request_block now j q ip ?pm =
      ?pm\<lparr> pm_pieces := hm_insert j (piece_request_from_peer now q ip p) (pm_pieces ?pm) \<rparr>"
    by (simp add: request_block_def Some)
  show ?thesis
    by (rule verified_put [OF ver pm_request_ok [OF inv(1), THEN conjunct1], where
          j = j and p' = "piece_request_from_peer now q ip p"])
      (use inv p disk in \<open>simp_all add: req stored_request\<close>)
qed

text \<open>The block is stored, and the write of the piece, if there is one, has gone well or not.\<close>

lemma verified_store:
  assumes ver: "verified (dm, w)"
    and pm: "pm = (dm_piece_manager dm)\<lparr> pm_pieces := hm_insert j p' (pm_pieces (dm_piece_manager dm)) \<rparr>"
    and inv: "pm_inv sha1 pm" and p': "stored (known heard) p'" "p_state p' = PieceWritten \<Longrightarrow> B (dw_disk w) (unat j)"
    and complete: "p_state p' = PieceComplete \<Longrightarrow> lossy \<and> has_data sha1 t bs heard (unat j)"
  shows "verified (dm\<lparr> dm_piece_manager := pm \<rparr>, w)"
  by (rule verified_put [OF ver inv _ _ _ p' complete]) (use ver in \<open>simp_all add: verified_def pm\<close>)

lemma verified_write:
  assumes ver: "verified (dm, w)" and p: "hm_get (pm_pieces (dm_piece_manager dm)) j = Some p"
    and pm: "pm = (dm_piece_manager dm)\<lparr> pm_pieces := hm_insert j p' (pm_pieces (dm_piece_manager dm)) \<rparr>"
    and inv: "pm_inv sha1 pm" and p': "stored (known heard) p'" "p_state p' = PieceComplete"
    and d: "piece_get_data p' = Some (Some d)" and wr: "write_piece dio j d (dw_disk w) = (disk, r)"
  shows "r \<noteq> Panic" "r = Ok () \<Longrightarrow> verified (dm\<lparr> dm_piece_manager := mark_piece_written j pm \<rparr>,
      broadcast_have j (dm\<lparr> dm_piece_manager := mark_piece_written j pm \<rparr>) (w\<lparr> dw_disk := disk \<rparr>))"
    "r \<noteq> Ok () \<Longrightarrow> verified (dm\<lparr> dm_piece_manager := pm \<rparr>, w\<lparr> dw_disk := disk \<rparr>)"
proof -
  have get: "hm_get (pm_pieces pm) j = Some p'" by (simp add: pm)
  have t: "pm_torrent pm = t" "pm_block_size pm = bs" using ver by (simp_all add: pm verified_def)
  from inv get obtain h where h: "piece_hash (t_info t) (unat j) = Some h"
    "piece_id p' = (j, piece_length (t_info t), h, bs)" unfolding pm_inv_def t by blast
  note data = known_data [OF pm_piece_sound [OF inv get] p'(1) d]
  from data(1,2) h have x: "piece_hash (t_info t) (unat j) = Some (sha1 d)" "length d = unat (piece_length (t_info t))"
    by (simp_all add: piece_id_def)
  from data(3) h have blocks: "assembled t bs heard j d" by (simp add: assembled_def block_count_def piece_id_def)
  have D: "D (dw_disk w)" using ver by (simp add: verified_def)
  note written = writes [OF D verified_index(1) [OF ver p] good_hash [OF x blocks] wr]
  show "r \<noteq> Panic" using written by blast
  show "verified (dm\<lparr> dm_piece_manager := mark_piece_written j pm \<rparr>,
      broadcast_have j (dm\<lparr> dm_piece_manager := mark_piece_written j pm \<rparr>) (w\<lparr> dw_disk := disk \<rparr>))" if "r = Ok ()"
    by (rule verified_put [OF ver pm_written_ok [OF inv, THEN conjunct1], where j = j and p' = "piece_mask_written p'"])
      (use that ver p' written in \<open>simp_all add: verified_def mark_piece_written_def pm stored_written,
        simp_all add: piece_mask_written_def\<close>)
  show "verified (dm\<lparr> dm_piece_manager := pm \<rparr>, w\<lparr> dw_disk := disk \<rparr>)" if "r \<noteq> Ok ()"
    by (rule verified_put [OF ver inv, where j = j and p' = p'])
      (use that t p' x blocks written in \<open>auto simp: pm has_data_def\<close>)
qed

lemma verified_receive:
  assumes ver: "verified s" and data: "known heard j q data"
    and res: "handle_recieve_piece sha1 j q data s = Some s'"
  shows "verified s'"
proof -
  obtain dm w where s: "s = (dm, w)" by fastforce
  note ver = ver [unfolded s]
  have inv: "pm_inv sha1 (dm_piece_manager dm)" "dm_disk_io dm = Some dio" using ver by (simp_all add: verified_def)
  show ?thesis
  proof (cases "hm_get (pm_pieces (dm_piece_manager dm)) j")
    case None
    with res have "s' = s" by (simp add: s handle_recieve_piece_def receive_block_def)
    with ver show ?thesis by (simp add: s)
  next
    case (Some p)
    have p: "stored (known heard) p" "p_state p = PieceWritten \<Longrightarrow> B (dw_disk w) (unat j)"
      "p_state p = PieceComplete \<Longrightarrow> lossy \<and> has_data sha1 t bs heard (unat j)"
      using Some ver by (auto simp: verified_def)
    have layout: "piece_layout p" by (rule piece_sound_layout [OF pm_piece_sound [OF inv(1) Some]])
    obtain r p' where rec: "piece_receive_block sha1 q data p = Some (r, p')"
      using piece_receive_total [OF layout] by blast
    define pm where "pm = (dm_piece_manager dm)\<lparr> pm_pieces := hm_insert j p' (pm_pieces (dm_piece_manager dm)) \<rparr>"
    have recv: "receive_block sha1 j q data (dm_piece_manager dm) = Some (piece_is_complete p', pm)"
      by (simp add: receive_block_def Some rec pm_def)
    from pm_receive_ok [OF inv(1), of j q data] recv have pm_inv: "pm_inv sha1 pm" by auto
    have get: "get_piece_data j pm = piece_get_data p'" by (simp add: get_piece_data_def pm_def)
    note out = receive_outcome [OF layout rec]
    have st: "stored (known heard) p'"
      by (rule stored_receive [OF layout p(1) _ rec]) (use data verified_index(4) [OF ver Some] in simp)
    note store = verified_store [OF ver pm_def pm_inv]
    show ?thesis
    proof (cases "\<exists>d. piece_get_data p' = Some (Some d) \<and> p_state p' = PieceComplete")
      case True
      then obtain d where d: "piece_get_data p' = Some (Some d)" "p_state p' = PieceComplete" by blast
      obtain disk r where wr: "write_piece dio j d (dw_disk w) = (disk, r)" by fastforce
      note written = verified_write [OF ver Some pm_def pm_inv st d(2,1) wr]
      from d(2) have "piece_is_complete p'" by (simp add: piece_is_complete_def)
      with written res recv d(1) inv(2) get wr show ?thesis
        by (cases r) (simp_all add: s handle_recieve_piece_def Let_def)
    next
      case False
      have "verified (dm\<lparr> dm_piece_manager := pm \<rparr>, w)"
        by (rule store) (use out p st False in blast)+
      moreover have "piece_get_data p' = Some None" if "piece_is_complete p'"
        using False that piece_layout_receive [OF layout rec]
        by (auto simp: piece_get_data_eq piece_is_complete_def)
      ultimately show ?thesis using res recv get inv(2)
        by (auto simp: s handle_recieve_piece_def Let_def split: if_splits)
    qed
  qed
qed

lemma verified_turn:
  assumes ver: "verified s" and heard: "\<And>e ip. snd x = Some (e, ip) \<Longrightarrow> known_event heard e"
    and res: "turn sha1 x s = Some s'"
  shows "verified s'"
proof -
  obtain now received dm w where x: "x = (now, received)" and s: "s = (dm, w)" by (metis prod.exhaust)
  show ?thesis
  proof (cases received)
    case (Some ev)
    obtain e ip where ev: "ev = (e, ip)" by fastforce
    have e: "known_event heard e" using heard by (simp add: x Some ev)
    note res = turn_handled [OF res [unfolded x Some]]
    show ?thesis
    proof (cases e)
      case (ReceivedPiece i b block)
      with res e verified_receive [OF ver, of i "ucast b" block s'] show ?thesis
        by (simp add: ev known_event_def)
    next
      case PeerUnchoked
      have "verified (handle_unchoke now ip (dm, w))"
        using ver [unfolded s]
        by (auto simp: handle_unchoke_def request_pieces_from_peer_def request_next_block_for_piece_def
            split: option.split intro!: verified_request)
      with res show ?thesis by (simp add: ev PeerUnchoked s)
    qed (use ver res in \<open>auto simp: ev s handle_bitfield_def
        handle_have_def dm_remove_peer_def Let_def elim!: verified_frame split: option.splits\<close>)
  qed (use ver res in \<open>simp add: x\<close>)
qed

lemma verified_run:
  shows "verified s \<Longrightarrow> \<forall>x \<in> set xs. \<forall>e ip. snd x = Some (e, ip) \<longrightarrow> known_event heard e \<Longrightarrow>
    run_ops (turn sha1) xs s = Some s' \<Longrightarrow> verified s'"
proof (induction xs arbitrary: s)
  case (Cons x xs)
  from Cons.prems(3) obtain s1 where "turn sha1 x s = Some s1" "run_ops (turn sha1) xs s1 = Some s'"
    by (auto simp: bind_eq_Some_conv)
  with Cons.IH [of s1] Cons.prems(1,2) verified_turn [OF Cons.prems(1), of x s1] show ?case by auto
qed simp

lemma verified_start:
  assumes new: "download_manager_new t bs = Some dm" and count: "piece_count t \<le> 2 ^ 32"
    and disk: "D (dw_disk w)"
  shows "verified (start_download dio peers dm, w)"
proof -
  note new = download_manager_new_piece_manager [OF new]
  let ?pm = "dm_piece_manager dm"
  have fits: "piece_count t = 0 \<or> info_fits (t_info t) bs" using new piece_manager_new_iff by blast
  have pm: "pm_torrent ?pm = t" "pm_block_size ?pm = bs" and pieces: "pm_pieces ?pm =
      foldl (\<lambda>m i. hm_insert (word_of_nat i) (new_piece (t_info t) bs i) m) [] [0..<piece_count t]"
    using new [unfolded piece_manager_new_eq [OF fits], symmetric] by simp_all
  have get: "hm_get (pm_pieces ?pm) k =
      (if unat k < piece_count t then Some (new_piece (t_info t) bs (unat k)) else None)" for k
    unfolding pieces by (rule foldl_insert_get) (use count in simp)
  have piece: "stored (known heard) p \<and> p_state p = PieceMissing" if "hm_get (pm_pieces ?pm) k = Some p" for k p
  proof -
    from that get [of k] have k: "unat k < piece_count t" "p = new_piece (t_info t) bs (unat k)"
      by (auto split: if_splits)
    then have "info_fits (t_info t) bs" "unat k < length (raw_pieces (t_info t)) div 20"
      using fits by (auto simp: piece_count_def)
    from stored_new [OF new_piece_eq [OF this]] new_piece_state [OF this] k show ?thesis by simp
  qed
  have all: "hm_get (pm_pieces ?pm) (word_of_nat i) \<noteq> None" if "i < piece_count t" for i
  proof -
    have "unat (word_of_nat i :: u32) = i" by (rule unat_word_of_nat32) (use that count in simp)
    with that show ?thesis by (simp add: get)
  qed
  show ?thesis
    unfolding verified_def fst_conv snd_conv start_download_frame
  proof (intro conjI allI impI)
    show "pm_inv sha1 ?pm" by (rule pm_inv_new [OF new count])
    fix k p assume "hm_get (pm_pieces ?pm) k = Some p"
    from piece [OF this] show "stored (known heard) p" "p_state p = PieceWritten \<Longrightarrow> B (dw_disk w) (unat k)"
      "p_state p = PieceComplete \<Longrightarrow> lossy" "p_state p = PieceComplete \<Longrightarrow> has_data sha1 t bs heard (unat k)"
      by simp_all
  qed (use pm disk all in simp_all)
qed

text \<open>With the invariant, every piece of a complete download has been written, or its write has failed.\<close>

lemma verified_complete:
  assumes ver: "verified s" and count: "piece_count t \<le> 2 ^ 32"
    and complete: "is_download_complete (dm_piece_manager (fst s))" and i: "i < piece_count t"
  shows "B (dw_disk (snd s)) i \<or> lossy \<and> has_data sha1 t bs heard i"
proof -
  from ver i obtain p where p: "hm_get (pm_pieces (dm_piece_manager (fst s))) (word_of_nat i) = Some p"
    by (auto simp: verified_def)
  moreover have "hm_wf (pm_pieces (dm_piece_manager (fst s)))" using ver by (simp add: verified_def pm_inv_def)
  ultimately have "piece_is_complete p"
    using complete by (auto simp: is_download_complete_def list_all_iff hm_values_iff)
  moreover have "unat (word_of_nat i :: u32) = i" by (rule unat_word_of_nat32) (use i count in simp)
  moreover have "p_state p = PieceWritten \<Longrightarrow> B (dw_disk (snd s)) (unat (word_of_nat i :: u32))"
    "p_state p = PieceComplete \<Longrightarrow> lossy \<and> has_data sha1 t bs heard (unat (word_of_nat i :: u32))"
    using ver p unfolding verified_def by blast+
  ultimately show ?thesis by (auto simp: piece_is_complete_def)
qed

end

section \<open>Properties\<close>

text \<open>
  C2: A finished download is verified. For a single-file torrent of whole pieces below 4 GiB: whoever
  the peers are and whatever they send, if the event loop returns, then every piece of the file on
  disk has the hash the torrent names for it. Blocks are below 4 GiB, as their messages are.
\<close>

theorem finished_download_is_verified:
  assumes new: "download_manager_new t bs = Some dm"
    and torrent: "single_whole t" "0 < piece_count t" "piece_length (t_info t) \<noteq> 0"
    and opened: "disk_io_new base (info_files (t_info t)) (ucast (piece_length (t_info t))) d0 = (dw_disk w, Ok dio)"
    and small: "\<And>n e ip. snd (recv n) = Some (e, ip) \<Longrightarrow> small_event e"
    and returns: "dm_run sha1 recv 0 (start_download dio peers dm, w) = Some s"
  shows "\<forall>i < piece_count t.
    piece_hash (t_info t) i = Some (sha1 (image_slice t dio (dw_disk (snd s)) i))"
proof (intro allI impI)
  fix i assume i: "i < piece_count t"
  note count = single_whole_count [OF torrent(1,3)]
  from dm_run_ops [OF returns] obtain k where
    run: "run_ops (turn sha1) (map recv [0..<0 + Suc k]) (start_download dio peers dm, w) = Some s"
    and complete: "is_download_complete (dm_piece_manager (fst s))" by blast
  have ver: "hashes.verified t dio sha1 bs s"
    by (rule hashes.verified_run [OF hashes.verified_start [OF new count single_disk_new [OF torrent opened]] _ run])
      (use small known_event_small in auto)
  from hashes.verified_complete [OF this count complete i]
  show "piece_hash (t_info t) i = Some (sha1 (image_slice t dio (dw_disk (snd s)) i))"
    by (simp add: on_disk_def)
qed

theorem finished_download_is_verified_witness:
  "\<exists>s. dm_run sample_sha1 sample_recv 0 (start_download sample_single [([5], 0)] sample_dm, sample_dm_world)
      = Some s \<and> image_slice sample_torrent sample_single (dw_disk (snd s)) 0 = [1, 2, 3, 4]"
proof -
  obtain s where s: "dm_run sample_sha1 sample_recv 0
      (start_download sample_single [([5], 0)] sample_dm, sample_dm_world) = Some s"
    using honest_download_returns [OF sample_dm_new sample_few sample_facts(2-4) sample_events sample_taken] by blast
  have L: "piece_length (t_info sample_torrent) \<noteq> 0" by (simp add: sample_torrent_def)
  have small: "small_event e" if "snd (sample_recv n) = Some (e, ip)" for n e ip
    using that by (auto simp: sample_recv_def small_event_def split: if_splits)
  have "\<forall>i < piece_count sample_torrent. piece_hash (t_info sample_torrent) i =
      Some (sample_sha1 (image_slice sample_torrent sample_single (dw_disk (snd s)) i))"
    by (rule finished_download_is_verified [OF sample_dm_new sample_facts(1,2) L sample_facts(4) _ s]) (rule small)
  with sample_facts(2) have "sample_sha1 (image_slice sample_torrent sample_single (dw_disk (snd s)) 0) = replicate 20 7"
    by (metis sample_hash option.inject)
  then have "image_slice sample_torrent sample_single (dw_disk (snd s)) 0 = [1, 2, 3, 4]"
    by (simp add: sample_sha1_def split: if_splits)
  with s show ?thesis by blast
qed

end
