(* ===== verification/Peer_Manager.thy ===== *)
theory Peer_Manager
  imports Peer_Connection
begin

text \<open>
  The peer manager, \<open>src/core/peer/peer_manager.rs\<close>: one task per peer, which connects, runs the
  connection and forwards its events, tagged with the peer's address, to the download manager's
  channel. Tasks run concurrently, so the theory gives a step relation; a sender of commands is the
  number of its task. Channels are unbounded here; \<open>Bounded_Channels\<close> gives them their capacity.
\<close>

section \<open>State\<close>

record peer_manager =
  pmg_peer_senders :: "(peer_ip, nat) hash_map"
  pmg_peer_id :: bytes
  pmg_info_hash :: bytes

text \<open>
  A spawned task: not connected yet, running its connection, with a connection whose loop has ended
  (its events are still forwarded), or given up.
\<close>

datatype task_phase = Connecting | Running peer_connection | Stopped peer_connection | Refused

record peer_task =
  pt_ip :: peer_ip
  pt_bitfield :: "bytes option"
  pt_commands :: "manager_command list"
  pt_phase :: task_phase
  pt_forwarded :: nat

text \<open>
  The manager with its tasks, everything sent on the download channel so far, and whether the
  channel's receiver is alive.
\<close>

record swarm =
  sw_manager :: peer_manager
  sw_tasks :: "peer_task list"
  sw_events :: "(peer_event \<times> peer_ip) list"
  sw_receiving :: bool

section \<open>Operations\<close>

definition peer_manager_new :: "bytes \<Rightarrow> bytes \<Rightarrow> peer_manager" where
  "peer_manager_new pid info_hash =
    \<lparr> pmg_peer_senders = [], pmg_peer_id = pid, pmg_info_hash = info_hash \<rparr>"

definition swarm_new :: "bytes \<Rightarrow> bytes \<Rightarrow> swarm" where
  "swarm_new pid info_hash =
    \<lparr> sw_manager = peer_manager_new pid info_hash, sw_tasks = [], sw_events = [], sw_receiving = True \<rparr>"

definition add_peer :: "peer_ip \<Rightarrow> bytes option \<Rightarrow> swarm \<Rightarrow> swarm" where
  "add_peer ip bf sw =
    (let m = sw_manager sw in
     sw\<lparr> sw_manager := m\<lparr> pmg_peer_senders := hm_insert ip (length (sw_tasks sw)) (pmg_peer_senders m) \<rparr>,
         sw_tasks := sw_tasks sw @ [\<lparr> pt_ip = ip, pt_bitfield = bf, pt_commands = [],
           pt_phase = Connecting, pt_forwarded = 0 \<rparr>] \<rparr>)"

definition get_peer_sender :: "peer_ip \<Rightarrow> peer_manager \<Rightarrow> nat option" where
  "get_peer_sender ip m = hm_get (pmg_peer_senders m) ip"

text \<open>The receiver of the commands lives in the connection.\<close>

fun accepts_commands :: "task_phase \<Rightarrow> bool" where
  "accepts_commands Connecting = True"
| "accepts_commands (Running c) = True"
| "accepts_commands _ = False"

definition enqueue :: "nat \<Rightarrow> manager_command \<Rightarrow> peer_task list \<Rightarrow> peer_task list" where
  "enqueue k command tasks =
    (if k < length tasks \<and> accepts_commands (pt_phase (tasks ! k))
     then tasks[k := (tasks ! k)\<lparr> pt_commands := pt_commands (tasks ! k) @ [command] \<rparr>]
     else tasks)"

definition send_to_peer :: "peer_ip \<Rightarrow> manager_command \<Rightarrow> swarm \<Rightarrow> swarm" where
  "send_to_peer ip command sw =
    (case get_peer_sender ip (sw_manager sw) of
       Some k \<Rightarrow> sw\<lparr> sw_tasks := enqueue k command (sw_tasks sw) \<rparr>
     | None \<Rightarrow> sw)"

section \<open>The tasks\<close>

text \<open>
  Connecting, the handshake, and the bitfield the loop begins with. A connection that fails there
  is never run.
\<close>

definition start_task ::
  "(bytes \<times> u16 \<Rightarrow> (bytes \<times> bool) option) \<Rightarrow> instant \<Rightarrow> peer_manager \<Rightarrow> peer_task \<Rightarrow> peer_task" where
  "start_task connect now m t = t\<lparr> pt_phase :=
    (case peer_connection_new connect now (pt_ip t) (pmg_peer_id m) (pmg_info_hash m) of
       Ok c \<Rightarrow> (case send_bitfield (pt_bitfield t) c of Ok c \<Rightarrow> Running c | _ \<Rightarrow> Stopped c)
     | _ \<Rightarrow> Refused) \<rparr>"

text \<open>
  What the connection's \<open>select!\<close> can take: a message, the oldest command, or, when no command is
  left and no sender either, the end of the command channel. The result is the queue that is left.
\<close>

fun take_event :: "bool \<Rightarrow> select_event \<Rightarrow> manager_command list \<Rightarrow> manager_command list option" where
  "take_event held (FromPeer now) queue = Some queue"
| "take_event held (FromManager (Some command) k junk) (c # queue) = (if c = command then Some queue else None)"
| "take_event held (FromManager None k junk) [] = (if held then None else Some [])"
| "take_event held _ _ = None"

text \<open>One turn of the loop. An error ends it; no event is sent in a turn that fails.\<close>

definition run_task :: "select_event \<Rightarrow> manager_command list \<Rightarrow> peer_connection \<Rightarrow> peer_task \<Rightarrow> peer_task" where
  "run_task e queue c t = t\<lparr> pt_commands := queue, pt_phase :=
    (case run_loop [e] c of
       Ok (c, fin) \<Rightarrow> if fin then Stopped c else Running c
     | _ \<Rightarrow> Stopped c) \<rparr>"

definition task_conn :: "peer_task \<Rightarrow> peer_connection option" where
  "task_conn t = (case pt_phase t of Running c \<Rightarrow> Some c | Stopped c \<Rightarrow> Some c | _ \<Rightarrow> None)"

fun close_events :: "task_phase \<Rightarrow> task_phase" where
  "close_events (Running c) = Running (c\<lparr> manager_open := False \<rparr>)"
| "close_events ph = ph"

text \<open>
  The forwarding loop: the next event goes to the download channel; when that has no receiver any
  more the loop breaks, and the connection's events have no receiver either.
\<close>

definition forward :: "nat \<Rightarrow> peer_connection \<Rightarrow> swarm \<Rightarrow> swarm" where
  "forward k c sw =
    (let t = sw_tasks sw ! k in
     if sw_receiving sw then
       sw\<lparr> sw_events := sw_events sw @ [(to_manager c ! pt_forwarded t, pt_ip t)],
           sw_tasks := (sw_tasks sw)[k := t\<lparr> pt_forwarded := pt_forwarded t + 1 \<rparr>] \<rparr>
     else sw\<lparr> sw_tasks := (sw_tasks sw)[k := t\<lparr> pt_phase := close_events (pt_phase t) \<rparr>] \<rparr>)"

text \<open>A step of the swarm: one task starts, runs a turn, or forwards an event.\<close>

inductive swarm_step ::
  "(bytes \<times> u16 \<Rightarrow> (bytes \<times> bool) option) \<Rightarrow> swarm \<Rightarrow> swarm \<Rightarrow> bool" for connect where
  start: "k < length (sw_tasks sw) \<Longrightarrow> pt_phase (sw_tasks sw ! k) = Connecting \<Longrightarrow>
    swarm_step connect sw
      (sw\<lparr> sw_tasks := (sw_tasks sw)[k := start_task connect now (sw_manager sw) (sw_tasks sw ! k)] \<rparr>)"
| run: "k < length (sw_tasks sw) \<Longrightarrow> pt_phase (sw_tasks sw ! k) = Running c \<Longrightarrow>
    take_event (k \<in> set (hm_values (pmg_peer_senders (sw_manager sw)))) e (pt_commands (sw_tasks sw ! k))
      = Some queue \<Longrightarrow>
    swarm_step connect sw (sw\<lparr> sw_tasks := (sw_tasks sw)[k := run_task e queue c (sw_tasks sw ! k)] \<rparr>)"
| forward_event: "k < length (sw_tasks sw) \<Longrightarrow> task_conn (sw_tasks sw ! k) = Some c \<Longrightarrow>
    pt_forwarded (sw_tasks sw ! k) < length (to_manager c) \<Longrightarrow>
    swarm_step connect sw (forward k c sw)"

inductive_cases swarm_stepE: "swarm_step connect sw sw'"

section \<open>What the connection sends is only ever added to\<close>

lemma handle_message_extends:
  "handle_message now m c = Ok c' \<Longrightarrow>
     \<exists>es. to_manager c' = to_manager c @ es \<and> outbound c' = outbound c"
  by (cases m) (auto simp: send_event_iff Let_def)

lemma run_one_extends:
  assumes "run_loop [e] c = Ok (c', fin)"
  shows "\<exists>es. to_manager c' = to_manager c @ es"
proof (cases e)
  case (FromManager command k junk)
  with assms show ?thesis
    by (auto simp: Let_def cancel_read_def handle_manager_command_iff split: option.splits if_splits)
next
  case (FromPeer now)
  with assms obtain m b st where
    "handle_message now m (c\<lparr> buf := b, inbound := st \<rparr>) = Ok c'" by auto
  from handle_message_extends [OF this] show ?thesis by auto
qed

lemma run_one_mirrored: "mirrored c \<Longrightarrow> run_loop [e] c = Ok (c', fin) \<Longrightarrow> mirrored c'"
  by (rule mirrored_run_loop)

lemma new_silent: "peer_connection_new connect now ip pid ih = Ok c \<Longrightarrow> to_manager c = []"
  by (auto simp: peer_connection_new_def Let_def split: option.splits)

lemma new_connection:
  assumes "peer_connection_new connect now ip pid ih = Ok c" "send_bitfield bf c = Ok c'"
  shows "mirrored c'" "mirrored c" "to_manager c = []" "to_manager c' = []"
  using mirrored_new [OF assms(1)] mirrored_bitfield [OF _ assms(2)] assms
  by (auto simp: peer_connection_new_def send_bitfield_def write_buf_def Let_def
      split: option.splits if_splits)

section \<open>Forwarding\<close>

text \<open>
  The part of the channel with the events of one peer; and that for each task it is the beginning of
  what its connection has sent.
\<close>

definition events_from :: "peer_ip \<Rightarrow> (peer_event \<times> peer_ip) list \<Rightarrow> peer_event list" where
  "events_from ip events = map fst (filter (\<lambda>(_, i). i = ip) events)"

lemma events_from_append [simp]: "events_from ip (xs @ ys) = events_from ip xs @ events_from ip ys"
  by (simp add: events_from_def)

lemma events_from_single [simp]: "events_from ip [(e, i)] = (if i = ip then [e] else [])"
  by (simp add: events_from_def)

definition task_relayed :: "(peer_event \<times> peer_ip) list \<Rightarrow> peer_task \<Rightarrow> bool" where
  "task_relayed events t \<longleftrightarrow>
    (case task_conn t of
       None \<Rightarrow> pt_forwarded t = 0 \<and> events_from (pt_ip t) events = []
     | Some c \<Rightarrow> mirrored c \<and> pt_forwarded t \<le> length (to_manager c) \<and>
         events_from (pt_ip t) events = take (pt_forwarded t) (to_manager c))"

definition swarm_inv :: "swarm \<Rightarrow> bool" where
  "swarm_inv sw \<longleftrightarrow> distinct (map pt_ip (sw_tasks sw)) \<and>
     (\<forall>t \<in> set (sw_tasks sw). task_relayed (sw_events sw) t) \<and>
     (\<forall>(e, ip) \<in> set (sw_events sw). ip \<in> pt_ip ` set (sw_tasks sw))"

text \<open>What no step changes: the peers of the tasks, and the manager.\<close>

definition swarm_ident :: "swarm \<Rightarrow> peer_ip list \<times> peer_manager" where
  "swarm_ident sw = (map pt_ip (sw_tasks sw), sw_manager sw)"

lemma swarm_update:
  assumes inv: "swarm_inv sw" and k: "k < length (sw_tasks sw)" and ip: "pt_ip t = pt_ip (sw_tasks sw ! k)"
    and relayed: "task_relayed (sw_events sw @ es) t" and es: "\<forall>(e, i) \<in> set es. i = pt_ip t"
  shows "swarm_inv (sw\<lparr> sw_events := sw_events sw @ es, sw_tasks := (sw_tasks sw)[k := t] \<rparr>)"
proof -
  let ?ts = "(sw_tasks sw)[k := t]"
  have ips: "map pt_ip ?ts = map pt_ip (sw_tasks sw)"
    using ip k by (simp add: map_update list_update_same_conv)
  have other: "task_relayed (sw_events sw @ es) u" if u: "u \<in> set (sw_tasks sw)" "pt_ip u \<noteq> pt_ip t" for u
  proof -
    have "filter (\<lambda>(_, i). i = pt_ip u) es = []" using es u(2) by (auto simp: filter_empty_conv)
    then have "events_from (pt_ip u) es = []" by (simp add: events_from_def)
    with inv u(1) show ?thesis by (auto simp: swarm_inv_def task_relayed_def split: option.splits)
  qed
  have "task_relayed (sw_events sw @ es) u" if u: "u \<in> set ?ts" for u
  proof -
    from u obtain j where j: "j < length (sw_tasks sw)" "u = ?ts ! j" by (auto simp: in_set_conv_nth)
    show ?thesis
    proof (cases "j = k")
      case True
      with j relayed k show ?thesis by simp
    next
      case False
      have "distinct (map pt_ip (sw_tasks sw))" using inv by (simp add: swarm_inv_def)
      from nth_eq_iff_index_eq [OF this, of j k] False j k
      have "pt_ip (sw_tasks sw ! j) \<noteq> pt_ip t" by (simp add: ip)
      with False j show ?thesis by (simp add: other)
    qed
  qed
  moreover have "pt_ip ` set ?ts = pt_ip ` set (sw_tasks sw)" using ips by (metis set_map)
  moreover have "pt_ip t \<in> pt_ip ` set (sw_tasks sw)" using ip k by simp
  ultimately show ?thesis
    using inv es ips by (auto simp: swarm_inv_def)
qed

lemma swarm_update_task:
  assumes "swarm_inv sw" "k < length (sw_tasks sw)" "pt_ip t = pt_ip (sw_tasks sw ! k)"
    and "task_relayed (sw_events sw) t"
  shows "swarm_inv (sw\<lparr> sw_tasks := (sw_tasks sw)[k := t] \<rparr>)"
  using swarm_update [OF assms(1-3), of "[]"] assms(4) by simp

lemma relayed_start:
  "task_relayed events t \<Longrightarrow> pt_phase t = Connecting \<Longrightarrow> task_relayed events (start_task connect now m t)"
  by (auto simp: task_relayed_def task_conn_def start_task_def new_connection
      dest: mirrored_new new_connection split: outcome.splits)

lemma relayed_conn:
  assumes "task_relayed events t" "task_conn t = Some c" "task_conn t' = Some c'"
    and "pt_ip t' = pt_ip t" "pt_forwarded t' = pt_forwarded t" "mirrored c'" "to_manager c' = to_manager c @ es"
  shows "task_relayed events t'"
  using assms by (simp add: task_relayed_def)

lemma relayed_run:
  assumes "task_relayed events t" "pt_phase t = Running c"
  shows "task_relayed events (run_task e queue c t)"
proof -
  have conn: "task_conn t = Some c" using assms(2) by (simp add: task_conn_def)
  then have "mirrored c" using assms(1) by (simp add: task_relayed_def)
  show ?thesis
  proof (cases "\<exists>c' fin. run_loop [e] c = Ok (c', fin)")
    case True
    then obtain c' fin where ran: "run_loop [e] c = Ok (c', fin)" by blast
    from run_one_extends [OF ran] obtain es where "to_manager c' = to_manager c @ es" by blast
    from relayed_conn [OF assms(1) conn _ _ _ run_one_mirrored [OF \<open>mirrored c\<close> ran] this] show ?thesis
      by (simp add: run_task_def task_conn_def ran del: run_loop.simps)
  next
    case False
    then have "pt_phase (run_task e queue c t) = Stopped c"
      by (auto simp: run_task_def simp del: run_loop.simps split: outcome.split prod.split)
    with relayed_conn [OF assms(1) conn _ _ _ \<open>mirrored c\<close>, of _ "[]"] show ?thesis
      by (simp add: run_task_def task_conn_def)
  qed
qed

lemma swarm_step_inv:
  assumes "swarm_step connect sw sw'" "swarm_inv sw"
  shows "swarm_inv sw' \<and> swarm_ident sw' = swarm_ident sw"
  using assms(1)
proof cases
  case (start k now)
  have "task_relayed (sw_events sw) (sw_tasks sw ! k)" using assms(2) start by (simp add: swarm_inv_def)
  from swarm_update_task [OF assms(2) start(2) _ relayed_start [OF this start(3)]] start
  show ?thesis by (simp add: start_task_def swarm_ident_def map_update list_update_same_conv)
next
  case (run k c e queue)
  have "task_relayed (sw_events sw) (sw_tasks sw ! k)" using assms(2) run by (simp add: swarm_inv_def)
  from swarm_update_task [OF assms(2) run(2) _ relayed_run [OF this run(3)]] run
  show ?thesis by (simp add: run_task_def swarm_ident_def map_update list_update_same_conv)
next
  case (forward_event k c)
  let ?t = "sw_tasks sw ! k"
  have rel: "task_relayed (sw_events sw) ?t" using assms(2) forward_event by (simp add: swarm_inv_def)
  show ?thesis
  proof (cases "sw_receiving sw")
    case True
    let ?e = "to_manager c ! pt_forwarded ?t"
    have "take (pt_forwarded ?t + 1) (to_manager c) = take (pt_forwarded ?t) (to_manager c) @ [?e]"
      using forward_event(4) by (simp add: take_Suc_conv_app_nth)
    then have "task_relayed (sw_events sw @ [(?e, pt_ip ?t)]) (?t\<lparr> pt_forwarded := pt_forwarded ?t + 1 \<rparr>)"
      using rel forward_event(3,4) by (simp add: task_relayed_def task_conn_def)
    from swarm_update [OF assms(2) forward_event(2) _ this] True show ?thesis
      by (simp add: forward_event(1) forward_def Let_def swarm_ident_def map_update list_update_same_conv
          forward_event(2))
  next
    case False
    have "task_relayed (sw_events sw) (?t\<lparr> pt_phase := close_events (pt_phase ?t) \<rparr>)"
      using rel by (cases "pt_phase ?t") (simp_all add: task_relayed_def task_conn_def mirrored_def)
    from swarm_update_task [OF assms(2) forward_event(2) _ this] False show ?thesis
      by (simp add: forward_event(1) forward_def Let_def swarm_ident_def map_update list_update_same_conv
          forward_event(2))
  qed
qed

text \<open>Commands leave the events alone.\<close>

lemma enqueue_tasks:
  "map pt_ip (enqueue k command tasks) = map pt_ip tasks"
  "map pt_phase (enqueue k command tasks) = map pt_phase tasks"
  "map pt_forwarded (enqueue k command tasks) = map pt_forwarded tasks"
  by (simp_all add: enqueue_def map_update list_update_same_conv)

lemma task_relayed_commands [simp]: "task_relayed events (t\<lparr> pt_commands := q \<rparr>) = task_relayed events t"
  by (cases "pt_phase t") (simp_all add: task_relayed_def task_conn_def)

lemma relayed_enqueue:
  "\<forall>t \<in> set tasks. task_relayed events t \<Longrightarrow> \<forall>t \<in> set (enqueue k command tasks). task_relayed events t"
  by (auto simp: enqueue_def dest!: set_update_subset_insert [THEN subsetD])

lemma swarm_enqueue_inv:
  assumes "swarm_inv sw"
  shows "swarm_inv (sw\<lparr> sw_tasks := enqueue k command (sw_tasks sw) \<rparr>)"
proof -
  have "pt_ip ` set (enqueue k command (sw_tasks sw)) = pt_ip ` set (sw_tasks sw)"
    using enqueue_tasks(1) by (metis set_map)
  with assms relayed_enqueue [of "sw_tasks sw" "sw_events sw" k command] show ?thesis
    by (simp add: swarm_inv_def enqueue_tasks)
qed

text \<open>The manager of a torrent with its peers added, each one once.\<close>

definition connect_peers :: "bytes \<Rightarrow> bytes \<Rightarrow> bytes option \<Rightarrow> peer_ip list \<Rightarrow> swarm" where
  "connect_peers pid info_hash bf peers = fold (\<lambda>ip. add_peer ip bf) peers (swarm_new pid info_hash)"

lemma connect_peers_tasks:
  "sw_tasks (connect_peers pid ih bf peers) = map (\<lambda>ip. \<lparr> pt_ip = ip, pt_bitfield = bf, pt_commands = [],
     pt_phase = Connecting, pt_forwarded = 0 \<rparr>) peers"
  "sw_events (connect_peers pid ih bf peers) = []" "sw_receiving (connect_peers pid ih bf peers)"
  "pmg_peer_id (sw_manager (connect_peers pid ih bf peers)) = pid"
  "pmg_info_hash (sw_manager (connect_peers pid ih bf peers)) = ih"
proof -
  have "sw_tasks (fold (\<lambda>ip. add_peer ip bf) peers sw) = sw_tasks sw @ map (\<lambda>ip. \<lparr> pt_ip = ip,
        pt_bitfield = bf, pt_commands = [], pt_phase = Connecting, pt_forwarded = 0 \<rparr>) peers \<and>
      sw_events (fold (\<lambda>ip. add_peer ip bf) peers sw) = sw_events sw \<and>
      sw_receiving (fold (\<lambda>ip. add_peer ip bf) peers sw) = sw_receiving sw \<and>
      pmg_peer_id (sw_manager (fold (\<lambda>ip. add_peer ip bf) peers sw)) = pmg_peer_id (sw_manager sw) \<and>
      pmg_info_hash (sw_manager (fold (\<lambda>ip. add_peer ip bf) peers sw)) = pmg_info_hash (sw_manager sw)" for sw
    by (induction peers arbitrary: sw) (simp_all add: add_peer_def Let_def)
  then show "sw_tasks (connect_peers pid ih bf peers) = map (\<lambda>ip. \<lparr> pt_ip = ip, pt_bitfield = bf,
      pt_commands = [], pt_phase = Connecting, pt_forwarded = 0 \<rparr>) peers"
    "sw_events (connect_peers pid ih bf peers) = []" "sw_receiving (connect_peers pid ih bf peers)"
    "pmg_peer_id (sw_manager (connect_peers pid ih bf peers)) = pid"
    "pmg_info_hash (sw_manager (connect_peers pid ih bf peers)) = ih"
    by (simp_all add: connect_peers_def swarm_new_def peer_manager_new_def)
qed

lemma swarm_inv_connect: "distinct peers \<Longrightarrow> swarm_inv (connect_peers pid ih bf peers)"
  by (auto simp: swarm_inv_def connect_peers_tasks task_relayed_def task_conn_def events_from_def comp_def)

end
