(* ===== verification/Torrent_Stats.thy ===== *)
theory Torrent_Stats
  imports Prelude
begin

text \<open>
  The transfer counters, \<open>src/core/torrent_stats.rs\<close>, which the trackers report. They are shared behind
  a lock; an operation takes the counters as they are when it holds it.
\<close>

section \<open>Counters\<close>

record torrent_stats =
  ts_downloaded :: u64
  ts_uploaded :: u64
  ts_left :: u64

definition torrent_stats_new :: "u64 \<Rightarrow> torrent_stats" where
  "torrent_stats_new total_size = \<lparr> ts_downloaded = 0, ts_uploaded = 0, ts_left = total_size \<rparr>"

text \<open>\<open>saturating_sub\<close>.\<close>

definition saturating_sub :: "u64 \<Rightarrow> u64 \<Rightarrow> u64" where
  "saturating_sub x y = (if y \<le> x then x - y else 0)"

definition update_downloaded :: "u64 \<Rightarrow> torrent_stats \<Rightarrow> torrent_stats" where
  "update_downloaded n s =
    s\<lparr> ts_downloaded := ts_downloaded s + n, ts_left := saturating_sub (ts_left s) n \<rparr>"

definition update_uploaded :: "u64 \<Rightarrow> torrent_stats \<Rightarrow> torrent_stats" where
  "update_uploaded n s = s\<lparr> ts_uploaded := ts_uploaded s + n \<rparr>"

definition updated_left :: "u64 \<Rightarrow> torrent_stats \<Rightarrow> torrent_stats" where
  "updated_left n s = s\<lparr> ts_left := ts_left s + n \<rparr>"

lemma unat_saturating_sub: "unat (saturating_sub x y) = unat x - unat y"
  by (auto simp: saturating_sub_def unat_sub word_le_nat_alt)

section \<open>Properties\<close>

text \<open>
  Downloading the torrent in any portions that sum to its size, or to less, keeps the books: what is
  downloaded and what is left always add up to the total.
\<close>

theorem stats_balance:
  assumes "sum_list (map unat ns) \<le> unat total_size"
  shows "unat (ts_downloaded (foldl (\<lambda>s n. update_downloaded n s) (torrent_stats_new total_size) ns)) +
    unat (ts_left (foldl (\<lambda>s n. update_downloaded n s) (torrent_stats_new total_size) ns)) =
    unat total_size"
proof -
  have "unat (ts_downloaded (foldl (\<lambda>s n. update_downloaded n s) (torrent_stats_new total_size) ns)) =
      sum_list (map unat ns) \<and>
    unat (ts_left (foldl (\<lambda>s n. update_downloaded n s) (torrent_stats_new total_size) ns)) =
      unat total_size - sum_list (map unat ns)"
    using assms
  proof (induction ns rule: rev_induct)
    case (snoc n ns)
    let ?s = "foldl (\<lambda>s n. update_downloaded n s) (torrent_stats_new total_size) ns"
    from snoc have IH: "unat (ts_downloaded ?s) = sum_list (map unat ns)"
      "unat (ts_left ?s) = unat total_size - sum_list (map unat ns)" by auto
    have "unat (ts_downloaded ?s + n) = unat (ts_downloaded ?s) + unat n"
      by (rule unat_add64) (use IH snoc.prems unat_u64_less [of total_size] in simp)
    with IH show ?case by (simp add: update_downloaded_def unat_saturating_sub)
  qed (simp add: torrent_stats_new_def)
  with assms show ?thesis by simp
qed

theorem stats_balance_witness:
  "unat (ts_left (foldl (\<lambda>s n. update_downloaded n s) (torrent_stats_new 10) [3, 4])) = 3"
  using stats_balance [of "[3, 4]" 10]
  by (simp add: update_downloaded_def torrent_stats_new_def saturating_sub_def)

end
