(* ===== verification/Tracker_UDP.thy ===== *)
theory Tracker_UDP
  imports Torrent_Stats Utf8 Codec Bencode_Decode
begin

text \<open>
  The UDP tracker client, \<open>src/core/tracker/tracker_udp.rs\<close>, and the errors of
  \<open>src/core/tracker/tracker_error.rs\<close>. The network is a world that says, for the \<open>n\<close>-th exchange, which
  random number is drawn, whether the request can be sent, what comes back and how long it takes to
  come; it records what was sent and how the clock moves. A reply that takes longer than
  \<open>CONNECTION_TIMEOUT\<close>, or never comes, is not waited for. Sending a datagram takes no time.
\<close>

section \<open>The world\<close>

datatype tracker_error =
    InvalidUri
  | StreamError
  | HyperError
  | HttpError
  | UTF8Error
  | InvalidURIParts
  | BencodeError decode_error
  | StreamingError
  | TrackerOther string

datatype udp_reply =
    RecvError
  | Datagram bytes

record udp_world =
  u_random :: "nat \<Rightarrow> u32"
  u_sendable :: "nat \<Rightarrow> bool"
  u_reply :: "nat \<Rightarrow> bytes \<Rightarrow> udp_reply"
  u_delay :: "nat \<Rightarrow> nat"
  u_lookup :: nat
  u_count :: nat
  u_sent :: "bytes list"
  u_clock :: instant

definition connection_timeout :: nat where
  "connection_timeout = 15 * 1000000000"

text \<open>
  One \<open>send_to\<close> and the \<open>timeout\<close> around the receive that follows it: \<open>None\<close> is the elapsed timeout. With
  \<open>u_lookup\<close>, the time the resolver takes, all waiting is on the clock.
\<close>

definition exchange :: "bytes \<Rightarrow> udp_world \<Rightarrow> udp_world \<times> (tracker_error, udp_reply option) outcome" where
  "exchange req w =
    (let n = u_count w in
     if u_sendable w n then
       if u_delay w n \<le> connection_timeout
       then (w\<lparr> u_count := n + 1, u_sent := u_sent w @ [req], u_clock := u_clock w + u_delay w n \<rparr>,
             Ok (Some (u_reply w n req)))
       else (w\<lparr> u_count := n + 1, u_sent := u_sent w @ [req], u_clock := u_clock w + connection_timeout \<rparr>,
             Ok None)
     else (w\<lparr> u_count := n + 1 \<rparr>, Err StreamError))"

section \<open>Messages\<close>

definition create_connect_request :: "u32 \<Rightarrow> bytes" where
  "create_connect_request transaction_id =
    (let buf = replicate 16 0;
         buf = splice buf 0 (be64 0x41727101980);
         buf = splice buf 8 (be32 0);
         buf = splice buf 12 (be32 transaction_id)
     in buf)"

record announce_request_udp =
  arq_info_hash :: bytes
  arq_peer_id :: bytes
  arq_event :: u32
  arq_ip_address :: u32
  arq_key :: u32
  arq_num_want :: u32
  arq_port :: u16

definition announce_request_new :: "bytes \<Rightarrow> bytes \<Rightarrow> u16 \<Rightarrow> u32 \<Rightarrow> announce_request_udp" where
  "announce_request_new info_hash peer_id port key =
    \<lparr> arq_info_hash = info_hash, arq_peer_id = peer_id, arq_event = 0, arq_ip_address = 0,
      arq_key = key, arq_num_want = 50, arq_port = port \<rparr>"

text \<open>The counters are read under their lock, here an argument.\<close>

definition announce_request_to_bytes ::
  "torrent_stats \<Rightarrow> announce_request_udp \<Rightarrow> u64 \<Rightarrow> u32 \<Rightarrow> bytes" where
  "announce_request_to_bytes stats req connection_id transaction_id =
    (let buf = replicate 98 0;
         buf = splice buf 0 (be64 connection_id);
         buf = splice buf 8 (be32 1);
         buf = splice buf 12 (be32 transaction_id);
         buf = splice buf 16 (arq_info_hash req);
         buf = splice buf 36 (arq_peer_id req);
         buf = splice buf 56 (be64 (ts_downloaded stats));
         buf = splice buf 64 (be64 (ts_left stats));
         buf = splice buf 72 (be64 (ts_uploaded stats));
         buf = splice buf 80 (be32 (arq_event req));
         buf = splice buf 84 (be32 (arq_ip_address req));
         buf = splice buf 88 (be32 (arq_key req));
         buf = splice buf 92 (be32 (arq_num_want req));
         buf = splice buf 96 (be16 (arq_port req))
     in buf)"

record announce_response_udp =
  ar_action :: u32
  ar_transaction_id :: u32
  ar_interval :: u32
  ar_leechers :: u32
  ar_seeders :: u32
  ar_peers :: "peer_ip list"

definition announce_response_from_bytes :: "bytes \<Rightarrow> (tracker_error, announce_response_udp) outcome" where
  "announce_response_from_bytes data =
    (if length data < 20 then Err (TrackerOther ''Response too short'')
     else
       obind (be32_at data 0) (\<lambda>action.
       obind (be32_at data 4) (\<lambda>transaction_id.
       obind (be32_at data 8) (\<lambda>interval.
       obind (be32_at data 12) (\<lambda>leechers.
       obind (be32_at data 16) (\<lambda>seeders.
       obind (subslice data 20 (length data)) (\<lambda>peer_data.
       if length peer_data mod 6 \<noteq> 0 then Err (TrackerOther ''Invalid peer data length'')
       else Ok \<lparr> ar_action = action, ar_transaction_id = transaction_id, ar_interval = interval,
              ar_leechers = leechers, ar_seeders = seeders, ar_peers = chunks_exact 6 peer_data \<rparr>)))))))"

record connection_response =
  cr_action :: u32
  cr_transaction_id :: u32
  cr_connection_id :: u64

definition connection_response_from_bytes :: "bytes \<Rightarrow> connection_response" where
  "connection_response_from_bytes data =
    \<lparr> cr_action = of_be (take 4 data), cr_transaction_id = of_be (take 4 (drop 4 data)),
      cr_connection_id = of_be (take 8 (drop 8 data)) \<rparr>"

section \<open>Receiving\<close>

text \<open>The buffer has 1024 bytes; \<open>recv_from\<close> drops what does not fit.\<close>

fun recv_conn_id_response :: "bytes option \<Rightarrow> (tracker_error, connection_response) outcome" where
  "recv_conn_id_response None = Err StreamError"
| "recv_conn_id_response (Some datagram) =
    (let received = take 1024 datagram in
     if length received \<noteq> 16 then Err (TrackerOther ''Invalid tracker response length'')
     else Ok (connection_response_from_bytes received))"

fun recv_announce_response :: "bytes option \<Rightarrow> (tracker_error, announce_response_udp) outcome" where
  "recv_announce_response None = Err StreamError"
| "recv_announce_response (Some datagram) =
    (let received = take 1024 datagram in
     if length received < 20 then Err (TrackerOther ''Invalid tracker response length'')
     else announce_response_from_bytes received)"

fun received :: "udp_reply \<Rightarrow> bytes option" where
  "received RecvError = None"
| "received (Datagram d) = Some d"

section \<open>The two request loops\<close>

definition max_retries :: nat where
  "max_retries = 3"

fun get_connection_id_loop :: "nat \<Rightarrow> udp_world \<Rightarrow> udp_world \<times> (tracker_error, u64) outcome" where
  "get_connection_id_loop 0 w = (w, Err (TrackerOther ''Max Retries Exceeded''))"
| "get_connection_id_loop (Suc n) w =
    (let transaction_id = u_random w (u_count w) in
     (case exchange (create_connect_request transaction_id) w of
        (w, Ok reply) \<Rightarrow>
          (case reply of
             None \<Rightarrow> get_connection_id_loop n w
           | Some r \<Rightarrow>
               (case recv_conn_id_response (received r) of
                  Ok response \<Rightarrow>
                    if cr_action response = 0 \<and> cr_transaction_id response = transaction_id
                    then (w, Ok (cr_connection_id response))
                    else get_connection_id_loop n w
                | Err e \<Rightarrow> (w, Err e)
                | Panic \<Rightarrow> (w, Panic)))
      | (w, Err e) \<Rightarrow> (w, Err e)
      | (w, Panic) \<Rightarrow> (w, Panic)))"

definition get_connection_id :: "udp_world \<Rightarrow> udp_world \<times> (tracker_error, u64) outcome" where
  "get_connection_id w = get_connection_id_loop max_retries w"

fun announce_loop ::
  "nat \<Rightarrow> u64 \<Rightarrow> torrent_stats \<Rightarrow> announce_request_udp \<Rightarrow> udp_world \<Rightarrow>
   udp_world \<times> (tracker_error, announce_response_udp) outcome" where
  "announce_loop 0 connection_id stats req w = (w, Err (TrackerOther ''Max Retries Exceeded''))"
| "announce_loop (Suc n) connection_id stats req w =
    (let transaction_id = u_random w (u_count w) in
     (case exchange (announce_request_to_bytes stats req connection_id transaction_id) w of
        (w, Ok reply) \<Rightarrow>
          (case reply of
             None \<Rightarrow> announce_loop n connection_id stats req w
           | Some r \<Rightarrow>
               (case recv_announce_response (received r) of
                  Ok response \<Rightarrow>
                    if ar_action response = 1 \<and> ar_transaction_id response = transaction_id
                    then (w, Ok response)
                    else announce_loop n connection_id stats req w
                | Err e \<Rightarrow> (w, Err e)
                | Panic \<Rightarrow> (w, Panic)))
      | (w, Err e) \<Rightarrow> (w, Err e)
      | (w, Panic) \<Rightarrow> (w, Panic)))"

definition announce_udp ::
  "u64 \<Rightarrow> torrent_stats \<Rightarrow> announce_request_udp \<Rightarrow> udp_world \<Rightarrow>
   udp_world \<times> (tracker_error, announce_response_udp) outcome" where
  "announce_udp connection_id stats req w = announce_loop max_retries connection_id stats req w"

section \<open>The tracker\<close>

datatype socket_addr = V4 peer_ip | V6 bytes

record tracker_udp =
  tu_server_addr :: socket_addr
  tu_connection_id :: u64
  tu_connection_time :: instant
  tu_request :: announce_request_udp
  tu_last_announce :: instant
  tu_response :: announce_response_udp

definition connection_expiry :: nat where
  "connection_expiry = 120 * 1000000000"

definition refresh_connection ::
  "tracker_udp \<Rightarrow> udp_world \<Rightarrow> (udp_world \<times> tracker_udp) \<times> (tracker_error, unit) outcome" where
  "refresh_connection t w =
    (case get_connection_id w of
       (w, Ok cid) \<Rightarrow> ((w, t\<lparr> tu_connection_id := cid \<rparr>), Ok ())
     | (w, Err e) \<Rightarrow> ((w, t), Err e)
     | (w, Panic) \<Rightarrow> ((w, t), Panic))"

definition tracker_get_connection_id ::
  "tracker_udp \<Rightarrow> udp_world \<Rightarrow> (udp_world \<times> tracker_udp) \<times> (tracker_error, u64) outcome" where
  "tracker_get_connection_id t w =
    (if connection_expiry \<le> u_clock w - tu_connection_time t then
       (case refresh_connection t w of
          ((w, t), r) \<Rightarrow> ((w, t), obind r (\<lambda>_. Ok (tu_connection_id t))))
     else ((w, t), Ok (tu_connection_id t)))"

definition tracker_announce ::
  "torrent_stats \<Rightarrow> tracker_udp \<Rightarrow> udp_world \<Rightarrow>
   (udp_world \<times> tracker_udp) \<times> (tracker_error, announce_response_udp) outcome" where
  "tracker_announce stats t w =
    (case tracker_get_connection_id t w of
       ((w, t), Ok cid) \<Rightarrow>
         (case announce_udp cid stats (tu_request t) w of
            (w, Ok response) \<Rightarrow> ((w, t\<lparr> tu_last_announce := u_clock w \<rparr>), Ok response)
          | (w, Err e) \<Rightarrow> ((w, t), Err e)
          | (w, Panic) \<Rightarrow> ((w, t), Panic))
     | ((w, t), Err e) \<Rightarrow> ((w, t), Err e)
     | ((w, t), Panic) \<Rightarrow> ((w, t), Panic))"

text \<open>\<open>elapsed().as_secs()\<close>.\<close>

definition elapsed_secs :: "instant \<Rightarrow> instant \<Rightarrow> nat" where
  "elapsed_secs now t = (now - t) div 1000000000"

definition udp_get_peers ::
  "torrent_stats \<Rightarrow> tracker_udp \<Rightarrow> udp_world \<Rightarrow>
   (udp_world \<times> tracker_udp) \<times> (tracker_error, peer_ip list) outcome" where
  "udp_get_peers stats t w =
    (if elapsed_secs (u_clock w) (tu_last_announce t) > unat (ar_interval (tu_response t)) then
       (case tracker_announce stats t w of
          ((w, t), Ok response) \<Rightarrow> ((w, t\<lparr> tu_response := response \<rparr>), Ok (ar_peers response))
        | ((w, t), Err e) \<Rightarrow> ((w, t), Err e)
        | ((w, t), Panic) \<Rightarrow> ((w, t), Panic))
     else ((w, t), Ok (ar_peers (tu_response t))))"

section \<open>Construction\<close>

definition is_ipv4 :: "socket_addr \<Rightarrow> bool" where
  "is_ipv4 a = (case a of V4 _ \<Rightarrow> True | V6 _ \<Rightarrow> False)"

text \<open>\<open>lookup_host\<close> is the resolver; it fails, or gives the addresses of a host and port, and takes its time.\<close>

definition parse_udp_url ::
  "(bytes \<Rightarrow> socket_addr list option) \<Rightarrow> bytes \<Rightarrow> udp_world \<Rightarrow>
   udp_world \<times> (tracker_error, socket_addr) outcome" where
  "parse_udp_url lookup_host url w =
    (if take 6 url \<noteq> ascii ''udp://'' then (w, Err (TrackerOther ''Invalid UDP URL format''))
     else
       let host_port = takeWhile (\<lambda>b. b \<noteq> 47) (drop 6 url) in
       (w\<lparr> u_clock := u_clock w + u_lookup w \<rparr>,
        (case lookup_host host_port of
           None \<Rightarrow> Err (TrackerOther ''DNS resolve error'')
         | Some addrs \<Rightarrow>
             (case filter is_ipv4 addrs of
                a # _ \<Rightarrow> Ok a
              | [] \<Rightarrow> Err (TrackerOther ''No IPv4 address found for tracker'')))))"

definition tracker_udp_new ::
  "(bytes \<Rightarrow> socket_addr list option) \<Rightarrow> bool \<Rightarrow> u32 \<Rightarrow> bytes \<Rightarrow> bytes \<Rightarrow> bytes \<Rightarrow> torrent_stats \<Rightarrow> u16 \<Rightarrow>
   udp_world \<Rightarrow> udp_world \<times> (tracker_error, tracker_udp) outcome" where
  "tracker_udp_new lookup_host bind_ok key announce_url info_hash peer_id stats port w =
    (if \<not> is_utf8 announce_url then (w, Err UTF8Error)
     else
       (case parse_udp_url lookup_host announce_url w of
          (w, Ok addr) \<Rightarrow>
            if \<not> bind_ok then (w, Err StreamError)
            else
              (case get_connection_id w of
                 (w, Ok cid) \<Rightarrow>
                   (let req = announce_request_new info_hash peer_id port key in
                    (case announce_udp cid stats req w of
                       (w, Ok response) \<Rightarrow>
                         (w, Ok \<lparr> tu_server_addr = addr,
                              tu_connection_id = cid, tu_connection_time = u_clock w, tu_request = req,
                              tu_last_announce = u_clock w, tu_response = response \<rparr>)
                     | (w, Err e) \<Rightarrow> (w, Err e)
                     | (w, Panic) \<Rightarrow> (w, Panic)))
               | (w, Err e) \<Rightarrow> (w, Err e)
               | (w, Panic) \<Rightarrow> (w, Panic))
        | (w, Err e) \<Rightarrow> (w, Err e)
        | (w, Panic) \<Rightarrow> (w, Panic)))"

section \<open>The layout of the messages\<close>

lemma splice_fill:
  "length xs = p \<Longrightarrow> splice (xs @ replicate n 0) p ys = (xs @ ys) @ replicate (n - length ys) 0"
  by (simp add: splice_def)

lemma create_connect_request_eq:
  "create_connect_request tid = be64 0x41727101980 @ be32 0 @ be32 tid"
proof -
  have "create_connect_request tid = splice (splice (splice ([] @ replicate 16 0) 0 (be64 0x41727101980)) 8 (be32 0)) 12 (be32 tid)"
    by (simp add: create_connect_request_def)
  also have "\<dots> = be64 0x41727101980 @ be32 0 @ be32 tid"
    by (subst splice_fill, simp, subst splice_fill, simp, subst splice_fill, simp, simp)
  finally show ?thesis .
qed

lemma announce_request_to_bytes_eq:
  assumes "length (arq_info_hash req) = 20" "length (arq_peer_id req) = 20"
  shows "announce_request_to_bytes stats req cid tid =
    be64 cid @ be32 1 @ be32 tid @ arq_info_hash req @ arq_peer_id req @
    be64 (ts_downloaded stats) @ be64 (ts_left stats) @ be64 (ts_uploaded stats) @
    be32 (arq_event req) @ be32 (arq_ip_address req) @ be32 (arq_key req) @ be32 (arq_num_want req) @
    be16 (arq_port req)"
proof -
  note fill = splice_fill [where xs = "[]", simplified] splice_fill
  show ?thesis
    unfolding announce_request_to_bytes_def Let_def
    by (simp only: fill length_append length_be assms list.size) simp
qed

text \<open>What a tracker sends: the decoders are measured against it.\<close>

definition announce_reply :: "announce_response_udp \<Rightarrow> bytes" where
  "announce_reply r = be32 (ar_action r) @ be32 (ar_transaction_id r) @ be32 (ar_interval r) @
     be32 (ar_leechers r) @ be32 (ar_seeders r) @ concat (ar_peers r)"

definition announce_ok :: "announce_response_udp \<Rightarrow> bool" where
  "announce_ok r \<longleftrightarrow> (\<forall>p \<in> set (ar_peers r). length p = 6)"

definition connect_reply :: "connection_response \<Rightarrow> bytes" where
  "connect_reply r = be32 (cr_action r) @ be32 (cr_transaction_id r) @ be64 (cr_connection_id r)"

lemma length_concat_six: "\<forall>p \<in> set ps. length p = 6 \<Longrightarrow> length (concat ps) = 6 * length ps"
  by (induction ps) auto

lemma announce_response_decode:
  assumes "announce_ok r"
  shows "announce_response_from_bytes (announce_reply r) = Ok r"
proof -
  have len: "length (concat (ar_peers r)) = 6 * length (ar_peers r)"
    using assms by (auto simp: announce_ok_def intro!: length_concat_six)
  moreover have "chunks_exact 6 (concat (ar_peers r)) = ar_peers r"
    using assms by (intro chunks_exact_concat) (auto simp: announce_ok_def)
  ultimately show ?thesis
    by (cases r) (simp add: announce_response_from_bytes_def announce_reply_def)
qed

lemma connection_response_decode: "connection_response_from_bytes (connect_reply r) = r"
  by (cases r) (simp add: connection_response_from_bytes_def connect_reply_def)

interpretation udp_announce: wire_codec announce_reply announce_response_from_bytes announce_ok
  by unfold_locales (rule announce_response_decode)

interpretation udp_connect: fixed_codec connect_reply
  "\<lambda>bs. Ok (connection_response_from_bytes bs) :: (unit, connection_response) outcome" "\<lambda>_. True" 16
  by unfold_locales (simp_all add: connection_response_decode, simp add: connect_reply_def)

lemma announce_response_peers:
  assumes "announce_response_from_bytes data = Ok r"
  shows "announce_ok r"
  using assms by (auto simp: announce_response_from_bytes_def announce_ok_def split: if_splits
      dest: chunks_exact_width)

lemma announce_response_no_panic [outcome_intro]: "announce_response_from_bytes data \<noteq> Panic"
  by (auto simp: announce_response_from_bytes_def)

lemma recv_no_panic [outcome_intro]: "recv_conn_id_response r \<noteq> Panic" "recv_announce_response r \<noteq> Panic"
  by (cases r; simp add: Let_def announce_response_no_panic)+

section \<open>The request loops\<close>

definition exchanged :: "bytes \<Rightarrow> udp_world \<Rightarrow> udp_world" where
  "exchanged req w = w\<lparr> u_count := u_count w + 1, u_sent := u_sent w @ [req],
     u_clock := u_clock w + min (u_delay w (u_count w)) connection_timeout \<rparr>"

lemma exchanged_simps [simp]:
  "u_random (exchanged req w) = u_random w" "u_sendable (exchanged req w) = u_sendable w"
  "u_reply (exchanged req w) = u_reply w" "u_delay (exchanged req w) = u_delay w"
  "u_lookup (exchanged req w) = u_lookup w" "u_count (exchanged req w) = Suc (u_count w)"
  "u_sent (exchanged req w) = u_sent w @ [req]"
  "u_clock (exchanged req w) = u_clock w + min (u_delay w (u_count w)) connection_timeout"
  by (simp_all add: exchanged_def)

lemma exchange_cases:
  obtains "u_sendable w (u_count w)" "u_delay w (u_count w) \<le> connection_timeout"
      "exchange req w = (exchanged req w, Ok (Some (u_reply w (u_count w) req)))"
    | "u_sendable w (u_count w)" "connection_timeout < u_delay w (u_count w)"
      "exchange req w = (exchanged req w, Ok None)"
    | "\<not> u_sendable w (u_count w)" "exchange req w = (w\<lparr> u_count := u_count w + 1 \<rparr>, Err StreamError)"
  by (cases "u_sendable w (u_count w)"; cases "u_delay w (u_count w) \<le> connection_timeout")
    (auto simp: exchange_def exchanged_def Let_def)

text \<open>The network itself is not changed by using it.\<close>

definition same_net :: "udp_world \<Rightarrow> udp_world \<Rightarrow> bool" where
  "same_net w w' \<longleftrightarrow> u_random w' = u_random w \<and> u_sendable w' = u_sendable w \<and> u_reply w' = u_reply w \<and>
     u_delay w' = u_delay w \<and> u_lookup w' = u_lookup w \<and> u_count w \<le> u_count w'"

lemma same_net_refl [simp]: "same_net w w"
  by (simp add: same_net_def)

lemma same_net_trans: "same_net w w1 \<Longrightarrow> same_net w1 w2 \<Longrightarrow> same_net w w2"
  by (auto simp: same_net_def)

lemma same_net_exchange: "exchange req w = (w', r) \<Longrightarrow> same_net w w'"
  by (rule exchange_cases [of w req]) (auto simp: same_net_def)

text \<open>
  What the loop with \<open>k\<close> tries left comes to: an id is the answer to the last request sent.
\<close>

definition connect_answered ::
  "nat \<Rightarrow> udp_world \<Rightarrow> udp_world \<Rightarrow> (tracker_error, u64) outcome \<Rightarrow> bool" where
  "connect_answered k w w' r \<longleftrightarrow> same_net w w' \<and> u_count w' \<le> u_count w + k \<and> r \<noteq> Panic \<and>
   (\<forall>cid. r = Ok cid \<longrightarrow> (\<exists>n d reqs. u_count w \<le> n \<and> n < u_count w + k \<and>
      u_sent w' = u_sent w @ reqs @ [create_connect_request (u_random w n)] \<and>
      u_reply w n (create_connect_request (u_random w n)) = Datagram d \<and> length d = 16 \<and>
      connection_response_from_bytes d =
        \<lparr> cr_action = 0, cr_transaction_id = u_random w n, cr_connection_id = cid \<rparr>))"

abbreviation after_connect :: "udp_world \<Rightarrow> udp_world" where
  "after_connect w \<equiv> exchanged (create_connect_request (u_random w (u_count w))) w"

lemma connect_answered_again:
  assumes "connect_answered k (after_connect w) w' r"
  shows "connect_answered (Suc k) w w' r"
proof -
  let ?req = "create_connect_request (u_random w (u_count w))"
  have net: "same_net w (after_connect w)" by (simp add: same_net_def)
  have "\<exists>n d reqs. u_count w \<le> n \<and> n < u_count w + Suc k \<and>
      u_sent w' = u_sent w @ reqs @ [create_connect_request (u_random w n)] \<and>
      u_reply w n (create_connect_request (u_random w n)) = Datagram d \<and> length d = 16 \<and>
      connection_response_from_bytes d =
        \<lparr> cr_action = 0, cr_transaction_id = u_random w n, cr_connection_id = cid \<rparr>" if "r = Ok cid" for cid
  proof -
    from assms that obtain n d reqs where
      "u_count w + 1 \<le> n" "n < u_count w + 1 + k"
      "u_sent w' = (u_sent w @ [?req]) @ reqs @ [create_connect_request (u_random w n)]"
      "u_reply w n (create_connect_request (u_random w n)) = Datagram d" "length d = 16"
      "connection_response_from_bytes d =
        \<lparr> cr_action = 0, cr_transaction_id = u_random w n, cr_connection_id = cid \<rparr>"
      by (auto simp: connect_answered_def)
    then show ?thesis by (intro exI [of _ n] exI [of _ d] exI [of _ "?req # reqs"]) auto
  qed
  with assms same_net_trans [OF net] show ?thesis
    by (auto simp: connect_answered_def)
qed

lemma connect_answered_now:
  assumes "u_reply w (u_count w) (create_connect_request (u_random w (u_count w))) = Datagram d" "length d = 16"
    and "cr_action (connection_response_from_bytes d) = 0"
    and "cr_transaction_id (connection_response_from_bytes d) = u_random w (u_count w)"
  shows "connect_answered (Suc k) w (after_connect w) (Ok (cr_connection_id (connection_response_from_bytes d)))"
proof -
  let ?r = "connection_response_from_bytes d"
  have "?r = \<lparr> cr_action = 0, cr_transaction_id = u_random w (u_count w),
      cr_connection_id = cr_connection_id ?r \<rparr>" using assms(3,4) by (cases ?r) simp
  with assms(1,2) show ?thesis
    by (simp add: connect_answered_def same_net_def,
        intro exI [of _ "u_count w"] conjI exI [where x = d] exI [where x = "[]"]) simp_all
qed

lemma connect_loop_answered: "get_connection_id_loop k w = (w', r) \<Longrightarrow> connect_answered k w w' r"
proof (induction k arbitrary: w)
  case (Suc k)
  let ?req = "create_connect_request (u_random w (u_count w))"
  have again: ?case if "get_connection_id_loop k (after_connect w) = (w', r)"
    by (rule connect_answered_again [OF Suc.IH [OF that]])
  have gone: ?case if "w' = after_connect w" "r = Err e" for e
    using that by (simp add: connect_answered_def same_net_def)
  show ?case
  proof (rule exchange_cases [of w ?req])
    assume ex: "exchange ?req w = (after_connect w, Ok (Some (u_reply w (u_count w) ?req)))"
    show ?case
    proof (cases "u_reply w (u_count w) ?req")
      case RecvError
      with Suc.prems ex show ?thesis by (intro gone) (auto simp: Let_def)
    next
      case (Datagram d)
      show ?thesis
      proof (cases "length (take 1024 d) = 16")
        case False
        with Suc.prems ex Datagram show ?thesis by (intro gone) (auto simp: Let_def)
      next
        case True
        then have len: "length d = 16" by auto
        then have "take 1024 d = d" by simp
        with Suc.prems ex Datagram len show ?thesis
          using connect_answered_now [OF Datagram len] again
          by (auto simp: Let_def split: if_splits)
      qed
    qed
  next
    assume "exchange ?req w = (after_connect w, Ok None)"
    with Suc.prems show ?case by (intro again) (simp add: Let_def)
  next
    assume "exchange ?req w = (w\<lparr> u_count := u_count w + 1 \<rparr>, Err StreamError)"
    with Suc.prems show ?case by (auto simp: Let_def same_net_def connect_answered_def)
  qed
qed (auto simp: connect_answered_def same_net_def)

lemmas connect_loop_spec = connect_loop_answered [unfolded connect_answered_def]

lemma announce_loop_spec:
  "announce_loop k cid stats req w = (w', r) \<Longrightarrow> same_net w w' \<and> u_count w' \<le> u_count w + k \<and>
     r \<noteq> Panic \<and> (\<exists>reqs. u_sent w' = u_sent w @ reqs) \<and>
     (\<forall>resp. r = Ok resp \<longrightarrow> announce_ok resp \<and> ar_action resp = 1)"
proof (induction k arbitrary: w)
  case (Suc k)
  let ?tid = "u_random w (u_count w)"
  let ?req = "announce_request_to_bytes stats req cid ?tid"
  have net: "same_net w (exchanged ?req w)" by (simp add: same_net_def)
  have again: ?case if "announce_loop k cid stats req (exchanged ?req w) = (w', r)"
    using Suc.IH [OF that] same_net_trans [OF net] by auto
  show ?case
  proof (rule exchange_cases [of w ?req])
    assume ex: "exchange ?req w = (exchanged ?req w, Ok (Some (u_reply w (u_count w) ?req)))"
    let ?d = "received (u_reply w (u_count w) ?req)"
    show ?case
    proof (cases "recv_announce_response ?d")
      case (Ok resp)
      then have ok: "announce_ok resp"
        by (cases ?d) (auto simp: Let_def split: if_splits dest: announce_response_peers)
      show ?thesis
      proof (cases "ar_action resp = 1 \<and> ar_transaction_id resp = ?tid")
        case True
        with Suc.prems ex Ok ok net show ?thesis by (auto simp: Let_def)
      next
        case False
        with Suc.prems ex Ok show ?thesis by (intro again) (simp add: Let_def)
      qed
    qed (use Suc.prems ex net recv_no_panic in \<open>auto simp: Let_def\<close>)
  next
    assume "exchange ?req w = (exchanged ?req w, Ok None)"
    with Suc.prems show ?case by (intro again) (simp add: Let_def)
  next
    assume "exchange ?req w = (w\<lparr> u_count := u_count w + 1 \<rparr>, Err StreamError)"
    with Suc.prems show ?case by (auto simp: Let_def same_net_def)
  qed
qed auto

text \<open>What asking for peers does to the tracker and to the network.\<close>

lemma get_connection_id_spec:
  assumes "tracker_get_connection_id t w = ((w', t'), r)"
  shows "t' = t\<lparr> tu_connection_id := tu_connection_id t' \<rparr> \<and> r \<noteq> Panic \<and>
    (connection_expiry \<le> u_clock w - tu_connection_time t \<longrightarrow> (\<forall>cid. r = Ok cid \<longrightarrow>
      (\<exists>n reqs. u_sent w' = u_sent w @ reqs @ [create_connect_request (u_random w n)])))"
proof (cases "connection_expiry \<le> u_clock w - tu_connection_time t")
  case True
  obtain w1 r1 where conn: "get_connection_id w = (w1, r1)" by fastforce
  from connect_loop_spec [OF conn [unfolded get_connection_id_def]] show ?thesis
    using assms True conn
    by (cases r1) (auto simp: tracker_get_connection_id_def refresh_connection_def)
qed (use assms in \<open>auto simp: tracker_get_connection_id_def\<close>)

lemma tracker_announce_spec:
  assumes "tracker_announce stats t w = ((w', t'), r)"
  shows "tu_connection_time t' = tu_connection_time t \<and> tu_response t' = tu_response t \<and> r \<noteq> Panic \<and>
    (\<forall>resp. r = Ok resp \<longrightarrow> announce_ok resp) \<and>
    (connection_expiry \<le> u_clock w - tu_connection_time t \<longrightarrow> (\<forall>resp. r = Ok resp \<longrightarrow>
      (\<exists>n reqs rest. u_sent w' = u_sent w @ reqs @ [create_connect_request (u_random w n)] @ rest)))"
proof -
  obtain w1 t1 r1 where conn: "tracker_get_connection_id t w = ((w1, t1), r1)" by (metis prod.exhaust)
  note spec = get_connection_id_spec [OF conn]
  then have t1: "tu_connection_time t1 = tu_connection_time t" "tu_response t1 = tu_response t"
    by (metis tracker_udp.select_convs(3) tracker_udp.surjective tracker_udp.update_convs(2),
        metis tracker_udp.select_convs(6) tracker_udp.surjective tracker_udp.update_convs(2))
  show ?thesis
  proof (cases r1)
    case (Ok cid)
    obtain w2 r2 where ann: "announce_udp cid stats (tu_request t1) w1 = (w2, r2)" by fastforce
    note spec2 = announce_loop_spec [OF ann [unfolded announce_udp_def]]
    from spec2 obtain rest where rest: "u_sent w2 = u_sent w1 @ rest" by blast
    show ?thesis
      using assms conn Ok ann spec spec2 t1 rest
      by (cases r2) (auto 4 5 simp: tracker_announce_def)
  qed (use assms conn spec t1 in \<open>auto simp: tracker_announce_def\<close>)
qed

section \<open>A tracker that follows the protocol\<close>

text \<open>It answers a connect request, of 16 bytes, with a connection, any other request with its peers.\<close>

definition honest_tracker :: "u64 \<Rightarrow> announce_response_udp \<Rightarrow> bytes \<Rightarrow> udp_reply" where
  "honest_tracker cid resp req =
    (let tid = of_be (take 4 (drop 12 req)) in
     Datagram (if length req = 16
       then connect_reply \<lparr> cr_action = 0, cr_transaction_id = tid, cr_connection_id = cid \<rparr>
       else announce_reply (resp\<lparr> ar_action := 1, ar_transaction_id := tid \<rparr>)))"

lemma honest_connect_loop:
  assumes "u_reply w (u_count w) = honest_tracker cid resp" "u_sendable w (u_count w)"
    and "u_delay w (u_count w) \<le> connection_timeout"
  shows "get_connection_id_loop (Suc k) w = (after_connect w, Ok cid)"
proof -
  let ?r = "\<lparr> cr_action = 0, cr_transaction_id = u_random w (u_count w), cr_connection_id = cid \<rparr>"
  have "honest_tracker cid resp (create_connect_request (u_random w (u_count w))) = Datagram (connect_reply ?r)"
    by (simp add: honest_tracker_def create_connect_request_eq)
  moreover have "length (connect_reply ?r) = 16" by (simp add: connect_reply_def)
  ultimately show ?thesis
    using assms by (simp add: exchange_def Let_def connection_response_decode exchanged_def)
qed

lemma honest_connect:
  assumes "u_reply w = (\<lambda>n. honest_tracker cid resp)" "u_sendable w (u_count w)"
    and "u_delay w (u_count w) \<le> connection_timeout"
  shows "get_connection_id w = (after_connect w, Ok cid)"
  unfolding get_connection_id_def max_retries_def numeral_3_eq_3
  by (rule honest_connect_loop) (use assms in simp_all)

lemma honest_announce_loop:
  assumes "u_reply w (u_count w) = honest_tracker cid resp" "u_sendable w (u_count w)"
    and "u_delay w (u_count w) \<le> connection_timeout" "announce_ok resp"
    and "20 + 6 * length (ar_peers resp) \<le> 1024"
    and "length (arq_info_hash req) = 20" "length (arq_peer_id req) = 20"
  shows "announce_loop (Suc k) cid' stats req w =
    (exchanged (announce_request_to_bytes stats req cid' (u_random w (u_count w))) w,
     Ok (resp\<lparr> ar_action := 1, ar_transaction_id := u_random w (u_count w) \<rparr>))"
proof -
  let ?resp = "resp\<lparr> ar_action := 1, ar_transaction_id := u_random w (u_count w) \<rparr>"
  let ?req = "announce_request_to_bytes stats req cid' (u_random w (u_count w))"
  have ok: "announce_ok ?resp" using assms(4) by (simp add: announce_ok_def)
  have len: "20 \<le> length (announce_reply ?resp)" "length (announce_reply ?resp) \<le> 1024"
    using assms(4,5) length_concat_six [of "ar_peers resp"]
    by (simp_all add: announce_reply_def announce_ok_def)
  have "honest_tracker cid resp ?req = Datagram (announce_reply ?resp)"
    by (simp add: honest_tracker_def announce_request_to_bytes_eq [OF assms(6,7)] assms(6,7))
  with len assms(1-3) show ?thesis
    by (simp add: exchange_def Let_def announce_response_decode [OF ok] exchanged_def)
qed

lemma honest_announce:
  assumes "u_reply w = (\<lambda>n. honest_tracker cid resp)" "u_sendable w (u_count w)"
    and "u_delay w (u_count w) \<le> connection_timeout" "announce_ok resp"
    and "20 + 6 * length (ar_peers resp) \<le> 1024"
    and "length (arq_info_hash req) = 20" "length (arq_peer_id req) = 20"
  shows "announce_udp cid' stats req w =
    (exchanged (announce_request_to_bytes stats req cid' (u_random w (u_count w))) w,
     Ok (resp\<lparr> ar_action := 1, ar_transaction_id := u_random w (u_count w) \<rparr>))"
  unfolding announce_udp_def max_retries_def numeral_3_eq_3
  by (rule honest_announce_loop) (use assms in simp_all)

section \<open>Properties\<close>

text \<open>
  C26: Interoperation. Against a tracker that follows the protocol, answers within the timeout and has a peer list that fits a
  datagram of 1024 bytes, creating the tracker succeeds after exactly one connect and one announce
  request, and the peers it then holds are exactly those the tracker sent.
\<close>

theorem udp_announce_interop:
  assumes "u_reply w = (\<lambda>n. honest_tracker cid resp)" "\<forall>n. u_sendable w n" "\<forall>n. u_delay w n \<le> connection_timeout"
    and "announce_ok resp" "20 + 6 * length (ar_peers resp) \<le> 1024" "length info_hash = 20" "length pid = 20"
    and "is_utf8 url" "snd (parse_udp_url lookup_host url w) = Ok addr"
  shows "\<exists>w' t. tracker_udp_new lookup_host True key url info_hash pid stats port w = (w', Ok t) \<and>
    ar_peers (tu_response t) = ar_peers resp \<and> ar_interval (tu_response t) = ar_interval resp \<and>
    tu_connection_id t = cid \<and> u_sent w' = u_sent w @
      [create_connect_request (u_random w (u_count w)),
       announce_request_to_bytes stats (announce_request_new info_hash pid port key) cid
         (u_random w (u_count w + 1))]"
proof -
  let ?at = "w\<lparr> u_clock := u_clock w + u_lookup w \<rparr>"
  let ?w = "after_connect ?at" and ?req = "announce_request_new info_hash pid port key"
  have parse: "parse_udp_url lookup_host url w = (?at, Ok addr)"
    using assms(9) by (auto simp: parse_udp_url_def Let_def split: if_splits)
  have conn: "get_connection_id ?at = (?w, Ok cid)" by (rule honest_connect) (use assms in simp_all)
  have "length (arq_info_hash ?req) = 20" "length (arq_peer_id ?req) = 20"
    using assms(6,7) by (simp_all add: announce_request_new_def)
  from honest_announce [where w = ?w, OF _ _ _ assms(4,5) this] assms(1-3,8) conn parse show ?thesis
    by (simp add: tracker_udp_new_def Let_def)
qed

definition sample_response :: announce_response_udp where
  "sample_response = \<lparr> ar_action = 0, ar_transaction_id = 0, ar_interval = 1800, ar_leechers = 1,
     ar_seeders = 2, ar_peers = [[10, 0, 0, 1, 26, 225], [10, 0, 0, 2, 26, 225]] \<rparr>"

definition sample_world :: udp_world where
  "sample_world = \<lparr> u_random = (\<lambda>n. word_of_nat (7 + n)), u_sendable = (\<lambda>_. True),
     u_reply = (\<lambda>n. honest_tracker 42 sample_response), u_delay = (\<lambda>_. 5), u_lookup = 3, u_count = 0, u_sent = [],
     u_clock = 100 \<rparr>"

lemma sample_url: "is_utf8 (ascii ''udp://t/a'')"
  "snd (parse_udp_url (\<lambda>h. if h = ascii ''t'' then Some [V6 [], V4 [1, 2, 3, 4, 0, 80]] else None)
     (ascii ''udp://t/a'') w) = Ok (V4 [1, 2, 3, 4, 0, 80])"
  by (simp_all add: ascii_def is_utf8.simps(2) utf8_step.simps(2) parse_udp_url_def is_ipv4_def)

theorem udp_announce_interop_witness:
  "\<exists>w' t. tracker_udp_new (\<lambda>h. if h = ascii ''t'' then Some [V6 [], V4 [1, 2, 3, 4, 0, 80]] else None)
     True 9 (ascii ''udp://t/a'') (replicate 20 1) (replicate 20 2) (torrent_stats_new 5) 6881 sample_world
     = (w', Ok t) \<and>
   ar_peers (tu_response t) = [[10, 0, 0, 1, 26, 225], [10, 0, 0, 2, 26, 225]] \<and> tu_connection_id t = 42"
proof -
  have "u_reply sample_world = (\<lambda>n. honest_tracker 42 sample_response)" "\<forall>n. u_sendable sample_world n"
    "\<forall>n. u_delay sample_world n \<le> connection_timeout" "announce_ok sample_response" "20 + 6 * length (ar_peers sample_response) \<le> 1024"
    by (simp_all add: sample_world_def sample_response_def announce_ok_def connection_timeout_def)
  from udp_announce_interop [OF this _ _ sample_url, of "replicate 20 1" "replicate 20 2" 9
      "torrent_stats_new 5" 6881]
  show ?thesis by (auto simp: sample_response_def)
qed

text \<open>
  C38: A connection is only accepted from an answer to the request just sent. A connection id is the
  result only when, in one of at most three exchanges, the datagram that came back had 16 bytes,
  the connect action and the transaction id drawn for that very request, which was the last sent.
\<close>

theorem udp_accepts_only_matching:
  assumes "get_connection_id w = (w', Ok cid)"
  shows "\<exists>n d reqs. u_count w \<le> n \<and> n < u_count w + 3 \<and>
    u_sent w' = u_sent w @ reqs @ [create_connect_request (u_random w n)] \<and>
    u_reply w n (create_connect_request (u_random w n)) = Datagram d \<and> length d = 16 \<and>
    connection_response_from_bytes d =
      \<lparr> cr_action = 0, cr_transaction_id = u_random w n, cr_connection_id = cid \<rparr>"
  using connect_loop_spec [OF assms [unfolded get_connection_id_def max_retries_def]] by simp

theorem udp_accepts_only_matching_witness:
  "\<exists>d. u_reply sample_world 0 (create_connect_request 7) = Datagram d \<and> length d = 16 \<or>
     u_reply sample_world 1 (create_connect_request 8) = Datagram d \<and> length d = 16 \<or>
     u_reply sample_world 2 (create_connect_request 9) = Datagram d \<and> length d = 16"
proof -
  obtain w' where "get_connection_id sample_world = (w', Ok 42)"
    using honest_connect [of sample_world 42 sample_response] by (auto simp: sample_world_def connection_timeout_def)
  from udp_accepts_only_matching [OF this] obtain n d where n: "n < 3"
    "u_reply sample_world n (create_connect_request (u_random sample_world n)) = Datagram d" "length d = 16"
    by (auto simp: sample_world_def)
  from n(1) have "n = 0 \<or> n = 1 \<or> n = 2" by linarith
  with n(2,3) show ?thesis by (auto simp: sample_world_def)
qed

text \<open>
  A peer list that does not fit is lost altogether. A well-formed announce response longer than the
  receive buffer of 1024 bytes is cut off in the middle of a peer, so it is refused as a whole.
\<close>

theorem udp_long_response_refused:
  assumes "1024 < length (announce_reply r)"
  shows "recv_announce_response (Some (announce_reply r)) = Err (TrackerOther ''Invalid peer data length'')"
  using assms by (simp add: announce_response_from_bytes_def)

theorem udp_long_response_refused_witness:
  "recv_announce_response (Some (announce_reply (sample_response\<lparr> ar_peers := replicate 200 [1, 2, 3, 4, 5, 6] \<rparr>)))
     = Err (TrackerOther ''Invalid peer data length'')"
proof -
  have "length (concat (replicate 200 [1, 2, 3, 4, 5, 6 :: u8])) = 1200"
    using length_concat_six [of "replicate 200 [1, 2, 3, 4, 5, 6]"] by simp
  then show ?thesis
    by (intro udp_long_response_refused) (simp add: announce_reply_def)
qed

text \<open>
  The connection is never recognised as fresh again. Asking for peers does not change the time
  the connection was made, so once it has expired every announce that succeeds begins with a new
  connect request.
\<close>

theorem udp_reconnects_every_time:
  assumes "udp_get_peers stats t w = ((w', t'), r)"
  shows "tu_connection_time t' = tu_connection_time t \<and>
    (connection_expiry \<le> u_clock w - tu_connection_time t \<and>
     unat (ar_interval (tu_response t)) < elapsed_secs (u_clock w) (tu_last_announce t) \<and>
     r = Ok peers \<longrightarrow>
       (\<exists>n reqs rest. u_sent w' = u_sent w @ reqs @ [create_connect_request (u_random w n)] @ rest))"
proof -
  obtain w1 t1 r1 where ann: "tracker_announce stats t w = ((w1, t1), r1)" by (metis prod.exhaust)
  from tracker_announce_spec [OF ann] show ?thesis
    using assms ann by (cases r1) (auto simp: udp_get_peers_def split: if_splits)
qed

theorem udp_reconnects_every_time_witness:
  "tu_connection_time (snd (fst (udp_get_peers (torrent_stats_new 5)
     \<lparr> tu_server_addr = V4 [], tu_connection_id = 1, tu_connection_time = 0,
       tu_request = announce_request_new (replicate 20 1) (replicate 20 2) 6881 9, tu_last_announce = 0,
       tu_response = sample_response \<rparr> (sample_world\<lparr> u_clock := 2000 * 1000000000 \<rparr>)))) = 0"
proof -
  let ?t = "\<lparr> tu_server_addr = V4 [], tu_connection_id = 1, tu_connection_time = 0,
       tu_request = announce_request_new (replicate 20 1) (replicate 20 2) 6881 9, tu_last_announce = 0,
       tu_response = sample_response \<rparr>"
  obtain w' t' r where "udp_get_peers (torrent_stats_new 5) ?t (sample_world\<lparr> u_clock := 2000 * 1000000000 \<rparr>)
      = ((w', t'), r)" by (metis prod.exhaust)
  from udp_reconnects_every_time [OF this] this show ?thesis by simp
qed

end
