(* ===== verification/Tracker_HTTP.thy ===== *)
theory Tracker_HTTP
  imports Tracker_UDP
begin

text \<open>
  The HTTP tracker client, \<open>src/core/tracker/tracker_http.rs\<close>: percent-encoding, the announce URL, the
  response and the client with its cached peer list. What the \<open>http\<close>, \<open>hyper\<close>, \<open>itoa\<close> and \<open>bencode\<close>
  crates do is the record \<open>http_env\<close>: parsing a URI into parts, its path, putting a path and query
  back, host and port of a URI, the \<open>n\<close>-th request, decimal printing, the bencode parser.
\<close>

section \<open>The crates\<close>

record ('p, 'u) http_env =
  h_parse :: "bytes \<Rightarrow> 'p option"
  h_path :: "'p \<Rightarrow> bytes option"
  h_assemble :: "'p \<Rightarrow> bytes \<Rightarrow> (tracker_error, 'u) outcome"
  h_host :: "'u \<Rightarrow> bytes option"
  h_port :: "'u \<Rightarrow> u16 option"
  h_request :: "nat \<Rightarrow> bytes \<Rightarrow> u16 \<Rightarrow> 'u \<Rightarrow> (tracker_error, bytes) outcome"
  h_itoa :: "nat \<Rightarrow> bytes"
  h_from_buffer :: "bytes \<Rightarrow> (tracker_error, bencode) outcome"

text \<open>How many requests were made, and the clock.\<close>

record http_world =
  hw_count :: nat
  hw_delay :: "nat \<Rightarrow> nat"
  hw_clock :: instant

section \<open>The request\<close>

definition is_ascii_alphanumeric :: "u8 \<Rightarrow> bool" where
  "is_ascii_alphanumeric b = (48 \<le> b \<and> b \<le> 57 \<or> 65 \<le> b \<and> b \<le> 90 \<or> 97 \<le> b \<and> b \<le> 122)"

text \<open>\<open>char::from_digit(d, 16)\<close> for a digit below 16, and \<open>to_ascii_uppercase\<close>.\<close>

definition from_digit :: "u8 \<Rightarrow> u8" where
  "from_digit d = (if d < 10 then 48 + d else 87 + d)"

definition to_ascii_uppercase :: "u8 \<Rightarrow> u8" where
  "to_ascii_uppercase c = (if 97 \<le> c \<and> c \<le> 122 then c - 32 else c)"

fun url_encode :: "bytes \<Rightarrow> bytes" where
  "url_encode [] = []"
| "url_encode (b # bs) =
    (if is_ascii_alphanumeric b \<or> b = 45 \<or> b = 95 \<or> b = 46 \<or> b = 126 then [b]
     else [37, to_ascii_uppercase (from_digit (drop_bit 4 b)), to_ascii_uppercase (from_digit (b AND 0xF))])
    @ url_encode bs"

record announce_request_http =
  hr_tracker :: bytes
  hr_url_info_hash :: bytes
  hr_url_peer_id :: bytes
  hr_port :: u16
  hr_compact :: bool

definition announce_request_http_new ::
  "bytes \<Rightarrow> bytes \<Rightarrow> bytes \<Rightarrow> u16 \<Rightarrow> bool \<Rightarrow> (tracker_error, announce_request_http) outcome" where
  "announce_request_http_new tracker info_hash peer_id port compact =
    (if \<not> is_utf8 tracker then Err UTF8Error
     else Ok \<lparr> hr_tracker = tracker, hr_url_info_hash = url_encode info_hash,
            hr_url_peer_id = url_encode peer_id, hr_port = port, hr_compact = compact \<rparr>)"

text \<open>The path and query of the announce URL.\<close>

definition build_path_and_query ::
  "(nat \<Rightarrow> bytes) \<Rightarrow> torrent_stats \<Rightarrow> announce_request_http \<Rightarrow> bytes \<Rightarrow> bytes" where
  "build_path_and_query itoa stats req path =
    path @ (if 63 \<in> set path then [38] else [63]) @
    ascii ''info_hash='' @ hr_url_info_hash req @
    ascii ''&peer_id='' @ hr_url_peer_id req @
    ascii ''&port='' @ itoa (unat (hr_port req)) @
    ascii ''&uploaded='' @ itoa (unat (ts_uploaded stats)) @
    ascii ''&downloaded='' @ itoa (unat (ts_downloaded stats)) @
    ascii ''&left='' @ itoa (unat (ts_left stats)) @
    ascii ''&compact='' @ (if hr_compact req then [49] else [48])"

definition build_url ::
  "('p, 'u) http_env \<Rightarrow> torrent_stats \<Rightarrow> announce_request_http \<Rightarrow> (tracker_error, 'u) outcome" where
  "build_url env stats req =
    (case h_parse env (hr_tracker req) of
       None \<Rightarrow> Err InvalidUri
     | Some parts \<Rightarrow>
         let path = (case h_path env parts of Some p \<Rightarrow> p | None \<Rightarrow> ascii ''/'')
         in h_assemble env parts (build_path_and_query (h_itoa env) stats req path))"

section \<open>The response\<close>

record announce_response_http =
  hp_interval :: u64
  hp_peers :: "peer_ip list"

definition announce_response_http_decode :: "bencode \<Rightarrow> (decode_error, announce_response_http) outcome" where
  "announce_response_http_decode b =
    obind (get_struct b) (\<lambda>dict.
    obind (obind (get_struct_value ''interval'' dict) get_u64) (\<lambda>interval.
    obind (obind (get_struct_value ''peers'' dict) get_str) (\<lambda>peers_bytes.
    if length peers_bytes mod 6 \<noteq> 0 then Err (OtherError ''Peer data length is not a multiple of 6.'')
    else Ok \<lparr> hp_interval = interval, hp_peers = chunks_exact 6 peers_bytes \<rparr>)))"

text \<open>The port is 6969 when the URL names none.\<close>

definition announce_http ::
  "('p, 'u) http_env \<Rightarrow> torrent_stats \<Rightarrow> announce_request_http \<Rightarrow> http_world \<Rightarrow>
   http_world \<times> (tracker_error, bencode) outcome" where
  "announce_http env stats req w =
    (case build_url env stats req of
       Ok url \<Rightarrow>
         (case h_host env url of
            None \<Rightarrow> (w, Err (TrackerOther ''Missing host in tracker URL''))
          | Some host \<Rightarrow>
              (let port = (case h_port env url of Some p \<Rightarrow> p | None \<Rightarrow> 6969);
                   n = hw_count w;
                   w = w\<lparr> hw_count := n + 1, hw_clock := hw_clock w + hw_delay w n \<rparr>
               in (w, obind (h_request env n host port url) (h_from_buffer env))))
     | Err e \<Rightarrow> (w, Err e)
     | Panic \<Rightarrow> (w, Panic))"

section \<open>The tracker\<close>

record tracker_http =
  th_request :: announce_request_http
  th_last_announce :: instant
  th_response :: announce_response_http

definition tracker_http_announce ::
  "('p, 'u) http_env \<Rightarrow> torrent_stats \<Rightarrow> tracker_http \<Rightarrow> http_world \<Rightarrow>
   (http_world \<times> tracker_http) \<times> (tracker_error, bencode) outcome" where
  "tracker_http_announce env stats t w =
    (case announce_http env stats (th_request t) w of
       (w, Ok b) \<Rightarrow> ((w, t\<lparr> th_last_announce := hw_clock w \<rparr>), Ok b)
     | (w, Err e) \<Rightarrow> ((w, t), Err e)
     | (w, Panic) \<Rightarrow> ((w, t), Panic))"

definition http_get_peers ::
  "('p, 'u) http_env \<Rightarrow> torrent_stats \<Rightarrow> tracker_http \<Rightarrow> http_world \<Rightarrow>
   (http_world \<times> tracker_http) \<times> (tracker_error, peer_ip list) outcome" where
  "http_get_peers env stats t w =
    (if elapsed_secs (hw_clock w) (th_last_announce t) > unat (hp_interval (th_response t)) then
       (case tracker_http_announce env stats t w of
          ((w, t), Ok b) \<Rightarrow>
            (case map_err BencodeError (announce_response_http_decode b) of
               Ok response \<Rightarrow> ((w, t\<lparr> th_response := response \<rparr>), Ok (hp_peers response))
             | Err e \<Rightarrow> ((w, t), Err e)
             | Panic \<Rightarrow> ((w, t), Panic))
        | ((w, t), Err e) \<Rightarrow> ((w, t), Err e)
        | ((w, t), Panic) \<Rightarrow> ((w, t), Panic))
     else ((w, t), Ok (hp_peers (th_response t))))"

definition tracker_http_new ::
  "('p, 'u) http_env \<Rightarrow> bytes \<Rightarrow> bytes \<Rightarrow> bytes \<Rightarrow> torrent_stats \<Rightarrow> u16 \<Rightarrow> http_world \<Rightarrow>
   http_world \<times> (tracker_error, tracker_http) outcome" where
  "tracker_http_new env tracker info_hash peer_id stats port w =
    (case announce_request_http_new tracker info_hash peer_id port True of
       Ok req \<Rightarrow>
         (case announce_http env stats req w of
            (w, Ok b) \<Rightarrow>
              (w, obind (map_err BencodeError (announce_response_http_decode b)) (\<lambda>response.
                 Ok \<lparr> th_request = req, th_last_announce = hw_clock w, th_response = response \<rparr>))
          | (w, Err e) \<Rightarrow> (w, Err e)
          | (w, Panic) \<Rightarrow> (w, Panic))
     | Err e \<Rightarrow> (w, Err e)
     | Panic \<Rightarrow> (w, Panic))"

section \<open>Percent-decoding\<close>

definition unhex :: "u8 \<Rightarrow> u8" where
  "unhex c = (if c < 58 then c - 48 else c - 55)"

fun percent_decode :: "bytes \<Rightarrow> (unit, bytes) outcome" where
  "percent_decode [] = Ok []"
| "percent_decode (b # bs) =
    (if b = 37 then
       (case bs of
          a # c # bs \<Rightarrow> obind (percent_decode bs) (\<lambda>r. Ok ((push_bit 4 (unhex a) OR unhex c) # r))
        | _ \<Rightarrow> Err ())
     else obind (percent_decode bs) (\<lambda>r. Ok (b # r)))"

lemma nibble_cases:
  assumes "(d :: u8) < 16"
  shows "d \<in> {0, 1, 2, 3, 4, 5, 6, 7, 8, 9, 10, 11, 12, 13, 14, 15}"
proof -
  have "unat d \<in> set [0..<16]" using assms by (simp add: word_less_nat_alt)
  then have "(word_of_nat (unat d) :: u8) \<in> set (map word_of_nat [0..<16])"
    unfolding set_map by (rule imageI)
  then show ?thesis by (simp add: upt_rec)
qed

lemma unhex_digit: "d < 16 \<Longrightarrow> unhex (to_ascii_uppercase (from_digit d)) = d"
  by (drule nibble_cases) (auto simp: unhex_def to_ascii_uppercase_def from_digit_def)

lemma nibbles: "drop_bit 4 b < (16 :: u8)" "b AND 0xF < (16 :: u8)"
proof -
  have "unat b < 256" using unsigned_less [of b, where 'a = nat] by simp
  then show "drop_bit 4 b < (16 :: u8)" by (simp add: word_less_nat_alt drop_bit_eq_div unat_div_distrib)
  have "b AND 0xF = take_bit 4 b" by (simp add: take_bit_eq_mask mask_eq_exp_minus_1)
  then have "b AND 0xF = b mod 16" by (simp add: take_bit_eq_mod)
  then show "b AND 0xF < (16 :: u8)" by (simp add: word_less_nat_alt unat_mod_distrib)
qed

lemma join_nibbles: "push_bit 4 (drop_bit 4 b) OR (b AND 0xF) = (b :: u8)"
proof -
  have "b AND 0xF = take_bit 4 b" by (simp add: take_bit_eq_mask mask_eq_exp_minus_1)
  then show ?thesis by (auto intro!: bit_word_eqI simp: bit_simps)
qed

lemma percent_decode_encode: "percent_decode (url_encode bs) = Ok bs"
proof (induction bs)
  case (Cons b bs)
  then show ?case
    using unhex_digit [OF nibbles(1) [of b]] unhex_digit [OF nibbles(2) [of b]]
    by (auto simp: join_nibbles is_ascii_alphanumeric_def)
qed simp

interpretation url: wire_codec url_encode percent_decode "\<lambda>_. True"
  by unfold_locales (rule percent_decode_encode)

section \<open>Reading the announce URL\<close>

text \<open>How a tracker takes a query apart: fields between ampersands, keys and values around \<open>=\<close>.\<close>

fun split_on :: "u8 \<Rightarrow> bytes \<Rightarrow> bytes list" where
  "split_on c [] = [[]]"
| "split_on c (x # xs) =
    (if x = c then [] # split_on c xs
     else (case split_on c xs of y # ys \<Rightarrow> (x # y) # ys | [] \<Rightarrow> [[x]]))"

definition key_value :: "bytes \<Rightarrow> bytes \<times> bytes" where
  "key_value s = (takeWhile (\<lambda>b. b \<noteq> 61) s, drop 1 (dropWhile (\<lambda>b. b \<noteq> 61) s))"

definition query_fields :: "bytes \<Rightarrow> (bytes \<times> bytes) list" where
  "query_fields url = map key_value (split_on 38 (drop 1 (dropWhile (\<lambda>b. b \<noteq> 63) url)))"

lemma split_on_none: "c \<notin> set xs \<Longrightarrow> split_on c xs = [xs]"
  by (induction xs) auto

lemma split_on_step: "c \<notin> set xs \<Longrightarrow> split_on c (xs @ c # ys) = xs # split_on c ys"
  by (induction xs) auto

lemma key_value_field: "61 \<notin> set k \<Longrightarrow> key_value (k @ 61 # v) = (k, v)"
  by (auto simp: key_value_def takeWhile_append dropWhile_append)

text \<open>Characters a value may have: none of the separators.\<close>

definition plain :: "bytes \<Rightarrow> bool" where
  "plain v \<longleftrightarrow> 38 \<notin> set v \<and> 61 \<notin> set v \<and> 63 \<notin> set v"

lemma url_encode_set:
  "set (url_encode bs) \<subseteq> {b. is_ascii_alphanumeric b} \<union> {45, 95, 46, 126, 37}"
proof (induction bs)
  case (Cons b bs)
  have "is_ascii_alphanumeric (to_ascii_uppercase (from_digit d))" if "d < 16" for d
    using nibble_cases [OF that]
    by (auto simp: is_ascii_alphanumeric_def to_ascii_uppercase_def from_digit_def)
  with nibbles Cons show ?case by auto
qed simp

lemma plain_url_encode: "plain (url_encode bs)"
  using url_encode_set [of bs] by (auto simp: plain_def is_ascii_alphanumeric_def)

fun join_fields :: "(bytes \<times> bytes) list \<Rightarrow> bytes" where
  "join_fields [] = []"
| "join_fields [(k, v)] = k @ 61 # v"
| "join_fields ((k, v) # f # fs) = k @ 61 # v @ 38 # join_fields (f # fs)"

lemma split_join:
  "fs \<noteq> [] \<Longrightarrow> \<forall>(k, v) \<in> set fs. plain k \<and> plain v \<Longrightarrow> map key_value (split_on 38 (join_fields fs)) = fs"
proof (induction fs rule: join_fields.induct)
  case (2 k v)
  then show ?case by (simp add: split_on_none plain_def key_value_field)
next
  case (3 k v f fs)
  have "split_on 38 ((k @ 61 # v) @ 38 # join_fields (f # fs)) = (k @ 61 # v) # split_on 38 (join_fields (f # fs))"
    by (rule split_on_step) (use 3(3) in \<open>auto simp: plain_def\<close>)
  with 3 show ?case by (simp add: key_value_field plain_def)
qed simp

text \<open>The fields of the announce.\<close>

definition announce_fields ::
  "(nat \<Rightarrow> bytes) \<Rightarrow> torrent_stats \<Rightarrow> announce_request_http \<Rightarrow> (bytes \<times> bytes) list" where
  "announce_fields itoa stats req =
    [(ascii ''info_hash'', hr_url_info_hash req), (ascii ''peer_id'', hr_url_peer_id req),
     (ascii ''port'', itoa (unat (hr_port req))), (ascii ''uploaded'', itoa (unat (ts_uploaded stats))),
     (ascii ''downloaded'', itoa (unat (ts_downloaded stats))), (ascii ''left'', itoa (unat (ts_left stats))),
     (ascii ''compact'', if hr_compact req then [49] else [48])]"

lemma build_path_join:
  "63 \<notin> set path \<Longrightarrow> build_path_and_query itoa stats req path = path @ 63 # join_fields (announce_fields itoa stats req)"
  by (simp add: build_path_and_query_def announce_fields_def ascii_def)

lemma announce_request_http_Ok:
  "announce_request_http_new tracker ih pid port compact = Ok req \<longleftrightarrow>
    is_utf8 tracker \<and> req = \<lparr> hr_tracker = tracker, hr_url_info_hash = url_encode ih,
      hr_url_peer_id = url_encode pid, hr_port = port, hr_compact = compact \<rparr>"
  by (auto simp: announce_request_http_new_def)

section \<open>Properties\<close>

text \<open>
  C32: The tracker reads what the client meant. From the path and query the client builds on a path
  without a question mark, splitting at the separators gives back exactly the seven fields, and
  percent-decoding the first two gives the info hash and the peer id, whatever bytes they have.
\<close>

theorem http_announce_readable:
  assumes "announce_request_http_new tracker ih pid port compact = Ok req"
    and "63 \<notin> set path" "\<forall>n. plain (itoa n)"
  shows "query_fields (build_path_and_query itoa stats req path) =
      [(ascii ''info_hash'', url_encode ih), (ascii ''peer_id'', url_encode pid),
       (ascii ''port'', itoa (unat port)), (ascii ''uploaded'', itoa (unat (ts_uploaded stats))),
       (ascii ''downloaded'', itoa (unat (ts_downloaded stats))), (ascii ''left'', itoa (unat (ts_left stats))),
       (ascii ''compact'', if compact then [49] else [48])] \<and>
    percent_decode (url_encode ih) = Ok ih \<and> percent_decode (url_encode pid) = Ok pid"
proof -
  have req: "hr_url_info_hash req = url_encode ih" "hr_url_peer_id req = url_encode pid"
    "hr_port req = port" "hr_compact req = compact"
    using assms(1) by (auto simp: announce_request_http_Ok)
  have all_plain: "\<forall>(k, v) \<in> set (announce_fields itoa stats req). plain k \<and> plain v"
    using assms(3) plain_url_encode by (simp add: announce_fields_def req) (simp add: plain_def ascii_def)
  have "dropWhile (\<lambda>b. b \<noteq> 63) (path @ 63 # rest) = 63 # rest" for rest
    using assms(2) by (induction path) auto
  then have "query_fields (build_path_and_query itoa stats req path) =
      map key_value (split_on 38 (join_fields (announce_fields itoa stats req)))"
    by (simp add: query_fields_def build_path_join [OF assms(2)] del: join_fields.simps)
  also have "\<dots> = announce_fields itoa stats req"
    by (rule split_join [OF _ all_plain]) (simp add: announce_fields_def)
  finally have "query_fields (build_path_and_query itoa stats req path) = announce_fields itoa stats req" .
  then show ?thesis by (simp add: announce_fields_def req percent_decode_encode)
qed

theorem http_announce_readable_witness:
  "hd (query_fields (build_path_and_query (\<lambda>n. replicate n 49) (torrent_stats_new 3)
     \<lparr> hr_tracker = [], hr_url_info_hash = url_encode [38, 0xAB], hr_url_peer_id = url_encode [61],
       hr_port = 2, hr_compact = True \<rparr> [47])) = (ascii ''info_hash'', [37, 50, 54, 37, 65, 66])"
proof -
  have "announce_request_http_new [] [38, 0xAB] [61] 2 True = Ok \<lparr> hr_tracker = [],
      hr_url_info_hash = url_encode [38, 0xAB], hr_url_peer_id = url_encode [61], hr_port = 2, hr_compact = True \<rparr>"
    by (simp add: announce_request_http_new_def)
  from http_announce_readable [OF this, of "[47]" "\<lambda>n. replicate n 49" "torrent_stats_new 3"]
  show ?thesis by (simp add: plain_def is_ascii_alphanumeric_def to_ascii_uppercase_def from_digit_def)
qed

text \<open>
  What counts as a response. Decoding succeeds exactly on a dictionary with an unsigned interval and
  a compact peer string of whole six-byte entries, and the peers are those entries in order; a
  peer list in the dictionary form is refused.
\<close>

theorem http_response_exact:
  "announce_response_http_decode b = Ok r \<longleftrightarrow>
    (\<exists>dict. b = Dict dict \<and> map_of dict (ascii ''interval'') = Some (Number (uint (hp_interval r))) \<and>
       map_of dict (ascii ''peers'') = Some (ByteString (concat (hp_peers r))) \<and>
       (\<forall>p \<in> set (hp_peers r). length p = 6))"
proof
  assume "announce_response_http_decode b = Ok r"
  then obtain dict n bs where d: "b = Dict dict" "map_of dict (ascii ''interval'') = Some (Number (uint n))"
    "map_of dict (ascii ''peers'') = Some (ByteString bs)" "length bs mod 6 = 0"
    "r = \<lparr> hp_interval = n, hp_peers = chunks_exact 6 bs \<rparr>"
    by (auto simp: announce_response_http_decode_def get_Ok_iff split: if_splits)
  then show "\<exists>dict. b = Dict dict \<and> map_of dict (ascii ''interval'') = Some (Number (uint (hp_interval r))) \<and>
       map_of dict (ascii ''peers'') = Some (ByteString (concat (hp_peers r))) \<and>
       (\<forall>p \<in> set (hp_peers r). length p = 6)"
    by (auto simp: concat_chunks_exact dest: chunks_exact_width)
next
  assume "\<exists>dict. b = Dict dict \<and> map_of dict (ascii ''interval'') = Some (Number (uint (hp_interval r))) \<and>
       map_of dict (ascii ''peers'') = Some (ByteString (concat (hp_peers r))) \<and>
       (\<forall>p \<in> set (hp_peers r). length p = 6)"
  then obtain dict where d: "b = Dict dict"
    "map_of dict (ascii ''interval'') = Some (Number (uint (hp_interval r)))"
    "map_of dict (ascii ''peers'') = Some (ByteString (concat (hp_peers r)))"
    "\<forall>p \<in> set (hp_peers r). length p = 6" by blast
  have "chunks_exact 6 (concat (hp_peers r)) = hp_peers r" by (rule chunks_exact_concat) (use d(4) in simp_all)
  moreover have "length (concat (hp_peers r)) mod 6 = 0" using length_concat_six [OF d(4)] by simp
  moreover have "get_struct_value ''interval'' dict = Ok (Number (uint (hp_interval r)))"
    "get_struct_value ''peers'' dict = Ok (ByteString (concat (hp_peers r)))"
    using d(2,3) by (simp_all add: get_struct_value_Ok_iff)
  moreover have "get_u64 (Number (uint (hp_interval r))) = Ok (hp_interval r)" by (simp only: get_u64_Ok_iff)
  ultimately show "announce_response_http_decode b = Ok r"
    by (cases r) (simp add: announce_response_http_decode_def d(1) del: obind_Ok_iff get_u64.simps)
qed

theorem http_response_exact_witness:
  "announce_response_http_decode
     (Dict [(ascii ''interval'', Number 1800), (ascii ''peers'', ByteString [127, 0, 0, 1, 26, 225])]) =
   Ok \<lparr> hp_interval = 1800, hp_peers = [[127, 0, 0, 1, 26, 225]] \<rparr>"
proof -
  have "uint (1800 :: u64) = 1800" by simp
  then show ?thesis by (subst http_response_exact) (simp add: ascii_def)
qed

end
