(* ===== verification/Tracker_Manager.thy ===== *)
theory Tracker_Manager
  imports Tracker_HTTP
begin

text \<open>
  The tracker trait, its factory and the manager: \<open>src/core/tracker/tracker.rs\<close>,
  \<open>tracker_factory.rs\<close> and \<open>tracker_manager.rs\<close>. The trait is a locale, with the contract both
  trackers keep; it is interpreted for the UDP tracker, for the HTTP tracker and for the boxed
  trait object the manager holds. The peer pool, a \<open>HashSet\<close>, is a list without repetitions.
\<close>

section \<open>The tracker contract\<close>

definition six_bytes :: "peer_ip list \<Rightarrow> bool" where
  "six_bytes ps \<longleftrightarrow> (\<forall>p \<in> set ps. length p = 6)"

text \<open>The pool, and what polling does with an answer.\<close>

definition hs_insert :: "'a \<Rightarrow> 'a list \<Rightarrow> 'a list" where
  "hs_insert x s = (if x \<in> set s then s else s @ [x])"

fun poll_trackers ::
  "('t \<Rightarrow> 'w \<Rightarrow> ('w \<times> 't) \<times> (tracker_error, peer_ip list) outcome) \<Rightarrow> 't list \<Rightarrow> 'w \<Rightarrow> peer_ip list \<Rightarrow>
   'w \<times> 't list \<times> peer_ip list" where
  "poll_trackers get [] w pool = (w, [], pool)"
| "poll_trackers get (t # ts) w pool =
    (case get t w of
       ((w, t), r) \<Rightarrow>
         (let pool = (case r of Ok peers \<Rightarrow> fold hs_insert peers pool | _ \<Rightarrow> pool);
              (w, ts, pool) = poll_trackers get ts w pool
          in (w, t # ts, pool)))"

lemma hs_fold: "distinct s \<Longrightarrow> distinct (fold hs_insert xs s) \<and> set (fold hs_insert xs s) = set s \<union> set xs"
proof (induction xs arbitrary: s)
  case (Cons x xs)
  have "distinct (hs_insert x s)" "set (hs_insert x s) = insert x (set s)"
    using Cons.prems by (auto simp: hs_insert_def)
  with Cons.IH [of "hs_insert x s"] show ?case by simp
qed simp

text \<open>
  A tracker holds a list of peers. An answer is the list it then holds; an error leaves the list
  as it was.
\<close>

locale tracker_contract =
  fixes get_peers :: "'t \<Rightarrow> 'w \<Rightarrow> ('w \<times> 't) \<times> (tracker_error, peer_ip list) outcome"
    and cached :: "'t \<Rightarrow> peer_ip list"
    and net_ok :: "'w \<Rightarrow> bool"
  assumes answer: "six_bytes (cached t) \<Longrightarrow> net_ok w \<Longrightarrow> get_peers t w = ((w', t'), r) \<Longrightarrow>
      net_ok w' \<and> six_bytes (cached t') \<and> r \<noteq> Panic \<and> (\<forall>ps. r = Ok ps \<longrightarrow> ps = cached t') \<and>
      (\<forall>e. r = Err e \<longrightarrow> cached t' = cached t)"
begin

text \<open>
  Polling asks every tracker, each in the state of the network its predecessor left, and adds what those that
  answered then hold, and nothing else.
\<close>

lemma poll_spec:
  assumes "\<forall>t \<in> set ts. six_bytes (cached t)" "distinct pool" "net_ok w"
    and "poll_trackers get_peers ts w pool = (w', ts', pool')"
  shows "distinct pool' \<and> length ts' = length ts \<and> (\<forall>t \<in> set ts'. six_bytes (cached t)) \<and>
    (\<exists>ws. ws 0 = w \<and> ws (length ts) = w' \<and>
       (\<forall>k < length ts. fst (get_peers (ts ! k) (ws k)) = (ws (Suc k), ts' ! k) \<and>
          snd (get_peers (ts ! k) (ws k)) \<noteq> Panic \<and>
          (\<forall>ps. snd (get_peers (ts ! k) (ws k)) = Ok ps \<longrightarrow> ps = cached (ts' ! k)) \<and>
          (\<forall>e. snd (get_peers (ts ! k) (ws k)) = Err e \<longrightarrow> cached (ts' ! k) = cached (ts ! k))) \<and>
       set pool' = set pool \<union>
         (\<Union>k \<in> {k. k < length ts \<and> (\<exists>ps. snd (get_peers (ts ! k) (ws k)) = Ok ps)}. set (cached (ts' ! k))))"
  using assms
proof (induction ts arbitrary: w pool w' ts' pool')
  case Nil
  then show ?case by (auto intro: exI [of _ "\<lambda>_. w"])
next
  case (Cons t ts)
  obtain w1 t1 r where get: "get_peers t w = ((w1, t1), r)" by (metis prod.exhaust)
  define pool1 where "pool1 = (case r of Ok peers \<Rightarrow> fold hs_insert peers pool | _ \<Rightarrow> pool)"
  obtain ts1 where rest: "poll_trackers get_peers ts w1 pool1 = (w', ts1, pool')" "ts' = t1 # ts1"
    using Cons.prems(4) get by (auto simp: Let_def pool1_def split: prod.splits)
  from Cons.prems(1) have "six_bytes (cached t)" by simp
  note ans = answer [OF this Cons.prems(3) get]
  have pool1: "distinct pool1" "set pool1 = set pool \<union> (if (\<exists>ps. r = Ok ps) then set (cached t1) else {})"
    using hs_fold [OF Cons.prems(2)] Cons.prems(2) ans by (auto simp: pool1_def split: outcome.splits)
  from Cons.IH [OF _ pool1(1) _ rest(1)] Cons.prems(1) ans obtain ws where
    IH: "distinct pool'" "length ts1 = length ts" "\<forall>t \<in> set ts1. six_bytes (cached t)" "ws 0 = w1" "ws (length ts) = w'"
    and asked: "\<forall>k < length ts. fst (get_peers (ts ! k) (ws k)) = (ws (Suc k), ts1 ! k) \<and>
          snd (get_peers (ts ! k) (ws k)) \<noteq> Panic \<and>
          (\<forall>ps. snd (get_peers (ts ! k) (ws k)) = Ok ps \<longrightarrow> ps = cached (ts1 ! k)) \<and>
          (\<forall>e. snd (get_peers (ts ! k) (ws k)) = Err e \<longrightarrow> cached (ts1 ! k) = cached (ts ! k))"
    and pool': "set pool' = set pool1 \<union>
         (\<Union>k \<in> {k. k < length ts \<and> (\<exists>ps. snd (get_peers (ts ! k) (ws k)) = Ok ps)}. set (cached (ts1 ! k)))"
    by auto
  let ?ws = "\<lambda>k. case k of 0 \<Rightarrow> w | Suc k \<Rightarrow> ws k"
  have idx: "{k. k < length (t # ts) \<and> (\<exists>ps. snd (get_peers ((t # ts) ! k) (?ws k)) = Ok ps)} =
      (if (\<exists>ps. r = Ok ps) then {0} else {}) \<union> Suc ` {k. k < length ts \<and> (\<exists>ps. snd (get_peers (ts ! k) (ws k)) = Ok ps)}"
    by (auto simp: less_Suc_eq_0_disj get)
  have "set pool' = set pool \<union> (\<Union>k \<in> {k. k < length (t # ts) \<and> (\<exists>ps. snd (get_peers ((t # ts) ! k) (?ws k)) = Ok ps)}.
      set (cached (ts' ! k)))"
    unfolding idx using pool' pool1(2) rest(2) by auto
  moreover have "\<forall>k < length (t # ts). fst (get_peers ((t # ts) ! k) (?ws k)) = (?ws (Suc k), ts' ! k) \<and>
      snd (get_peers ((t # ts) ! k) (?ws k)) \<noteq> Panic \<and>
      (\<forall>ps. snd (get_peers ((t # ts) ! k) (?ws k)) = Ok ps \<longrightarrow> ps = cached (ts' ! k)) \<and>
      (\<forall>e. snd (get_peers ((t # ts) ! k) (?ws k)) = Err e \<longrightarrow> cached (ts' ! k) = cached ((t # ts) ! k))"
    using asked ans rest(2) IH(4) get by (auto simp: less_Suc_eq_0_disj)
  ultimately show ?case
    using IH ans rest(2) by (intro conjI exI [of _ ?ws]) auto
qed

end

section \<open>The two trackers keep the contract\<close>

lemma udp_answer:
  assumes "six_bytes (ar_peers (tu_response t))" "udp_get_peers stats t w = ((w', t'), r)"
  shows "six_bytes (ar_peers (tu_response t')) \<and> r \<noteq> Panic \<and> (\<forall>ps. r = Ok ps \<longrightarrow> ps = ar_peers (tu_response t')) \<and>
    (\<forall>e. r = Err e \<longrightarrow> ar_peers (tu_response t') = ar_peers (tu_response t))"
proof -
  obtain w1 t1 r1 where ann: "tracker_announce stats t w = ((w1, t1), r1)" by (metis prod.exhaust)
  from tracker_announce_spec [OF ann] assms ann show ?thesis
    by (cases r1) (auto simp: udp_get_peers_def announce_ok_def six_bytes_def split: if_splits)
qed

interpretation udp: tracker_contract "udp_get_peers stats" "\<lambda>t. ar_peers (tu_response t)" "\<lambda>_. True"
  for stats
  by unfold_locales (rule conjI [OF TrueI], rule udp_answer)

text \<open>The crates answer or fail; they do not panic.\<close>

definition http_env_ok :: "('p, 'u) http_env \<Rightarrow> bool" where
  "http_env_ok env \<longleftrightarrow> (\<forall>p q. h_assemble env p q \<noteq> Panic) \<and> (\<forall>n host port u. h_request env n host port u \<noteq> Panic) \<and>
     (\<forall>bs. h_from_buffer env bs \<noteq> Panic)"

lemma http_decode_facts:
  "announce_response_http_decode b \<noteq> Panic"
  "announce_response_http_decode b = Ok r \<Longrightarrow> six_bytes (hp_peers r)"
  by (auto simp: announce_response_http_decode_def obind_Panic_iff six_bytes_def get_string_def
      split: if_splits dest: chunks_exact_width)

lemma announce_http_no_panic:
  assumes "http_env_ok env"
  shows "snd (announce_http env stats req w) \<noteq> Panic"
proof -
  have "build_url env stats req \<noteq> Panic"
    using assms by (simp add: build_url_def http_env_ok_def Let_def split: option.split)
  with assms show ?thesis
    by (auto simp: announce_http_def http_env_ok_def Let_def obind_Panic_iff split: outcome.split option.split)
qed

lemma http_answer:
  assumes "http_env_ok env" "six_bytes (hp_peers (th_response t))" "http_get_peers env stats t w = ((w', t'), r)"
  shows "six_bytes (hp_peers (th_response t')) \<and> r \<noteq> Panic \<and> (\<forall>ps. r = Ok ps \<longrightarrow> ps = hp_peers (th_response t')) \<and>
    (\<forall>e. r = Err e \<longrightarrow> hp_peers (th_response t') = hp_peers (th_response t))"
proof -
  obtain w1 r1 where ann: "announce_http env stats (th_request t) w = (w1, r1)" by fastforce
  from announce_http_no_panic [OF assms(1)] ann have r1: "r1 \<noteq> Panic" by (metis snd_conv)
  show ?thesis
  proof (cases r1)
    case (Ok b)
    then show ?thesis
      using assms(2,3) ann http_decode_facts [of b]
      by (cases "announce_response_http_decode b")
        (auto simp: http_get_peers_def tracker_http_announce_def split: if_splits)
  qed (use assms(2,3) ann r1 in \<open>auto simp: http_get_peers_def tracker_http_announce_def split: if_splits\<close>)
qed

interpretation http: tracker_contract "http_get_peers env stats" "\<lambda>t. hp_peers (th_response t)"
  "\<lambda>_. http_env_ok env"
  for env stats
  by unfold_locales (rule conjI, assumption, rule http_answer)

section \<open>The factory\<close>

datatype tracker_type = HTTP | UDP

datatype tracker = TrHTTP tracker_http | TrUDP tracker_udp

text \<open>
  What trackers act on: the UDP network and the HTTP side with its crates, the resolver, whether a
  socket can be bound, and the keys drawn. One clock runs for both sides.
\<close>

record ('p, 'u) tracker_world =
  tw_udp :: udp_world
  tw_http :: http_world
  tw_env :: "('p, 'u) http_env"
  tw_lookup :: "bytes \<Rightarrow> socket_addr list option"
  tw_bind :: bool
  tw_key :: "nat \<Rightarrow> u32"

definition after_udp :: "udp_world \<Rightarrow> ('p, 'u) tracker_world \<Rightarrow> ('p, 'u) tracker_world" where
  "after_udp u w = w\<lparr> tw_udp := u, tw_http := (tw_http w)\<lparr> hw_clock := u_clock u \<rparr> \<rparr>"

definition after_http :: "http_world \<Rightarrow> ('p, 'u) tracker_world \<Rightarrow> ('p, 'u) tracker_world" where
  "after_http h w = w\<lparr> tw_http := h, tw_udp := (tw_udp w)\<lparr> u_clock := hw_clock h \<rparr> \<rparr>"

definition determine_type :: "bytes \<Rightarrow> tracker_type" where
  "determine_type url = (if take 6 url = ascii ''udp://'' then UDP else HTTP)"

definition create_tracker ::
  "bytes \<Rightarrow> bytes \<Rightarrow> bytes \<Rightarrow> torrent_stats \<Rightarrow> u16 \<Rightarrow> ('p, 'u) tracker_world \<Rightarrow>
   ('p, 'u) tracker_world \<times> (tracker_error, tracker) outcome" where
  "create_tracker announce_url info_hash peer_id stats port w =
    (case determine_type announce_url of
       HTTP \<Rightarrow>
         (case tracker_http_new (tw_env w) announce_url info_hash peer_id stats port (tw_http w) of
            (h, r) \<Rightarrow> (after_http h w, obind r (\<lambda>t. Ok (TrHTTP t))))
     | UDP \<Rightarrow>
         (case tracker_udp_new (tw_lookup w) (tw_bind w) (tw_key w (u_count (tw_udp w))) announce_url
             info_hash peer_id stats port (tw_udp w) of
            (u, r) \<Rightarrow> (after_udp u w, obind r (\<lambda>t. Ok (TrUDP t)))))"

text \<open>The trait object: \<open>get_peers\<close> of whichever tracker it is.\<close>

definition tracker_get_peers ::
  "torrent_stats \<Rightarrow> tracker \<Rightarrow> ('p, 'u) tracker_world \<Rightarrow>
   (('p, 'u) tracker_world \<times> tracker) \<times> (tracker_error, peer_ip list) outcome" where
  "tracker_get_peers stats t w =
    (case t of
       TrHTTP h \<Rightarrow> (case http_get_peers (tw_env w) stats h (tw_http w) of
          ((hw, h), r) \<Rightarrow> ((after_http hw w, TrHTTP h), r))
     | TrUDP u \<Rightarrow> (case udp_get_peers stats u (tw_udp w) of
          ((uw, u), r) \<Rightarrow> ((after_udp uw w, TrUDP u), r)))"

definition tracker_cached :: "tracker \<Rightarrow> peer_ip list" where
  "tracker_cached t = (case t of TrHTTP h \<Rightarrow> hp_peers (th_response h) | TrUDP u \<Rightarrow> ar_peers (tu_response u))"

lemma tracker_answer:
  assumes "six_bytes (tracker_cached t)" "http_env_ok (tw_env w)" "tracker_get_peers stats t w = ((w', t'), r)"
  shows "http_env_ok (tw_env w') \<and> six_bytes (tracker_cached t') \<and> r \<noteq> Panic \<and>
    (\<forall>ps. r = Ok ps \<longrightarrow> ps = tracker_cached t') \<and> (\<forall>e. r = Err e \<longrightarrow> tracker_cached t' = tracker_cached t)"
proof (cases t)
  case (TrHTTP h)
  obtain hw h' r' where get: "http_get_peers (tw_env w) stats h (tw_http w) = ((hw, h'), r')"
    by (metis prod.exhaust)
  have eqs: "w' = after_http hw w" "t' = TrHTTP h'" "r = r'"
    using assms(3) get by (simp_all add: tracker_get_peers_def TrHTTP)
  have cached: "tracker_cached t = hp_peers (th_response h)" "tracker_cached t' = hp_peers (th_response h')"
    by (simp_all add: tracker_cached_def TrHTTP eqs)
  have "tw_env w' = tw_env w" by (simp add: eqs after_http_def)
  with http_answer [OF assms(2) assms(1) [unfolded cached] get] assms(2) show ?thesis
    unfolding cached eqs(3) by metis
next
  case (TrUDP u)
  obtain uw u' r' where get: "udp_get_peers stats u (tw_udp w) = ((uw, u'), r')" by (metis prod.exhaust)
  have eqs: "w' = after_udp uw w" "t' = TrUDP u'" "r = r'"
    using assms(3) get by (simp_all add: tracker_get_peers_def TrUDP)
  have cached: "tracker_cached t = ar_peers (tu_response u)" "tracker_cached t' = ar_peers (tu_response u')"
    by (simp_all add: tracker_cached_def TrUDP eqs)
  have "tw_env w' = tw_env w" by (simp add: eqs after_udp_def)
  with udp_answer [OF assms(1) [unfolded cached] get] assms(2) show ?thesis
    unfolding cached eqs(3) by metis
qed

interpretation boxed: tracker_contract "tracker_get_peers stats" tracker_cached "\<lambda>w. http_env_ok (tw_env w)"
  for stats
  by unfold_locales (rule tracker_answer)

section \<open>The manager\<close>

record tracker_manager =
  tm_trackers :: "tracker list"
  tm_stats :: torrent_stats
  tm_peer_pool :: "peer_ip list"
  tm_info_hash :: bytes
  tm_peer_id :: bytes
  tm_port :: u16

text \<open>Trackers whose creation fails are left out.\<close>

fun create_trackers ::
  "bytes list \<Rightarrow> bytes \<Rightarrow> bytes \<Rightarrow> torrent_stats \<Rightarrow> u16 \<Rightarrow> ('p, 'u) tracker_world \<Rightarrow>
   ('p, 'u) tracker_world \<times> tracker list" where
  "create_trackers [] info_hash peer_id stats port w = (w, [])"
| "create_trackers (url # urls) info_hash peer_id stats port w =
    (case create_tracker url info_hash peer_id stats port w of
       (w, r) \<Rightarrow>
         (case create_trackers urls info_hash peer_id stats port w of
            (w, ts) \<Rightarrow> (w, (case r of Ok t \<Rightarrow> t # ts | _ \<Rightarrow> ts))))"

definition tracker_manager_new ::
  "bytes \<Rightarrow> bytes list list option \<Rightarrow> bytes \<Rightarrow> bytes \<Rightarrow> u64 \<Rightarrow> u16 \<Rightarrow> ('p, 'u) tracker_world \<Rightarrow>
   ('p, 'u) tracker_world \<times> tracker_manager" where
  "tracker_manager_new announce_url announce_url_list info_hash peer_id total_size port w =
    (let stats = torrent_stats_new total_size;
         urls = announce_url # (case announce_url_list of Some l \<Rightarrow> concat l | None \<Rightarrow> []);
         (w, trackers) = create_trackers urls info_hash peer_id stats port w
     in (w, \<lparr> tm_trackers = trackers, tm_stats = stats, tm_peer_pool = [], tm_info_hash = info_hash,
              tm_peer_id = peer_id, tm_port = port \<rparr>))"

definition poll_all_trackers ::
  "tracker_manager \<Rightarrow> ('p, 'u) tracker_world \<Rightarrow> ('p, 'u) tracker_world \<times> tracker_manager" where
  "poll_all_trackers m w =
    (case poll_trackers (tracker_get_peers (tm_stats m)) (tm_trackers m) w (tm_peer_pool m) of
       (w, ts, pool) \<Rightarrow> (w, m\<lparr> tm_trackers := ts, tm_peer_pool := pool \<rparr>))"

definition get_all_peers_vec :: "tracker_manager \<Rightarrow> peer_ip list" where
  "get_all_peers_vec m = tm_peer_pool m"

definition get_all_peers_hash :: "tracker_manager \<Rightarrow> peer_ip set" where
  "get_all_peers_hash m = set (tm_peer_pool m)"

section \<open>What the manager keeps\<close>

definition tm_inv :: "tracker_manager \<Rightarrow> bool" where
  "tm_inv m \<longleftrightarrow> (\<forall>t \<in> set (tm_trackers m). six_bytes (tracker_cached t)) \<and>
     distinct (tm_peer_pool m) \<and> six_bytes (tm_peer_pool m)"

lemma create_tracker_ok:
  assumes "create_tracker url ih pid stats port w = (w', r)"
  shows "tw_env w' = tw_env w \<and> (\<forall>t. r = Ok t \<longrightarrow> six_bytes (tracker_cached t))"
proof (cases "determine_type url")
  case HTTP
  obtain hw r' where new: "tracker_http_new (tw_env w) url ih pid stats port (tw_http w) = (hw, r')" by fastforce
  have "six_bytes (hp_peers (th_response t))" if "r' = Ok t" for t
    using new that http_decode_facts(2)
    by (auto simp: tracker_http_new_def split: outcome.splits prod.splits)
  with assms new show ?thesis by (auto simp: create_tracker_def HTTP after_http_def tracker_cached_def)
next
  case UDP
  obtain uw r' where new: "tracker_udp_new (tw_lookup w) (tw_bind w) (tw_key w (u_count (tw_udp w))) url
      ih pid stats port (tw_udp w) = (uw, r')" by fastforce
  have "six_bytes (ar_peers (tu_response t))" if "r' = Ok t" for t
    using new that announce_loop_spec
    by (auto simp: tracker_udp_new_def announce_udp_def Let_def announce_ok_def six_bytes_def
        split: outcome.splits prod.splits if_splits)
  with assms new show ?thesis by (auto simp: create_tracker_def UDP after_udp_def tracker_cached_def)
qed

lemma create_trackers_ok:
  "create_trackers urls ih pid stats port w = (w', ts) \<Longrightarrow>
     tw_env w' = tw_env w \<and> (\<forall>t \<in> set ts. six_bytes (tracker_cached t)) \<and> length ts \<le> length urls"
proof (induction urls arbitrary: w ts)
  case (Cons url urls)
  obtain w1 r where new: "create_tracker url ih pid stats port w = (w1, r)" by fastforce
  obtain w2 ts2 where rest: "create_trackers urls ih pid stats port w1 = (w2, ts2)" by fastforce
  from create_tracker_ok [OF new] Cons.IH [OF _, of w1 ts2] rest new Cons.prems show ?case
    by (cases r) auto
qed simp

lemma tracker_manager_new_inv:
  assumes "tracker_manager_new url urls ih pid n port w = (w', m)"
  shows "tm_inv m \<and> tm_peer_pool m = [] \<and> tw_env w' = tw_env w"
proof -
  obtain w1 ts where new: "create_trackers (url # (case urls of Some l \<Rightarrow> concat l | None \<Rightarrow> [])) ih pid
      (torrent_stats_new n) port w = (w1, ts)" by fastforce
  from create_trackers_ok [OF new] assms new show ?thesis
    by (auto simp: tracker_manager_new_def tm_inv_def six_bytes_def Let_def simp del: create_trackers.simps)
qed

lemma poll_all_spec:
  assumes "tm_inv m" "http_env_ok (tw_env w)" "poll_all_trackers m w = (w', m')"
  shows "tm_inv m' \<and> length (tm_trackers m') = length (tm_trackers m) \<and>
    (\<exists>ws. ws 0 = w \<and> ws (length (tm_trackers m)) = w' \<and>
       (\<forall>k < length (tm_trackers m).
          fst (tracker_get_peers (tm_stats m) (tm_trackers m ! k) (ws k)) = (ws (Suc k), tm_trackers m' ! k) \<and>
          (case snd (tracker_get_peers (tm_stats m) (tm_trackers m ! k) (ws k)) of
             Ok ps \<Rightarrow> tracker_cached (tm_trackers m' ! k) = ps
           | Err e \<Rightarrow> tracker_cached (tm_trackers m' ! k) = tracker_cached (tm_trackers m ! k)
           | Panic \<Rightarrow> False)) \<and>
       set (tm_peer_pool m') = set (tm_peer_pool m) \<union>
         (\<Union>k \<in> {k. k < length (tm_trackers m) \<and>
              (\<exists>ps. snd (tracker_get_peers (tm_stats m) (tm_trackers m ! k) (ws k)) = Ok ps)}.
            set (tracker_cached (tm_trackers m' ! k))))"
proof -
  obtain w1 ts1 pool1 where poll: "poll_trackers (tracker_get_peers (tm_stats m)) (tm_trackers m) w
      (tm_peer_pool m) = (w1, ts1, pool1)" by (metis prod.exhaust)
  then have m': "m' = m\<lparr> tm_trackers := ts1, tm_peer_pool := pool1 \<rparr>" "w1 = w'"
    using assms(3) by (simp_all add: poll_all_trackers_def)
  from assms(1) have inv: "\<forall>t \<in> set (tm_trackers m). six_bytes (tracker_cached t)" "distinct (tm_peer_pool m)"
    "six_bytes (tm_peer_pool m)" by (simp_all add: tm_inv_def)
  from boxed.poll_spec [OF inv(1,2) assms(2) poll] obtain ws where spec: "distinct pool1"
    "length ts1 = length (tm_trackers m)" "\<forall>t \<in> set ts1. six_bytes (tracker_cached t)"
    "ws 0 = w" "ws (length (tm_trackers m)) = w1"
    and asked: "\<forall>k < length (tm_trackers m).
      fst (tracker_get_peers (tm_stats m) (tm_trackers m ! k) (ws k)) = (ws (Suc k), ts1 ! k) \<and>
      snd (tracker_get_peers (tm_stats m) (tm_trackers m ! k) (ws k)) \<noteq> Panic \<and>
      (\<forall>ps. snd (tracker_get_peers (tm_stats m) (tm_trackers m ! k) (ws k)) = Ok ps \<longrightarrow> ps = tracker_cached (ts1 ! k)) \<and>
      (\<forall>e. snd (tracker_get_peers (tm_stats m) (tm_trackers m ! k) (ws k)) = Err e \<longrightarrow>
        tracker_cached (ts1 ! k) = tracker_cached (tm_trackers m ! k))"
    and pool1: "set pool1 = set (tm_peer_pool m) \<union> (\<Union>k \<in> {k. k < length (tm_trackers m) \<and>
      (\<exists>ps. snd (tracker_get_peers (tm_stats m) (tm_trackers m ! k) (ws k)) = Ok ps)}. set (tracker_cached (ts1 ! k)))"
    by (elim conjE exE) (rule that)
  have "six_bytes pool1"
    unfolding six_bytes_def pool1 using spec(2,3) inv(3) by (auto simp: six_bytes_def)
  with spec have "tm_inv m'" "length (tm_trackers m') = length (tm_trackers m)" by (simp_all add: m' tm_inv_def)
  then show ?thesis
    using spec(4,5) asked pool1 by (intro conjI exI [of _ ws]) (auto simp: m' split: outcome.split)
qed

section \<open>Properties\<close>

text \<open>
  C31: Polling collects. Every tracker is asked once, in order, each in the world the one before has left; the pool
  then holds what it held and the peers of those whose \<open>get_peers\<close> answered, and no other; it never holds
  one twice, and each has six bytes. A tracker that answered holds its answer, one that failed the list it had.
  All this holds for a mix of UDP and HTTP trackers.
\<close>

theorem poll_collects_peers:
  assumes "tm_inv m" "http_env_ok (tw_env w)" "poll_all_trackers m w = (w', m')"
  shows "tm_inv m' \<and> length (tm_trackers m') = length (tm_trackers m) \<and>
    (\<exists>ws. ws 0 = w \<and> ws (length (tm_trackers m)) = w' \<and>
       (\<forall>k < length (tm_trackers m).
          fst (tracker_get_peers (tm_stats m) (tm_trackers m ! k) (ws k)) = (ws (Suc k), tm_trackers m' ! k) \<and>
          (case snd (tracker_get_peers (tm_stats m) (tm_trackers m ! k) (ws k)) of
             Ok ps \<Rightarrow> tracker_cached (tm_trackers m' ! k) = ps
           | Err e \<Rightarrow> tracker_cached (tm_trackers m' ! k) = tracker_cached (tm_trackers m ! k)
           | Panic \<Rightarrow> False)) \<and>
       set (get_all_peers_vec m') = set (get_all_peers_vec m) \<union>
         (\<Union>k \<in> {k. k < length (tm_trackers m) \<and>
              (\<exists>ps. snd (tracker_get_peers (tm_stats m) (tm_trackers m ! k) (ws k)) = Ok ps)}.
            set (tracker_cached (tm_trackers m' ! k))))"
  unfolding get_all_peers_vec_def by (rule poll_all_spec [OF assms])

definition sample_tworld :: "(unit, unit) tracker_world" where
  "sample_tworld = \<lparr> tw_udp = sample_world, tw_http = \<lparr> hw_count = 0, hw_delay = (\<lambda>_. 1), hw_clock = 100 \<rparr>,
     tw_env = \<lparr> h_parse = (\<lambda>_. Some ()), h_path = (\<lambda>_. None), h_assemble = (\<lambda>_ _. Ok ()),
       h_host = (\<lambda>_. Some [116]), h_port = (\<lambda>_. None), h_request = (\<lambda>_ _ _ _. Err HyperError),
       h_itoa = (\<lambda>_. [49]), h_from_buffer = (\<lambda>_. Ok BOther) \<rparr>,
     tw_lookup = (\<lambda>_. None), tw_bind = True, tw_key = (\<lambda>_. 0) \<rparr>"

definition sample_manager :: tracker_manager where
  "sample_manager = \<lparr> tm_trackers = [TrUDP \<lparr> tu_server_addr = V4 [], tu_connection_id = 1,
       tu_connection_time = 0, tu_request = announce_request_new (replicate 20 1) (replicate 20 2) 6881 9,
       tu_last_announce = 0, tu_response = sample_response \<rparr>],
     tm_stats = torrent_stats_new 5, tm_peer_pool = [[10, 0, 0, 2, 26, 225]], tm_info_hash = replicate 20 1,
     tm_peer_id = replicate 20 2, tm_port = 6881 \<rparr>"

theorem poll_collects_peers_witness:
  "tm_peer_pool (snd (poll_all_trackers sample_manager sample_tworld)) =
     [[10, 0, 0, 2, 26, 225], [10, 0, 0, 1, 26, 225]] \<and>
   tm_inv (snd (poll_all_trackers sample_manager sample_tworld))"
proof -
  have inv: "tm_inv sample_manager"
    by (simp add: tm_inv_def sample_manager_def six_bytes_def tracker_cached_def sample_response_def)
  have env: "http_env_ok (tw_env sample_tworld)" by (simp add: http_env_ok_def sample_tworld_def)
  obtain w' m' where poll: "poll_all_trackers sample_manager sample_tworld = (w', m')" by fastforce
  have "tm_inv m'" using poll_collects_peers [OF inv env poll] by blast
  moreover have "tm_peer_pool m' = [[10, 0, 0, 2, 26, 225], [10, 0, 0, 1, 26, 225]]"
    using poll by (auto simp: poll_all_trackers_def sample_manager_def sample_tworld_def tracker_get_peers_def
        udp_get_peers_def elapsed_secs_def sample_world_def sample_response_def hs_insert_def)
  ultimately show ?thesis by (simp add: poll)
qed

end
