(* ===== verification/Client.thy ===== *)
theory Client
  imports Download_Verified Peer_Manager Tracker_Manager "HOL-Library.Multiset"
begin

text \<open>
  The client, \<open>src/main.rs\<close>: it loads the torrent, asks the trackers for peers, opens the files,
  connects to the first ten peers and runs the download manager until the download is complete.
  Printing is left out. While it runs, the connections and the download manager take turns in any
  order; the download manager takes the events from the channel in the order they were sent.
\<close>

section \<open>The running client\<close>

record client =
  cl_swarm :: swarm
  cl_dm :: download_manager
  cl_disk :: disk
  cl_taken :: nat

text \<open>
  The commands the download manager sends go to the queues of the tasks, in order. Here these have room for all; with
  their capacity the commands of a turn may have to wait, which is modelled in \<open>Bounded_Channels\<close>.
\<close>

definition deliver :: "(nat \<times> manager_command) list \<Rightarrow> swarm \<Rightarrow> swarm" where
  "deliver sent sw = sw\<lparr> sw_tasks := fold (\<lambda>(k, command). enqueue k command) sent (sw_tasks sw) \<rparr>"

definition dm_view :: "client \<Rightarrow> dm_world" where
  "dm_view c =
    \<lparr> dw_disk = cl_disk c,
      dw_open = (\<lambda>k. k < length (sw_tasks (cl_swarm c)) \<and> accepts_commands (pt_phase (sw_tasks (cl_swarm c) ! k))),
      dw_takes = (\<lambda>_ _. True), dw_sent = [], dw_waiting = False \<rparr>"

lemma dm_view_flows [simp]: "dm_flows (dm, dm_view c)"
  by (simp add: dm_flows_def takes_all_def dm_view_def)

text \<open>
  The event loop ends, and with it the process, after the first turn that finds the download complete.
\<close>

definition client_running :: "client \<Rightarrow> bool" where
  "client_running c \<longleftrightarrow> cl_taken c = 0 \<or> \<not> is_download_complete (dm_piece_manager (cl_dm c))"

inductive client_step ::
  "(bytes \<Rightarrow> bytes) \<Rightarrow> (bytes \<times> u16 \<Rightarrow> (bytes \<times> bool) option) \<Rightarrow> client \<Rightarrow> client \<Rightarrow> bool"
  for sha1 connect where
  connections: "client_running c \<Longrightarrow> swarm_step connect (cl_swarm c) sw \<Longrightarrow>
    client_step sha1 connect c (c\<lparr> cl_swarm := sw \<rparr>)"
| downloads: "client_running c \<Longrightarrow> cl_taken c < length (sw_events (cl_swarm c)) \<Longrightarrow>
    turn sha1 (now, Some (sw_events (cl_swarm c) ! cl_taken c)) (cl_dm c, dm_view c) = Some (dm, w) \<Longrightarrow>
    client_step sha1 connect c
      (c\<lparr> cl_swarm := deliver (dw_sent w) (cl_swarm c), cl_dm := dm, cl_disk := dw_disk w,
          cl_taken := cl_taken c + 1 \<rparr>)"

inductive_cases client_stepE: "client_step sha1 connect c c'"

section \<open>Starting\<close>

definition total_size :: "file_details \<Rightarrow> u64" where
  "total_size details =
    (case details of SingleFile n \<Rightarrow> n | MultiFile files \<Rightarrow> sum_list (map fe_length files))"

text \<open>The client as \<open>main\<close> hands it to the event loop.\<close>

definition main_client ::
  "bytes \<Rightarrow> torrent \<Rightarrow> disk_io \<Rightarrow> peer_ip list \<Rightarrow> download_manager \<Rightarrow> disk \<Rightarrow> client" where
  "main_client pid t dio peers dm d =
    \<lparr> cl_swarm = connect_peers pid (t_info_hash t) None (take (min (length peers) 10) peers),
      cl_dm = set_disk_io dio dm, cl_disk = d, cl_taken = 0 \<rparr>"

datatype main_outcome =
    Usage
  | LoadFailed
  | NoPeers
  | DiskFailed
  | Stuck
  | Crashed
  | Started client

text \<open>
  \<open>order\<close> is the order in which the set of peers is listed, which Rust leaves open. A constructor of
  the download manager that never returns is \<open>Stuck\<close>. The usage message indexes the argument list, so
  an empty one, without even the program's name, is a panic.
\<close>

definition main_program ::
  "bytes list \<Rightarrow> (bytes \<Rightarrow> bytes option) \<Rightarrow> (bytes \<Rightarrow> ('s, bencode) outcome) \<Rightarrow>
   (bencode \<Rightarrow> (string, bytes) outcome) \<Rightarrow> (bytes \<Rightarrow> bytes) \<Rightarrow> (nat \<Rightarrow> u8) \<Rightarrow>
   (peer_ip list \<Rightarrow> peer_ip list) \<Rightarrow> ('p, 'u) tracker_world \<Rightarrow> disk \<Rightarrow> disk \<times> main_outcome" where
  "main_program args fs_read from_buffer to_bytes sha1 rng order w d =
    (if \<not> list_all is_utf8 args then (d, Crashed)
     else if args = [] then (d, Crashed)
     else if length args < 2 then (d, Usage)
     else case torrent_from_file fs_read from_buffer to_bytes sha1 (args ! 1) of
       Err e \<Rightarrow> (d, LoadFailed)
     | Panic \<Rightarrow> (d, Crashed)
     | Ok tf \<Rightarrow>
        (let t = tf_torrent tf;
             pid = peer_id rng;
             (w, tm) = tracker_manager_new (t_announce t) None (t_info_hash t) pid
               (total_size (info_files (t_info t))) 6881 w;
             (w, tm) = poll_all_trackers tm w;
             peers = order (get_all_peers_vec tm)
         in if peers = [] then (d, NoPeers)
            else case disk_io_new (ascii ''./downloads'') (info_files (t_info t))
                (ucast (piece_length (t_info t))) d of
              (d, Err e) \<Rightarrow> (d, DiskFailed)
            | (d, Panic) \<Rightarrow> (d, Crashed)
            | (d, Ok dio) \<Rightarrow>
                (case download_manager_new t 16384 of
                   None \<Rightarrow> (d, Stuck)
                 | Some dm \<Rightarrow> (d, Started (main_client pid t dio peers dm d)))))"

text \<open>What \<open>main\<close> reports when the event loop has returned.\<close>

definition main_report :: "client \<Rightarrow> nat \<times> bool" where
  "main_report c =
    (length (get_completed_pieces (dm_piece_manager (cl_dm c))),
     is_download_complete (dm_piece_manager (cl_dm c)))"

section \<open>Events\<close>

lemma swarm_deliver_inv:
  "swarm_inv sw \<Longrightarrow> swarm_inv (deliver sent sw) \<and> swarm_ident (deliver sent sw) = swarm_ident sw"
proof (induction sent arbitrary: sw)
  case (Cons s sent)
  obtain k cmd where s: "s = (k, cmd)" by fastforce
  let ?sw = "sw\<lparr> sw_tasks := enqueue k cmd (sw_tasks sw) \<rparr>"
  have "deliver (s # sent) sw = deliver sent ?sw" by (simp add: deliver_def s)
  moreover have "swarm_ident ?sw = swarm_ident sw" by (simp add: swarm_ident_def enqueue_tasks)
  ultimately show ?case using Cons.IH [OF swarm_enqueue_inv [OF Cons.prems]] by simp
qed (simp add: deliver_def)

lemma client_swarm_inv:
  assumes "(client_step sha1 connect)\<^sup>*\<^sup>* c0 c" "swarm_inv (cl_swarm c0)"
  shows "swarm_inv (cl_swarm c) \<and> swarm_ident (cl_swarm c) = swarm_ident (cl_swarm c0)"
  using assms
proof (induction rule: rtranclp_induct)
  case (step c c')
  from step.IH step.prems have IH: "swarm_inv (cl_swarm c)" "swarm_ident (cl_swarm c) = swarm_ident (cl_swarm c0)"
    by simp_all
  from step.hyps(2) show ?case
  proof cases
    case (connections sw)
    with swarm_step_inv [OF connections(3) IH(1)] IH(2) show ?thesis by simp
  next
    case (downloads now dm w)
    with swarm_deliver_inv [OF IH(1)] IH(2) show ?thesis by simp
  qed
qed simp

section \<open>The disk\<close>

lemma dm_inv_world: "dm_inv sha1 d0 (dm, w) \<longleftrightarrow> dm_inv sha1 d0 (dm, w') " if "dw_disk w = dw_disk w'"
  using that by (simp add: dm_inv_def)

lemma client_dm_inv:
  assumes "(client_step sha1 connect)\<^sup>*\<^sup>* c0 c" "dm_inv sha1 d0 (cl_dm c0, dm_view c0)"
  shows "dm_inv sha1 d0 (cl_dm c, dm_view c) \<and> pm_ident (dm_piece_manager (cl_dm c)) = pm_ident (dm_piece_manager (cl_dm c0)) \<and>
    dm_disk_io (cl_dm c) = dm_disk_io (cl_dm c0)"
  using assms
proof (induction rule: rtranclp_induct)
  case (step c c')
  from step.IH step.prems have IH: "dm_inv sha1 d0 (cl_dm c, dm_view c)"
    "pm_ident (dm_piece_manager (cl_dm c)) = pm_ident (dm_piece_manager (cl_dm c0))"
    "dm_disk_io (cl_dm c) = dm_disk_io (cl_dm c0)" by simp_all
  from step.hyps(2) show ?case
  proof cases
    case (connections sw)
    with IH dm_inv_world [of "dm_view c" "dm_view c'"] show ?thesis by (simp add: dm_view_def)
  next
    case (downloads now dm w)
    from turn_ok [OF IH(1) dm_view_flows, of "(now, Some (sw_events (cl_swarm c) ! cl_taken c))"] downloads(4)
    have "dm_inv sha1 d0 (dm, w)" "dm_ident (dm, w) = dm_ident (cl_dm c, dm_view c)" by simp_all
    with IH downloads(1) dm_inv_world [of w "dm_view c'"] show ?thesis by (simp add: dm_view_def dm_ident_def)
  qed
qed simp

text \<open>The client starts with the download manager's invariant, on the disk as it was opened.\<close>

lemma main_client_dm_inv:
  assumes "download_manager_new t bs = Some dm" "piece_count t \<le> 2 ^ 32"
    and "disk_io_new base details plen d0 = (d, Ok dio)"
  shows "dm_inv sha1 d (cl_dm (main_client pid t dio peers dm d), dm_view (main_client pid t dio peers dm d))"
proof -
  let ?c = "main_client pid t dio peers dm d"
  have "dm_inv sha1 d (start_download dio [] dm, dm_view ?c)"
    using dm_inv_start [OF assms(1,2), of dio sha1 "dm_view ?c" "[]"] disk_io_new_files [OF assms(3)]
    by (simp add: dm_view_def main_client_def files_open_def)
  then show ?thesis by (simp add: start_download_def main_client_def)
qed

section \<open>What is sent to peers\<close>

text \<open>A task nobody commands has written what a connection begins with.\<close>

definition task_quiet :: "peer_manager \<Rightarrow> peer_task \<Rightarrow> bool" where
  "task_quiet m t \<longleftrightarrow> pt_commands t = [] \<and> pt_bitfield t = None \<and>
     (\<forall>c. task_conn t = Some c \<longrightarrow> outbound c = handshake_message (pmg_peer_id m) (pmg_info_hash m))"

lemma new_outbound:
  assumes "peer_connection_new connect now ip pid ih = Ok c"
  shows "outbound c = handshake_message pid ih"
proof -
  from assms obtain st wr remote sent rest where hs: "handshake wr st pid ih = Ok (remote, sent, rest)"
    and out: "outbound c = sent"
    by (auto simp: peer_connection_new_def Let_def split: option.splits)
  from hs show ?thesis unfolding out by (auto simp: handshake_def Let_def split: if_splits)
qed

lemma quiet_start:
  assumes "task_quiet m t"
  shows "task_quiet m (start_task connect now m t)"
  using assms
  by (auto simp: task_quiet_def task_conn_def start_task_def send_bitfield_def new_outbound
      split: outcome.splits)

lemma run_one_outbound:
  assumes "run_loop [e] c = Ok (c', fin)" "\<And>command k junk. e \<noteq> FromManager (Some command) k junk"
  shows "outbound c' = outbound c"
proof (cases e)
  case (FromManager command k junk)
  then have "command = None" using assms(2) by (cases command) auto
  with FromManager assms(1) show ?thesis by (auto simp: Let_def cancel_read_def)
next
  case (FromPeer now)
  with assms(1) obtain m b st where "handle_message now m (c\<lparr> buf := b, inbound := st \<rparr>) = Ok c'" by auto
  from handle_message_extends [OF this] show ?thesis by auto
qed

lemma quiet_run:
  assumes "task_quiet m t" "pt_phase t = Running c" "take_event held e (pt_commands t) = Some queue"
  shows "task_quiet m (run_task e queue c t)"
proof -
  have cmds: "pt_commands t = []" using assms(1) by (simp add: task_quiet_def)
  have "take_event held (FromManager (Some command) k junk) [] = None" for command k junk by simp
  then have no: "e \<noteq> FromManager (Some command) k junk" for command k junk
    using assms(3) cmds by (metis option.distinct(1))
  have queue: "queue = []" using assms(3) cmds by (cases e; cases held) (auto elim!: take_event.elims)
  have out: "outbound c = handshake_message (pmg_peer_id m) (pmg_info_hash m)"
    using assms(1,2) by (simp add: task_quiet_def task_conn_def)
  have "outbound c' = outbound c" if "run_loop [e] c = Ok (c', fin)" for c' fin
    using run_one_outbound [OF that no] .
  with assms(1) out queue show ?thesis
    by (auto simp: task_quiet_def task_conn_def run_task_def simp del: run_loop.simps
        split: outcome.split prod.split)
qed

definition swarm_quiet :: "swarm \<Rightarrow> bool" where
  "swarm_quiet sw \<longleftrightarrow> (\<forall>t \<in> set (sw_tasks sw). task_quiet (sw_manager sw) t)"

lemma quiet_update:
  "swarm_quiet sw \<Longrightarrow> task_quiet (sw_manager sw) t \<Longrightarrow> swarm_quiet (sw\<lparr> sw_tasks := (sw_tasks sw)[k := t] \<rparr>)"
  by (auto simp: swarm_quiet_def dest!: set_update_subset_insert [THEN subsetD])

lemma quiet_events [simp]: "swarm_quiet (sw\<lparr> sw_events := es \<rparr>) = swarm_quiet sw"
  by (simp add: swarm_quiet_def)

lemma quiet_frame:
  assumes "task_quiet m t" "pt_commands t' = pt_commands t" "pt_bitfield t' = pt_bitfield t"
    and "map_option outbound (task_conn t') = map_option outbound (task_conn t)"
  shows "task_quiet m t'"
proof -
  have "outbound c = handshake_message (pmg_peer_id m) (pmg_info_hash m)" if "task_conn t' = Some c" for c
    using assms(1,4) that by (cases "task_conn t") (auto simp: task_quiet_def)
  with assms show ?thesis by (simp add: task_quiet_def)
qed

lemma swarm_step_quiet:
  assumes "swarm_step connect sw sw'" "swarm_quiet sw"
  shows "swarm_quiet sw'"
  using assms(1)
proof cases
  case (start k now)
  then have "task_quiet (sw_manager sw) (sw_tasks sw ! k)" using assms(2) by (simp add: swarm_quiet_def)
  from quiet_update [OF assms(2) quiet_start [OF this]] start show ?thesis by simp
next
  case (run k c e queue)
  then have "task_quiet (sw_manager sw) (sw_tasks sw ! k)" using assms(2) by (simp add: swarm_quiet_def)
  from quiet_update [OF assms(2) quiet_run [OF this run(3,4)]] run show ?thesis by simp
next
  case (forward_event k c)
  let ?t = "sw_tasks sw ! k"
  have quiet: "task_quiet (sw_manager sw) ?t" using forward_event assms(2) by (simp add: swarm_quiet_def)
  have "task_quiet (sw_manager sw) (?t\<lparr> pt_forwarded := pt_forwarded ?t + 1 \<rparr>)"
    by (rule quiet_frame [OF quiet]) (simp_all add: task_conn_def)
  moreover have "task_quiet (sw_manager sw) (?t\<lparr> pt_phase := close_events (pt_phase ?t) \<rparr>)"
    by (rule quiet_frame [OF quiet]; cases "pt_phase ?t") (simp_all add: task_conn_def)
  ultimately show ?thesis
    using quiet_update [OF assms(2)] quiet_update [of "sw\<lparr> sw_events := _ \<rparr>"] assms(2)
    by (auto simp: forward_event(1) forward_def Let_def)
qed

lemma client_quiet:
  assumes "(client_step sha1 connect)\<^sup>*\<^sup>* c0 c" "swarm_quiet (cl_swarm c0)" "dm_peers (cl_dm c0) = []"
  shows "swarm_quiet (cl_swarm c) \<and> dm_peers (cl_dm c) = []"
  using assms
proof (induction rule: rtranclp_induct)
  case (step c c')
  from step.IH step.prems have IH: "swarm_quiet (cl_swarm c)" "dm_peers (cl_dm c) = []" by simp_all
  from step.hyps(2) show ?case
  proof cases
    case (connections sw)
    with swarm_step_quiet [OF connections(3) IH(1)] IH(2) show ?thesis by simp
  next
    case (downloads now dm w)
    from turn_unregistered [OF downloads(4) IH(2)] have "dm_peers dm = []" "dw_sent w = []"
      by (simp_all add: dm_view_def)
    with IH downloads(1) show ?thesis by (simp add: deliver_def)
  qed
qed simp

lemma main_client_quiet:
  assumes "download_manager_new t bs = Some dm"
  shows "swarm_quiet (cl_swarm (main_client pid t dio peers dm d))"
    "dm_peers (cl_dm (main_client pid t dio peers dm d)) = []"
    "sw_manager (cl_swarm (main_client pid t dio peers dm d)) = sw_manager (connect_peers pid (t_info_hash t) None
       (take (min (length peers) 10) peers))"
  using assms
  by (auto simp: main_client_def swarm_quiet_def connect_peers_tasks task_quiet_def task_conn_def
      set_disk_io_def download_manager_new_def)

section \<open>Nothing panics\<close>

lemma open_files_no_panic: "open_files base fs files n d \<noteq> (d', Panic)"
proof (induction base fs files n d rule: open_files.induct)
  case (2 base f fs files n d)
  have path: "entry_path base components \<noteq> Panic" for base components
    by (induction base components rule: entry_path.induct) auto
  have "open_file path len d \<noteq> (d', Panic)" for path len d d'
    by (auto simp: open_file_def split: option.split)
  with 2 path show ?case by (auto split: outcome.split prod.split)
qed simp

lemma disk_io_new_no_panic: "disk_io_new base details plen d = (d', r) \<Longrightarrow> r \<noteq> Panic"
  using open_files_no_panic
  by (fastforce simp: disk_io_new_def open_file_def obind_Panic_iff split: if_splits file_details.splits
      option.splits prod.splits)

lemma load_no_panic:
  assumes "\<And>bs. from_buffer bs \<noteq> Panic" "\<And>b. to_bytes b \<noteq> Panic"
  shows "torrent_from_file fs_read from_buffer to_bytes sha1 path \<noteq> Panic"
  using assms
  by (simp add: torrent_from_file_def torrent_from_bytes_def torrent_decode_def obind_Panic_iff split: option.split)

section \<open>A run\<close>

text \<open>
  Clients with one peer, for the properties that need a run: the peer answers the handshake, and what
  it sends then is read and forwarded.
\<close>

definition sample_ip :: peer_ip where
  "sample_ip = [127, 0, 0, 1, 26, 225]"

definition sample_answer :: "bytes \<Rightarrow> bytes \<times> u16 \<Rightarrow> (bytes \<times> bool) option" where
  "sample_answer body addr = Some (handshake_message (replicate 20 3) (replicate 20 1) @ body, True)"

definition sample_client :: client where
  "sample_client = main_client (replicate 20 2) sample_torrent sample_single [sample_ip] sample_dm (dw_disk sample_dm_world)"

definition one_peer :: "client \<Rightarrow> bool" where
  "one_peer cl \<longleftrightarrow> cl_swarm cl = connect_peers (replicate 20 2) (replicate 20 1) None [sample_ip] \<and> cl_taken cl = 0"

definition sample_peers :: peer_manager where
  "sample_peers = sw_manager (connect_peers (replicate 20 2) (replicate 20 1) None [sample_ip])"

lemma one_peer_main:
  "t_info_hash t = replicate 20 1 \<Longrightarrow> one_peer (main_client (replicate 20 2) t dio [sample_ip] dm d)"
  by (simp add: one_peer_def main_client_def)

text \<open>The client when its only task is in a given phase and has forwarded the given events.\<close>

definition sample_task :: "task_phase \<Rightarrow> peer_event list \<Rightarrow> peer_task" where
  "sample_task ph es = \<lparr> pt_ip = sample_ip, pt_bitfield = None, pt_commands = [], pt_phase = ph,
     pt_forwarded = length es \<rparr>"

definition sample_at :: "client \<Rightarrow> task_phase \<Rightarrow> peer_event list \<Rightarrow> client" where
  "sample_at cl ph es = cl\<lparr> cl_swarm := (cl_swarm cl)\<lparr>
     sw_events := map (\<lambda>e. (e, sample_ip)) es, sw_tasks := [sample_task ph es] \<rparr> \<rparr>"

lemma sample_one_peer: "one_peer sample_client"
  unfolding sample_client_def by (rule one_peer_main) (simp add: sample_torrent_def)

lemma sample_client_swarm:
  "cl_swarm sample_client = connect_peers (replicate 20 2) (replicate 20 1) None [sample_ip]"
  using sample_one_peer by (simp add: one_peer_def)

lemma sample_at_simps [simp]:
  "sw_tasks (cl_swarm (sample_at cl ph es)) = [sample_task ph es]"
  "sw_events (cl_swarm (sample_at cl ph es)) = map (\<lambda>e. (e, sample_ip)) es"
  "one_peer cl \<Longrightarrow> sw_manager (cl_swarm (sample_at cl ph es)) = sample_peers"
  "one_peer cl \<Longrightarrow> sw_receiving (cl_swarm (sample_at cl ph es))" "one_peer cl \<Longrightarrow> client_running (sample_at cl ph es)"
  "one_peer cl \<Longrightarrow> cl_taken (sample_at cl ph es) = 0"
  by (simp_all add: sample_at_def one_peer_def sample_peers_def connect_peers_tasks client_running_def)

lemma sample_start:
  assumes "one_peer cl"
  shows "sample_at cl Connecting [] = cl"
proof -
  have "sw_tasks (cl_swarm cl) = [sample_task Connecting []]" "sw_events (cl_swarm cl) = []"
    using assms by (simp_all add: one_peer_def connect_peers_tasks sample_task_def)
  then show ?thesis by (simp add: sample_at_def)
qed

lemma sample_move: "(sample_at cl ph es)\<lparr> cl_swarm := cl_swarm (sample_at cl ph' es') \<rparr> = sample_at cl ph' es'"
  by (simp add: sample_at_def)

lemma sample_connected:
  obtains con where
    "start_task (sample_answer body) 0 sample_peers (sample_task Connecting []) =
      sample_task (Running con) []"
    "inbound con = body" "to_manager con = []" "manager_open con"
proof -
  obtain con where con: "peer_connection_new (sample_answer body) 0 sample_ip (replicate 20 2) (replicate 20 1) = Ok con"
    "inbound con = body" "to_manager con = []" "manager_open con"
    by (simp add: peer_connection_new_def Let_def sample_answer_def sample_ip_def handshake_met)
  show thesis
  proof (rule that [of con])
    show "start_task (sample_answer body) 0 sample_peers (sample_task Connecting []) =
        sample_task (Running con) []"
      by (simp add: start_task_def sample_peers_def connect_peers_tasks con(1) send_bitfield_def sample_task_def)
  qed (fact con(2-4))+
qed

lemma sample_turn:
  assumes "read_message (inbound con) = Ok (m, b0, rest)"
    and "handle_message 0 m (con\<lparr> buf := b0, inbound := rest \<rparr>) = Ok con'"
  shows "run_task (FromPeer 0) [] con (sample_task (Running con) es) = sample_task (Running con') es"
  using assms by (simp add: run_task_def sample_task_def)

lemma sample_turns:
  assumes "read_message body = Ok (UnChoke, b0, [])"
  obtains con con' where
    "start_task (sample_answer body) 0 sample_peers (sample_task Connecting []) =
      sample_task (Running con) []"
    "run_task (FromPeer 0) [] con (sample_task (Running con) []) = sample_task (Running con') []"
    "to_manager con = []" "to_manager con' = [PeerUnchoked]"
proof -
  obtain con where con: "start_task (sample_answer body) 0 sample_peers (sample_task Connecting []) =
      sample_task (Running con) []" "inbound con = body" "to_manager con = []" "manager_open con"
    using sample_connected .
  then obtain con' where "handle_message 0 UnChoke (con\<lparr> buf := b0, inbound := [] \<rparr>) = Ok con'"
    "to_manager con' = [PeerUnchoked]" by (simp add: send_event_def)
  with sample_turn [OF _ this(1)] con assms that show thesis by simp
qed

lemma sample_run:
  assumes "read_message body = Ok (UnChoke, b0, [])"
  shows "\<exists>c t con. (client_step sha1 (sample_answer body))\<^sup>*\<^sup>* sample_client c \<and> sw_tasks (cl_swarm c) = [t] \<and>
    task_conn t = Some con \<and> pt_ip t = sample_ip \<and> pt_forwarded t = 1 \<and> to_manager con = [PeerUnchoked] \<and>
    sw_events (cl_swarm c) = [(PeerUnchoked, sample_ip)]"
proof -
  let ?conn = "sample_answer body"
  let ?step = "client_step sha1 ?conn"
  obtain con con' where con: "start_task ?conn 0 sample_peers (sample_task Connecting []) =
      sample_task (Running con) []"
    "run_task (FromPeer 0) [] con (sample_task (Running con) []) = sample_task (Running con') []"
    "to_manager con = []" "to_manager con' = [PeerUnchoked]" using sample_turns [OF assms] .
  have moves: "?step (sample_at sample_client ph es) (sample_at sample_client ph' es')"
    if "swarm_step ?conn (cl_swarm (sample_at sample_client ph es)) (cl_swarm (sample_at sample_client ph' es'))" for ph es ph' es'
    using connections [OF sample_at_simps(5) [OF sample_one_peer] that, of sha1] by (simp only: sample_move)
  have "swarm_step ?conn (cl_swarm (sample_at sample_client Connecting [])) (cl_swarm (sample_at sample_client (Running con) []))"
    using swarm_step.start [of 0 "cl_swarm (sample_at sample_client Connecting [])" ?conn 0] con(1) sample_at_simps(3) [OF sample_one_peer]
    by (simp add: sample_task_def sample_at_def)
  moreover have "swarm_step ?conn (cl_swarm (sample_at sample_client (Running con) [])) (cl_swarm (sample_at sample_client (Running con') []))"
    using swarm_step.run [of 0 "cl_swarm (sample_at sample_client (Running con) [])" con "FromPeer 0" "[]" ?conn] con(2)
    by (simp add: sample_task_def sample_at_def)
  moreover have "forward 0 con' (cl_swarm (sample_at sample_client (Running con') [])) =
      cl_swarm (sample_at sample_client (Running con') [PeerUnchoked])"
    using sample_at_simps(4) [OF sample_one_peer]
    by (simp add: forward_def Let_def con(4)) (simp add: sample_at_def sample_task_def)
  then have "swarm_step ?conn (cl_swarm (sample_at sample_client (Running con') []))
      (cl_swarm (sample_at sample_client (Running con') [PeerUnchoked]))"
    using swarm_step.forward_event [of 0 "cl_swarm (sample_at sample_client (Running con') [])" con' ?conn] con(4)
    by (simp add: task_conn_def sample_task_def)
  ultimately have "?step\<^sup>*\<^sup>* (sample_at sample_client Connecting []) (sample_at sample_client (Running con') [PeerUnchoked])"
    by (meson moves converse_rtranclp_into_rtranclp rtranclp.rtrancl_refl)
  then show ?thesis
    unfolding sample_start [OF sample_one_peer]
    by (intro exI [of _ "sample_at sample_client (Running con') [PeerUnchoked]"])
      (simp add: con(4) task_conn_def sample_task_def)
qed

end
