(* ===== verification/Swarm_Events.thy ===== *)
theory Swarm_Events
  imports Peer_Manager
begin

text \<open>
  What holds of every event the connections send. A property of events that one turn of a connection
  keeps, given something of the connection while it runs, holds of all the events of a swarm. The
  argument is made once, in a locale; that blocks are small and that protocol-speaking peers cause no
  data events are two uses of it.
\<close>

definition task_all :: "(peer_event \<Rightarrow> bool) \<Rightarrow> (peer_connection \<Rightarrow> bool) \<Rightarrow> peer_task \<Rightarrow> bool" where
  "task_all good running t \<longleftrightarrow>
     (\<forall>c. pt_phase t = Running c \<longrightarrow> running c) \<and>
     (\<forall>c. task_conn t = Some c \<longrightarrow> list_all good (to_manager c))"

definition swarm_all :: "(peer_event \<Rightarrow> bool) \<Rightarrow> (peer_connection \<Rightarrow> bool) \<Rightarrow> swarm \<Rightarrow> bool" where
  "swarm_all good running sw \<longleftrightarrow>
     (\<forall>t \<in> set (sw_tasks sw). task_all good running t) \<and> (\<forall>(e, ip) \<in> set (sw_events sw). good e)"

lemma swarm_all_update:
  "swarm_all good running sw \<Longrightarrow> task_all good running t \<Longrightarrow>
     swarm_all good running (sw\<lparr> sw_tasks := (sw_tasks sw)[k := t] \<rparr>)"
  by (auto simp: swarm_all_def dest!: set_update_subset_insert [THEN subsetD])

lemma swarm_all_event:
  "swarm_all good running sw \<Longrightarrow> n < length (sw_events sw) \<Longrightarrow> sw_events sw ! n = (e, ip) \<Longrightarrow> good e"
  using nth_mem [of n "sw_events sw"] by (auto simp: swarm_all_def)

lemma swarm_all_connect: "swarm_all good running (connect_peers pid ih bf peers)"
  by (auto simp: swarm_all_def task_all_def connect_peers_tasks task_conn_def)

lemma task_all_commands [simp]: "task_all good running (t\<lparr> pt_commands := q \<rparr>) = task_all good running t"
  by (simp add: task_all_def task_conn_def)

lemma swarm_all_enqueue:
  "swarm_all good running sw \<Longrightarrow> swarm_all good running (sw\<lparr> sw_tasks := enqueue k cmd (sw_tasks sw) \<rparr>)"
  by (auto simp: swarm_all_def enqueue_def dest!: set_update_subset_insert [THEN subsetD])

text \<open>
  \<open>allowed\<close> restricts the turns: a property may depend on no command cancelling a read.
\<close>

locale event_property =
  fixes good :: "peer_event \<Rightarrow> bool"
    and running :: "peer_connection \<Rightarrow> bool"
    and allowed :: "select_event \<Rightarrow> bool"
  assumes turn_good: "running c \<Longrightarrow> allowed e \<Longrightarrow> run_loop [e] c = Ok (c', fin) \<Longrightarrow>
    (fin \<or> running c') \<and> (\<exists>es. to_manager c' = to_manager c @ es \<and> list_all good es)"
    and closed: "running c \<Longrightarrow> running (c\<lparr> manager_open := False \<rparr>)"
begin

lemma start_all:
  assumes "\<And>c c'. peer_connection_new connect now (pt_ip t) (pmg_peer_id m) (pmg_info_hash m) = Ok c \<Longrightarrow>
      send_bitfield (pt_bitfield t) c = Ok c' \<Longrightarrow> running c'"
  shows "task_all good running (start_task connect now m t)"
  using assms
  by (auto simp: task_all_def start_task_def task_conn_def new_silent split: outcome.splits dest: new_connection(4))

lemma run_all:
  assumes "task_all good running t" "pt_phase t = Running c" "allowed e"
  shows "task_all good running (run_task e queue c t)"
proof -
  have c: "running c" "list_all good (to_manager c)" using assms(1,2) by (simp_all add: task_all_def task_conn_def)
  have "(fin \<or> running c') \<and> list_all good (to_manager c')" if "run_loop [e] c = Ok (c', fin)" for c' fin
    using turn_good [OF c(1) assms(3) that] c(2) by auto
  with c(2) show ?thesis
    by (auto simp: task_all_def task_conn_def run_task_def simp del: run_loop.simps
        split: outcome.split prod.split if_splits)
qed

lemma step_all:
  assumes "swarm_step connect sw sw'" "swarm_all good running sw"
    and new: "\<And>now ip pid ih c bf c'. peer_connection_new connect now ip pid ih = Ok c \<Longrightarrow>
      send_bitfield bf c = Ok c' \<Longrightarrow> running c'"
    and turns: "\<And>t held e queue. t \<in> set (sw_tasks sw) \<Longrightarrow> take_event held e (pt_commands t) = Some queue \<Longrightarrow> allowed e"
  shows "swarm_all good running sw'"
proof -
  have task: "k < length (sw_tasks sw) \<Longrightarrow> task_all good running (sw_tasks sw ! k)" for k
    using assms(2) by (simp add: swarm_all_def)
  from assms(1) show ?thesis
  proof cases
    case (start k now)
    with swarm_all_update [OF assms(2) start_all [OF new]] show ?thesis by simp
  next
    case (run k c e queue)
    with swarm_all_update [OF assms(2) run_all [OF task run(3) turns [OF nth_mem run(4)]]] show ?thesis by simp
  next
    case (forward_event k c)
    let ?t = "sw_tasks sw ! k" and ?e = "to_manager c ! pt_forwarded (sw_tasks sw ! k)"
    have "task_all good running ?t" using task forward_event(2) .
    then have t: "task_all good running (?t\<lparr> pt_forwarded := n \<rparr>)" "list_all good (to_manager c)" for n
      using forward_event(3) by (auto simp: task_all_def task_conn_def split: task_phase.splits)
    then have good: "good ?e" using forward_event(4) by (simp add: list_all_length)
    show ?thesis
    proof (cases "sw_receiving sw")
      case True
      have "swarm_all good running (sw\<lparr> sw_events := sw_events sw @ [(?e, pt_ip ?t)] \<rparr>)"
        using assms(2) good by (auto simp: swarm_all_def)
      from swarm_all_update [OF this t(1), of k "pt_forwarded ?t + 1"] True show ?thesis
        by (simp add: forward_event(1) forward_def Let_def)
    next
      case False
      have "task_all good running (?t\<lparr> pt_phase := close_events (pt_phase ?t) \<rparr>)"
        using \<open>task_all good running ?t\<close>
        by (cases "pt_phase ?t") (auto simp: task_all_def task_conn_def closed)
      from swarm_all_update [OF assms(2) this] False show ?thesis
        by (simp add: forward_event(1) forward_def Let_def)
    qed
  qed
qed

end

end
