(* ===== verification/Client_Protocol.thy ===== *)
theory Client_Protocol
  imports Client Swarm_Events
begin

text \<open>
  What the client makes of peers that speak the protocol. \<open>PeerConnection::read_message\<close> cuts the length
  prefix off and \<open>Message::deserialize\<close> then takes the message's first four bytes for one. For messages
  of the sizes in use this theory shows that neither a block nor a bitfield comes through, lifts
  that to the stream of one connection, to the swarm, and to the running client.
\<close>

section \<open>One message\<close>

definition carries_data :: "message \<Rightarrow> bool" where
  "carries_data m \<longleftrightarrow> (\<exists>i b xs. m = Piece i b xs) \<or> (\<exists>xs. m = Bitfield xs)"

text \<open>Messages of at most 64 MiB; blocks are of 16 KiB in practice.\<close>

definition usual :: "message \<Rightarrow> bool" where
  "usual m \<longleftrightarrow> wire_ok m \<and> length (serialize m) \<le> 2 ^ 26"

lemma of_be_head: "2 ^ 24 * unat b \<le> unat (of_be [b, x, y, z] :: u32)"
proof -
  have "push_bit 24 (ucast b) AND (of_be [b, x, y, z] :: u32) = push_bit 24 (ucast b)"
    by (rule bit_word_eqI) (auto simp: of_be_def bit_simps)
  then have "push_bit 24 (ucast b :: u32) \<le> of_be [b, x, y, z]"
    by (metis word_and_le1 and.commute)
  moreover have "unat (push_bit 24 (ucast b :: u32)) = 2 ^ 24 * unat b"
  proof -
    have "unat b < 2 ^ 8" using unsigned_less [of b] by simp
    then show ?thesis by (simp add: push_bit_eq_mult unat_word_ariths unsigned_ucast_eq take_bit_nat_eq_self)
  qed
  ultimately show ?thesis by (simp add: word_le_nat_alt)
qed

lemma four_bytes: "4 \<le> length xs \<Longrightarrow> \<exists>a b c d ys. xs = a # b # c # d # ys"
  by (auto simp: Suc_le_length_iff eval_nat_numeral)

text \<open>Read without its prefix, such a message is no block and no bitfield.\<close>

lemma misread:
  assumes "usual m" "deserialize (drop 4 (serialize m)) = Ok (m', b)"
  shows "\<not> carries_data m'"
proof -
  let ?body = "drop 4 (serialize m)"
  have len: "length ?body \<le> 2 ^ 26" using assms(1) by (auto simp: usual_def intro: le_trans [OF diff_le_self])
  have long: "4 \<le> length ?body" using assms(2) by (auto simp: deserialize_Ok_iff)
  then have head: "4 \<le> unat (?body ! 0)" by (cases m) (simp_all add: serialize_def)
  obtain b0 b1 b2 b3 rest where body: "?body = b0 # b1 # b2 # b3 # rest"
    using four_bytes [OF long] by blast
  have "2 ^ 26 \<le> unat (of_be (take 4 ?body) :: u32)"
    using of_be_head [of b0 b1 b2 b3] head by (simp add: body)
  moreover from this have "2 ^ 26 - 9 \<le> unat (of_be (take 4 ?body) - 9 :: u32)"
    "2 ^ 26 - 1 \<le> unat (of_be (take 4 ?body) - 1 :: u32)"
    by (simp_all add: unat_sub word_le_nat_alt)
  ultimately show ?thesis
    using assms(2) len by (auto simp: deserialize_Ok_iff carries_data_def split: if_splits)
qed

section \<open>A stream of messages\<close>

text \<open>What a peer that speaks the protocol sends after its handshake, up to where it stops.\<close>

definition protocol_stream :: "bytes \<Rightarrow> bool" where
  "protocol_stream s \<longleftrightarrow> (\<exists>ms n. list_all usual ms \<and> s = take n (concat (map serialize ms)))"

lemma read_protocol:
  assumes "protocol_stream s" "read_message s = Ok (m, b, s')"
  shows "protocol_stream s' \<and> \<not> carries_data m"
proof -
  from assms(1) obtain ms n where ms: "list_all usual ms" and s: "s = take n (concat (map serialize ms))"
    by (auto simp: protocol_stream_def)
  from assms(2) have long: "4 \<le> length s" by (auto simp: read_message_def split: if_splits)
  then obtain m1 ms1 where ms1: "ms = m1 # ms1" using s by (cases ms) auto
  with ms have m1: "usual m1" "wire_ok m1" by (simp_all add: usual_def)
  let ?f = "serialize m1"
  show ?thesis
  proof (cases "length ?f \<le> n")
    case True
    then have "s = ?f @ take (n - length ?f) (concat (map serialize ms1))" by (simp add: s ms1)
    with assms(2) m1(2) have "deserialize (drop 4 ?f) = Ok (m, b)"
      "s' = take (n - length ?f) (concat (map serialize ms1))" by (auto simp: read_message_serialized)
    with misread [OF m1(1)] ms ms1 show ?thesis by (auto simp: protocol_stream_def)
  next
    case False
    then have short: "s = take n ?f" "length s < length ?f" by (simp_all add: s ms1)
    with long False have "take 4 s = take 4 ?f" by (simp add: min_def)
    moreover have "length s - 4 < length ?f - 4" using short(2) long by simp
    ultimately have "read_message s = Err ConnectionIo"
      using serialize_prefix [OF m1(2)] long by (simp add: read_message_def Let_def)
    with assms(2) show ?thesis by simp
  qed
qed

fun data_event :: "peer_event \<Rightarrow> bool" where
  "data_event (ReceivedPiece i b xs) = True"
| "data_event (ReceivedBitfield xs) = True"
| "data_event e = False"

lemma handle_no_data:
  assumes "handle_message now m c = Ok c'" "\<not> carries_data m"
  shows "inbound c' = inbound c \<and> (\<exists>es. to_manager c' = to_manager c @ es \<and> list_all (\<lambda>e. \<not> data_event e) es)"
  using assms by (cases m) (auto simp: send_event_iff carries_data_def)

text \<open>A turn in which no command cancels a read.\<close>

fun undisturbed :: "select_event \<Rightarrow> bool" where
  "undisturbed (FromManager (Some command) k junk) = False"
| "undisturbed e = True"

interpretation protocol: event_property "\<lambda>e. \<not> data_event e" "\<lambda>c. protocol_stream (inbound c)" undisturbed
proof unfold_locales
  fix c e c' fin
  assume c: "protocol_stream (inbound c)" and e: "undisturbed e" and ran: "run_loop [e] c = Ok (c', fin)"
  show "(fin \<or> protocol_stream (inbound c')) \<and>
    (\<exists>es. to_manager c' = to_manager c @ es \<and> list_all (\<lambda>e. \<not> data_event e) es)"
  proof (cases e)
    case (FromManager command k junk)
    with e ran show ?thesis by (cases command) (auto simp: cancel_read_def Let_def)
  next
    case (FromPeer now)
    with ran obtain m b st where read: "read_message (inbound c) = Ok (m, b, st)"
      and "handle_message now m (c\<lparr> buf := b, inbound := st \<rparr>) = Ok c'" by auto
    from handle_no_data [OF this(2)] read_protocol [OF c read] show ?thesis by simp
  qed
qed simp

section \<open>The peers\<close>

text \<open>The peers a client can reach: whatever they answer to the handshake, they go on in the protocol.\<close>

definition protocol_peers :: "(bytes \<times> u16 \<Rightarrow> (bytes \<times> bool) option) \<Rightarrow> bool" where
  "protocol_peers connect \<longleftrightarrow>
     (\<forall>addr stream wr. connect addr = Some (stream, wr) \<longrightarrow> protocol_stream (drop 68 stream))"

lemma new_inbound:
  assumes "peer_connection_new connect now ip pid ih = Ok c" "protocol_peers connect"
  shows "protocol_stream (inbound c)"
proof -
  from assms(1) obtain addr st wr remote sent rest where "connect addr = Some (st, wr)"
    "handshake wr st pid ih = Ok (remote, sent, rest)" "inbound c = rest"
    by (auto simp: peer_connection_new_def Let_def split: option.splits)
  moreover from this(2) have "rest = drop 68 st" by (auto simp: handshake_def Let_def split: if_splits)
  moreover from calculation(1) have "protocol_stream (drop 68 st)"
    using assms(2) unfolding protocol_peers_def by blast
  ultimately show ?thesis by simp
qed

abbreviation swarm_protocol :: "swarm \<Rightarrow> bool" where
  "swarm_protocol \<equiv> swarm_all (\<lambda>e. \<not> data_event e) (\<lambda>c. protocol_stream (inbound c))"

lemma swarm_step_protocol:
  assumes "swarm_step connect sw sw'" "protocol_peers connect" "swarm_quiet sw" "swarm_protocol sw"
  shows "swarm_protocol sw'"
proof (rule protocol.step_all [OF assms(1,4)])
  fix now ip pid ih c bf c'
  assume "peer_connection_new connect now ip pid ih = Ok c" "send_bitfield bf c = Ok c'"
  then show "protocol_stream (inbound c')"
    using new_inbound [OF _ assms(2)] by (auto simp: send_bitfield_def write_buf_def split: option.splits if_splits)
next
  fix t held e queue assume "t \<in> set (sw_tasks sw)" "take_event held e (pt_commands t) = Some queue"
  moreover from this(1) assms(3) have "pt_commands t = []" by (simp add: swarm_quiet_def task_quiet_def)
  ultimately show "undisturbed e" by (cases e rule: undisturbed.cases) simp_all
qed

section \<open>The client\<close>

lemma turn_no_data:
  assumes "turn sha1 (now, Some (e, ip)) (dm, w) = Some s" "dm_peers dm = []" "\<not> data_event e"
  shows "s = (dm, w)"
  using turn_handled [OF assms(1)] assms(2,3)
  by (cases e) (auto simp: handle_have_def handle_unchoke_def request_pieces_from_peer_def
      get_peer_available_pieces_def get_next_piece_to_download_def dm_remove_peer_def hm_remove_def)

lemma client_protocol:
  assumes "(client_step sha1 connect)\<^sup>*\<^sup>* c0 c" "protocol_peers connect"
    and "swarm_quiet (cl_swarm c0)" "dm_peers (cl_dm c0) = []" "swarm_protocol (cl_swarm c0)"
  shows "swarm_protocol (cl_swarm c) \<and> cl_dm c = cl_dm c0 \<and> cl_disk c = cl_disk c0"
  using assms
proof (induction rule: rtranclp_induct)
  case (step c c')
  from step.IH step.prems have IH: "swarm_protocol (cl_swarm c)" "cl_dm c = cl_dm c0" "cl_disk c = cl_disk c0"
    by simp_all
  from client_quiet [OF step.hyps(1) step.prems(2,3)] have quiet: "swarm_quiet (cl_swarm c)" "dm_peers (cl_dm c) = []"
    by simp_all
  from step.hyps(2) show ?case
  proof cases
    case (connections sw)
    with swarm_step_protocol [OF connections(3) step.prems(1) quiet(1) IH(1)] IH show ?thesis by simp
  next
    case (downloads now dm w)
    obtain e ip where ev: "sw_events (cl_swarm c) ! cl_taken c = (e, ip)" by fastforce
    with downloads(3) have "(e, ip) \<in> set (sw_events (cl_swarm c))" by (metis nth_mem)
    then have "\<not> data_event e"
      using IH(1) by (auto simp: swarm_all_def)
    from turn_no_data [OF downloads(4) [unfolded ev] quiet(2) this] have "dm = cl_dm c" "w = dm_view c" by simp_all
    with IH downloads(1) show ?thesis by (simp add: dm_view_def deliver_def)
  qed
qed simp

section \<open>Properties\<close>

text \<open>
  C13: With peers that speak the protocol nothing is ever downloaded. Whatever such peers send, in
  messages of up to 64 MiB, and however the tasks are interleaved: no block and no bitfield reaches the
  download manager, its state and the disk stay as they were, and the event loop does not end unless
  the torrent has no pieces.
\<close>

theorem protocol_peers_download_nothing:
  assumes "download_manager_new t bs = Some dm" "protocol_peers connect"
    and "(client_step sha1 connect)\<^sup>*\<^sup>* (main_client pid t dio peers dm d) c"
  shows "cl_disk c = d \<and> cl_dm c = set_disk_io dio dm \<and> main_report c = (0, piece_count t = 0) \<and>
    (\<forall>(e, ip) \<in> set (sw_events (cl_swarm c)). \<not> data_event e)"
proof -
  note quiet = main_client_quiet [OF assms(1), of pid dio peers d]
  have "swarm_protocol (cl_swarm (main_client pid t dio peers dm d))"
    by (simp add: main_client_def swarm_all_connect)
  from client_protocol [OF assms(3,2) quiet(1,2) this]
  have "swarm_protocol (cl_swarm c)" "cl_dm c = set_disk_io dio dm" "cl_disk c = d"
    by (simp_all add: main_client_def)
  with manager_new_fresh [OF download_manager_new_piece_manager [OF assms(1)]] show ?thesis
    by (auto simp: main_report_def set_disk_io_def swarm_all_def)
qed

text \<open>A peer that announces its piece 1 is taken for one that unchokes us.\<close>

theorem protocol_peers_download_nothing_witness:
  "\<exists>c. (client_step (\<lambda>_. []) (sample_answer (serialize (Have 1))))\<^sup>*\<^sup>* sample_client c \<and>
    sw_events (cl_swarm c) = [(PeerUnchoked, sample_ip)] \<and> cl_disk c = dw_disk sample_dm_world \<and>
    main_report c = (0, False)"
proof -
  have "read_message (serialize (Have 1)) = Ok (UnChoke, [4, 0, 0, 0, 1], [])" by code_simp
  from sample_run [OF this] obtain c where
    c: "(client_step (\<lambda>_. []) (sample_answer (serialize (Have 1))))\<^sup>*\<^sup>* sample_client c"
    "sw_events (cl_swarm c) = [(PeerUnchoked, sample_ip)]" by blast
  have "protocol_stream (serialize (Have 1))"
    unfolding protocol_stream_def
    by (intro exI [of _ "[Have 1]"] exI [of _ 9]) (simp add: usual_def serialize_def)
  then have "protocol_peers (sample_answer (serialize (Have 1)))"
    by (simp add: protocol_peers_def sample_answer_def)
  from protocol_peers_download_nothing [OF sample_dm_new this c(1) [unfolded sample_client_def]] c
  show ?thesis by (auto simp: sample_count)
qed

end
