(* ===== verification/Bounded_Channels.thy ===== *)
theory Bounded_Channels
  imports Client
begin

text \<open>
  The running client with the channels as they are: bounded. An event passes from the connection into a
  channel of 100, is taken out by the task's forwarding loop, which holds it until it fits
  the download channel of 1000, and is taken from there by the download manager; a command waits for room in
  the task's queue of 100. A connection or a download manager with something left to send does nothing
  else. The theory relates this to \<open>client_step\<close>, in which a send never waits.
\<close>

section \<open>State and steps\<close>

text \<open>
  Over the client: for each task how many of its connection's events are in the channel or past it, and how many its forwarding
  loop has taken out; and the commands the download manager has still to send. The events of
  a connection that are not in the channel yet are the ones it is waiting to send.
\<close>

record bounded_client =
  bd_client :: client
  bd_sent :: "nat \<Rightarrow> nat"
  bd_received :: "nat \<Rightarrow> nat"
  bd_pending :: "(nat \<times> manager_command) list"

definition channel_capacity :: nat where
  "channel_capacity = 100"

definition event_capacity :: nat where
  "event_capacity = 1000"

definition bounded_start :: "client \<Rightarrow> bounded_client" where
  "bounded_start c = \<lparr> bd_client = c, bd_sent = (\<lambda>_. 0), bd_received = (\<lambda>_. 0), bd_pending = [] \<rparr>"

abbreviation bd_tasks :: "bounded_client \<Rightarrow> peer_task list" where
  "bd_tasks b \<equiv> sw_tasks (cl_swarm (bd_client b))"

abbreviation bd_queue :: "bounded_client \<Rightarrow> nat" where
  "bd_queue b \<equiv> length (sw_events (cl_swarm (bd_client b))) - cl_taken (bd_client b)"

definition set_swarm :: "swarm \<Rightarrow> bounded_client \<Rightarrow> bounded_client" where
  "set_swarm sw b = b\<lparr> bd_client := (bd_client b)\<lparr> cl_swarm := sw \<rparr> \<rparr>"

text \<open>The event loop looks at the download only when the commands of the last event are sent.\<close>

definition bounded_running :: "bounded_client \<Rightarrow> bool" where
  "bounded_running b \<longleftrightarrow> bd_pending b \<noteq> [] \<or> client_running (bd_client b)"

inductive bounded_step ::
  "(bytes \<Rightarrow> bytes) \<Rightarrow> (bytes \<times> u16 \<Rightarrow> (bytes \<times> bool) option) \<Rightarrow> bounded_client \<Rightarrow> bounded_client \<Rightarrow> bool"
  for sha1 connect where
  start: "bounded_running b \<Longrightarrow> k < length (bd_tasks b) \<Longrightarrow> pt_phase (bd_tasks b ! k) = Connecting \<Longrightarrow>
    sw = cl_swarm (bd_client b) \<Longrightarrow>
    bounded_step sha1 connect b (set_swarm
      (sw\<lparr> sw_tasks := (sw_tasks sw)[k := start_task connect now (sw_manager sw) (sw_tasks sw ! k)] \<rparr>) b)"
| run: "bounded_running b \<Longrightarrow> k < length (bd_tasks b) \<Longrightarrow> pt_phase (bd_tasks b ! k) = Running c \<Longrightarrow>
    bd_sent b k = length (to_manager c) \<Longrightarrow> sw = cl_swarm (bd_client b) \<Longrightarrow>
    take_event (k \<in> set (hm_values (pmg_peer_senders (sw_manager sw)))) e (pt_commands (sw_tasks sw ! k))
      = Some queue \<Longrightarrow>
    bounded_step sha1 connect b
      (set_swarm (sw\<lparr> sw_tasks := (sw_tasks sw)[k := run_task e queue c (sw_tasks sw ! k)] \<rparr>) b)"
| send: "bounded_running b \<Longrightarrow> k < length (bd_tasks b) \<Longrightarrow> task_conn (bd_tasks b ! k) = Some c \<Longrightarrow>
    bd_sent b k < length (to_manager c) \<Longrightarrow> bd_sent b k - bd_received b k < channel_capacity \<Longrightarrow>
    bounded_step sha1 connect b (b\<lparr> bd_sent := (bd_sent b)(k := bd_sent b k + 1) \<rparr>)"
| receive: "bounded_running b \<Longrightarrow> k < length (bd_tasks b) \<Longrightarrow>
    bd_received b k = pt_forwarded (bd_tasks b ! k) \<Longrightarrow> bd_received b k < bd_sent b k \<Longrightarrow>
    bounded_step sha1 connect b (b\<lparr> bd_received := (bd_received b)(k := bd_received b k + 1) \<rparr>)"
| forward: "bounded_running b \<Longrightarrow> k < length (bd_tasks b) \<Longrightarrow> task_conn (bd_tasks b ! k) = Some c \<Longrightarrow>
    pt_forwarded (bd_tasks b ! k) < bd_received b k \<Longrightarrow>
    \<not> sw_receiving (cl_swarm (bd_client b)) \<or> bd_queue b < event_capacity \<Longrightarrow>
    bounded_step sha1 connect b (set_swarm (forward k c (cl_swarm (bd_client b))) b)"
| take: "bounded_running b \<Longrightarrow> bd_pending b = [] \<Longrightarrow> cl = bd_client b \<Longrightarrow>
    cl_taken cl < length (sw_events (cl_swarm cl)) \<Longrightarrow>
    turn sha1 (now, Some (sw_events (cl_swarm cl) ! cl_taken cl)) (cl_dm cl, dm_view cl) = Some (dm, w) \<Longrightarrow>
    bounded_step sha1 connect b
      (b\<lparr> bd_client := cl\<lparr> cl_dm := dm, cl_disk := dw_disk w, cl_taken := cl_taken cl + 1 \<rparr>,
          bd_pending := dw_sent w \<rparr>)"
| command: "bounded_running b \<Longrightarrow> bd_pending b = (k, cmd) # rest \<Longrightarrow>
    k < length (bd_tasks b) \<and> accepts_commands (pt_phase (bd_tasks b ! k)) \<longrightarrow>
      length (pt_commands (bd_tasks b ! k)) < channel_capacity \<Longrightarrow>
    bounded_step sha1 connect b
      (set_swarm (deliver [(k, cmd)] (cl_swarm (bd_client b))) (b\<lparr> bd_pending := rest \<rparr>))"

inductive_cases bounded_stepE: "bounded_step sha1 connect b b'"

section \<open>What the channels hold\<close>

definition sent_events :: "peer_task \<Rightarrow> nat" where
  "sent_events t = (case task_conn t of Some c \<Rightarrow> length (to_manager c) | None \<Rightarrow> 0)"

text \<open>
  A task with the counts of its channel: at most two events wait to be sent, at most 100 are in the channel,
  and at most one is in the hands of the forwarding loop.
\<close>

definition channel_ok :: "nat \<Rightarrow> nat \<Rightarrow> peer_task \<Rightarrow> bool" where
  "channel_ok s r t \<longleftrightarrow> pt_forwarded t \<le> r \<and> r \<le> pt_forwarded t + 1 \<and> r \<le> s \<and> s \<le> r + channel_capacity \<and>
     s \<le> sent_events t \<and> sent_events t \<le> s + 2"

definition bd_inv :: "(bytes \<Rightarrow> bytes) \<Rightarrow> disk \<Rightarrow> bounded_client \<Rightarrow> bool" where
  "bd_inv sha1 d0 b \<longleftrightarrow>
     dm_inv sha1 d0 (cl_dm (bd_client b), dm_view (bd_client b)) \<and>
     dm_peers (cl_dm (bd_client b)) = [] \<and> bd_pending b = [] \<and>
     sw_receiving (cl_swarm (bd_client b)) \<and>
     cl_taken (bd_client b) \<le> length (sw_events (cl_swarm (bd_client b))) \<and> bd_queue b \<le> event_capacity \<and>
     (\<forall>k < length (bd_tasks b). channel_ok (bd_sent b k) (bd_received b k) (bd_tasks b ! k))"

lemma handle_message_at_most_two:
  "handle_message now m c = Ok c' \<Longrightarrow> length (to_manager c) \<le> length (to_manager c') \<and>
     length (to_manager c') \<le> length (to_manager c) + 2"
  by (cases m) (auto simp: send_event_iff Let_def)

lemma run_at_most_two:
  assumes "run_loop [e] c = Ok (c', fin)"
  shows "length (to_manager c) \<le> length (to_manager c') \<and> length (to_manager c') \<le> length (to_manager c) + 2"
proof (cases e)
  case (FromManager command k junk)
  with assms show ?thesis
    by (auto simp: Let_def cancel_read_def handle_manager_command_iff split: option.splits if_splits)
next
  case (FromPeer now)
  with assms obtain m b st where "handle_message now m (c\<lparr> buf := b, inbound := st \<rparr>) = Ok c'" by auto
  from handle_message_at_most_two [OF this] show ?thesis by simp
qed

lemma sent_run:
  assumes "pt_phase t = Running c"
  shows "length (to_manager c) \<le> sent_events (run_task e queue c t) \<and>
    sent_events (run_task e queue c t) \<le> length (to_manager c) + 2"
proof (cases "\<exists>c' fin. run_loop [e] c = Ok (c', fin)")
  case True
  then obtain c' fin where ran: "run_loop [e] c = Ok (c', fin)" by blast
  with run_at_most_two [OF ran] show ?thesis
    by (simp add: run_task_def sent_events_def task_conn_def del: run_loop.simps)
next
  case False
  then have "pt_phase (run_task e queue c t) = Stopped c"
    by (auto simp: run_task_def simp del: run_loop.simps split: outcome.split prod.split)
  then show ?thesis by (simp add: sent_events_def task_conn_def)
qed

lemma sent_start: "sent_events (start_task connect now m t) = 0"
  by (auto simp: start_task_def sent_events_def task_conn_def new_silent split: outcome.splits
      dest: new_connection(4))

lemma sent_run_task:
  assumes "channel_ok s r t" "pt_phase t = Running c" "s = length (to_manager c)"
  shows "channel_ok s r (run_task e queue c t)"
  using assms sent_run [OF assms(2), of e queue] by (simp add: channel_ok_def run_task_def)

lemma sent_start_task:
  assumes "channel_ok s r t" "pt_phase t = Connecting"
  shows "channel_ok s r (start_task connect now m t)"
  using assms sent_start [of connect now m t]
  by (simp add: channel_ok_def start_task_def sent_events_def task_conn_def)

section \<open>The steps keep it, and refine the client\<close>

lemma set_swarm_simps [simp]:
  "bd_client (set_swarm sw b) = (bd_client b)\<lparr> cl_swarm := sw \<rparr>" "bd_sent (set_swarm sw b) = bd_sent b"
  "bd_received (set_swarm sw b) = bd_received b" "bd_pending (set_swarm sw b) = bd_pending b"
  by (simp_all add: set_swarm_def)

lemma bd_inv_running: "bd_inv sha1 d0 b \<Longrightarrow> bounded_running b = client_running (bd_client b)"
  by (simp add: bounded_running_def bd_inv_def)

lemma dm_inv_swarm:
  "dm_inv sha1 d0 (cl_dm c, dm_view c) \<Longrightarrow> dm_inv sha1 d0 (cl_dm c, dm_view (c\<lparr> cl_swarm := sw \<rparr>))"
  using dm_inv_world [of "dm_view (c\<lparr> cl_swarm := sw \<rparr>)" "dm_view c"] by (simp add: dm_view_def)

lemma bd_inv_task:
  assumes "bd_inv sha1 d0 b" "k < length (bd_tasks b)" "channel_ok (bd_sent b k) (bd_received b k) t"
  shows "bd_inv sha1 d0 (set_swarm ((cl_swarm (bd_client b))\<lparr> sw_tasks := (bd_tasks b)[k := t] \<rparr>) b)"
  using assms by (auto simp: bd_inv_def dm_inv_swarm nth_list_update)

lemma sent_forward [simp]: "sent_events (t\<lparr> pt_forwarded := n \<rparr>) = sent_events t"
  by (simp add: sent_events_def task_conn_def)

lemma bd_inv_forward:
  assumes "bd_inv sha1 d0 b" "k < length (bd_tasks b)" "task_conn (bd_tasks b ! k) = Some c"
    and "pt_forwarded (bd_tasks b ! k) < bd_received b k" "bd_queue b < event_capacity"
  shows "bd_inv sha1 d0 (set_swarm (forward k c (cl_swarm (bd_client b))) b)"
proof -
  have "channel_ok (bd_sent b k) (bd_received b k)
      ((bd_tasks b ! k)\<lparr> pt_forwarded := pt_forwarded (bd_tasks b ! k) + 1 \<rparr>)"
    using assms(1,2,4) by (auto simp: bd_inv_def channel_ok_def)
  with assms show ?thesis
    by (auto simp: bd_inv_def dm_inv_swarm nth_list_update forward_def Let_def)
qed

lemma bd_inv_take:
  assumes "bd_inv sha1 d0 b" "cl_taken (bd_client b) < length (sw_events (cl_swarm (bd_client b)))"
    and "turn sha1 x (cl_dm (bd_client b), dm_view (bd_client b)) = Some (dm, w)"
  shows "bd_inv sha1 d0 (b\<lparr> bd_client := (bd_client b)\<lparr> cl_dm := dm, cl_disk := dw_disk w,
      cl_taken := cl_taken (bd_client b) + 1 \<rparr>, bd_pending := dw_sent w \<rparr>) \<and> dw_sent w = []"
proof -
  let ?c = "(bd_client b)\<lparr> cl_dm := dm, cl_disk := dw_disk w, cl_taken := cl_taken (bd_client b) + 1 \<rparr>"
  from assms(1) have inv: "dm_inv sha1 d0 (cl_dm (bd_client b), dm_view (bd_client b))"
    "dm_peers (cl_dm (bd_client b)) = []" by (simp_all add: bd_inv_def)
  from turn_ok [OF inv(1) dm_view_flows, of x] assms(3) have "dm_inv sha1 d0 (dm, w)" by simp
  then have "dm_inv sha1 d0 (dm, dm_view ?c)"
    using dm_inv_world [of w "dm_view ?c"] by (simp add: dm_view_def)
  with turn_unregistered [OF assms(3) inv(2)] assms(1,2) show ?thesis
    by (auto simp: bd_inv_def dm_view_def)
qed

lemma bounded_match:
  assumes "bd_inv sha1 d0 b" "bounded_step sha1 connect b b'"
  shows "bd_inv sha1 d0 b' \<and> (client_step sha1 connect)\<^sup>*\<^sup>* (bd_client b) (bd_client b')"
proof -
  have ok: "channel_ok (bd_sent b k) (bd_received b k) (bd_tasks b ! k)" if "k < length (bd_tasks b)" for k
    using assms(1) that by (simp add: bd_inv_def)
  have conn: "client_step sha1 connect (bd_client b) ((bd_client b)\<lparr> cl_swarm := sw \<rparr>)"
    if "bounded_running b" "swarm_step connect (cl_swarm (bd_client b)) sw" for sw
    using that connections bd_inv_running [OF assms(1)] by blast
  from assms(2) show ?thesis
  proof cases
    case (start k sw now)
    with bd_inv_task [OF assms(1) start(3) sent_start_task [OF ok]]
      conn [OF start(2) swarm_step.start [OF start(3,4), of connect now]]
    show ?thesis by (simp add: r_into_rtranclp)
  next
    case (run k c sw e queue)
    with bd_inv_task [OF assms(1) run(3) sent_run_task [OF ok]]
      conn [OF run(2) swarm_step.run [OF run(3,4) run(7) [unfolded run(6)]]]
    show ?thesis by (simp add: r_into_rtranclp)
  next
    case (send k c)
    with ok [OF send(3)] assms(1) show ?thesis
      by (auto simp: bd_inv_def channel_ok_def sent_events_def)
  next
    case (receive k)
    with ok [OF receive(3)] assms(1) show ?thesis by (auto simp: bd_inv_def channel_ok_def)
  next
    case (forward k c)
    from forward(6) assms(1) have room: "bd_queue b < event_capacity" by (simp add: bd_inv_def)
    have "pt_forwarded (bd_tasks b ! k) < length (to_manager c)"
      using ok [OF forward(3)] forward(4,5) by (simp add: channel_ok_def sent_events_def)
    from conn [OF forward(2) swarm_step.forward_event [OF forward(3,4) this]]
      bd_inv_forward [OF assms(1) forward(3,4,5) room] forward(1) show ?thesis by (simp add: r_into_rtranclp)
  next
    case (take cl now dm w)
    note kept = bd_inv_take [OF assms(1) take(5,6) [unfolded take(4)]]
    have sent: "dw_sent w = []" using kept by (rule conjunct2)
    have "bd_inv sha1 d0 b'" unfolding take(1) take(4) using kept by (rule conjunct1)
    moreover have "client_step sha1 connect (bd_client b) (bd_client b')"
      using downloads [OF _ take(5,6), of connect] bd_inv_running [OF assms(1)] take(1,2,4) sent
      by (simp add: deliver_def)
    ultimately show ?thesis by blast
  next
    case (command k cmd rest)
    with assms(1) show ?thesis by (simp add: bd_inv_def)
  qed
qed

interpretation bounded: simulation "client_step sha1 connect" "bounded_step sha1 connect" "bd_inv sha1 d0" bd_client
  for sha1 connect d0
  by unfold_locales (rule bounded_match)

section \<open>No event is stuck\<close>

text \<open>All events that were sent have been handled, or the download is complete.\<close>

definition settled :: "bounded_client \<Rightarrow> bool" where
  "settled b \<longleftrightarrow> \<not> client_running (bd_client b) \<or>
     cl_taken (bd_client b) = length (sw_events (cl_swarm (bd_client b))) \<and>
     (\<forall>t \<in> set (bd_tasks b). pt_forwarded t = sent_events t)"

text \<open>The steps an event still has to make.\<close>

definition task_work :: "bounded_client \<Rightarrow> nat \<Rightarrow> nat" where
  "task_work b k = (sent_events (bd_tasks b ! k) - bd_sent b k) + (sent_events (bd_tasks b ! k) - bd_received b k) +
     2 * (sent_events (bd_tasks b ! k) - pt_forwarded (bd_tasks b ! k))"

definition channel_work :: "bounded_client \<Rightarrow> nat" where
  "channel_work b = (\<Sum>k < length (bd_tasks b). task_work b k) + bd_queue b"

definition connections_of :: "bounded_client \<Rightarrow> peer_connection option list" where
  "connections_of b = map task_conn (bd_tasks b)"

lemma work_less:
  assumes "length (bd_tasks b') = length (bd_tasks b)" "k < length (bd_tasks b)"
    and "\<And>j. j < length (bd_tasks b) \<Longrightarrow> j \<noteq> k \<Longrightarrow> task_work b' j = task_work b j"
    and "task_work b' k + bd_queue b' < task_work b k + bd_queue b"
  shows "channel_work b' < channel_work b"
proof -
  let ?K = "{..<length (bd_tasks b)}"
  have "(\<Sum>j \<in> ?K. task_work c j) = task_work c k + (\<Sum>j \<in> ?K - {k}. task_work c j)" for c
    using assms(2) by (simp add: sum.remove)
  moreover have "(\<Sum>j \<in> ?K - {k}. task_work b' j) = (\<Sum>j \<in> ?K - {k}. task_work b j)"
    using assms(3) by (intro sum.cong) auto
  ultimately show ?thesis using assms(1,4) by (simp add: channel_work_def)
qed

text \<open>One event of one task moves on.\<close>

lemma task_progress:
  assumes inv: "bd_inv sha1 d0 b" and running: "client_running (bd_client b)" and k: "k < length (bd_tasks b)"
    and left: "pt_forwarded (bd_tasks b ! k) < sent_events (bd_tasks b ! k)"
    and room: "bd_queue b < event_capacity"
  shows "\<exists>b'. bounded_step sha1 connect b b' \<and> connections_of b' = connections_of b \<and>
    channel_work b' < channel_work b"
proof -
  let ?t = "bd_tasks b ! k"
  from left obtain c where c: "task_conn ?t = Some c" "sent_events ?t = length (to_manager c)"
    by (cases "task_conn ?t") (simp_all add: sent_events_def)
  have ok: "channel_ok (bd_sent b k) (bd_received b k) ?t" using inv k by (simp add: bd_inv_def)
  have run: "bounded_running b" using running bd_inv_running [OF inv] by simp
  consider "pt_forwarded ?t < bd_received b k" | "bd_received b k = pt_forwarded ?t" "bd_received b k < bd_sent b k"
    | "bd_received b k = pt_forwarded ?t" "bd_received b k = bd_sent b k"
    using ok by (force simp: channel_ok_def)
  then show ?thesis
  proof cases
    case 1
    let ?b = "set_swarm (forward k c (cl_swarm (bd_client b))) b"
    from inv have recv: "sw_receiving (cl_swarm (bd_client b))"
      "cl_taken (bd_client b) \<le> length (sw_events (cl_swarm (bd_client b)))" by (simp_all add: bd_inv_def)
    have tasks: "bd_tasks ?b = (bd_tasks b)[k := ?t\<lparr> pt_forwarded := pt_forwarded ?t + 1 \<rparr>]"
      "bd_queue ?b = bd_queue b + 1"
      using recv by (simp_all add: forward_def Let_def)
    have "connections_of ?b = connections_of b"
      unfolding connections_of_def tasks map_update using k
      by (simp add: task_conn_def list_update_same_conv)
    moreover have "channel_work ?b < channel_work b"
      by (rule work_less [of _ _ k]) (use k left tasks in \<open>simp_all add: task_work_def\<close>)
    ultimately show ?thesis using forward [OF run k c(1) 1] room by blast
  next
    case 2
    let ?b = "b\<lparr> bd_received := (bd_received b)(k := bd_received b k + 1) \<rparr>"
    have "bd_received b k < sent_events ?t" using ok 2 by (simp add: channel_ok_def)
    then have "channel_work ?b < channel_work b"
      by (intro work_less [of _ _ k]) (use k in \<open>simp_all add: task_work_def\<close>)
    moreover have "connections_of ?b = connections_of b" by (simp add: connections_of_def)
    ultimately show ?thesis using receive [OF run k 2] by blast
  next
    case 3
    let ?b = "b\<lparr> bd_sent := (bd_sent b)(k := bd_sent b k + 1) \<rparr>"
    have sent: "bd_sent b k < length (to_manager c)" using left 3 c(2) by simp
    then have "channel_work ?b < channel_work b"
      by (intro work_less [of _ _ k]) (use k c(2) in \<open>simp_all add: task_work_def\<close>)
    moreover have "connections_of ?b = connections_of b" by (simp add: connections_of_def)
    ultimately show ?thesis using send [OF run k c(1) sent] 3 by (auto simp: channel_capacity_def)
  qed
qed

lemma take_progress:
  assumes inv: "bd_inv sha1 d0 b" and running: "client_running (bd_client b)"
    and left: "cl_taken (bd_client b) < length (sw_events (cl_swarm (bd_client b)))"
  shows "\<exists>b'. bounded_step sha1 connect b b' \<and> connections_of b' = connections_of b \<and>
    channel_work b' < channel_work b"
proof -
  let ?c = "bd_client b"
  from inv have "dm_inv sha1 d0 (cl_dm ?c, dm_view ?c)" "bd_pending b = []" by (simp_all add: bd_inv_def)
  from turn_ok [OF this(1) dm_view_flows, of "(0, Some (sw_events (cl_swarm ?c) ! cl_taken ?c))"] obtain dm w where
    t: "turn sha1 (0, Some (sw_events (cl_swarm ?c) ! cl_taken ?c)) (cl_dm ?c, dm_view ?c) = Some (dm, w)" by auto
  let ?b = "b\<lparr> bd_client := ?c\<lparr> cl_dm := dm, cl_disk := dw_disk w, cl_taken := cl_taken ?c + 1 \<rparr>,
      bd_pending := dw_sent w \<rparr>"
  have "bounded_step sha1 connect b ?b"
    using take [OF _ \<open>bd_pending b = []\<close> refl left t] running bd_inv_running [OF inv] by simp
  moreover have "channel_work ?b < channel_work b"
    using left by (simp add: channel_work_def task_work_def)
  ultimately show ?thesis by (auto simp: connections_of_def)
qed

lemma bounded_progress:
  assumes inv: "bd_inv sha1 d0 b" and "\<not> settled b"
  shows "\<exists>b'. bounded_step sha1 connect b b' \<and> bd_inv sha1 d0 b' \<and> connections_of b' = connections_of b \<and>
    channel_work b' < channel_work b"
proof -
  from assms(2) have running: "client_running (bd_client b)" by (simp add: settled_def)
  have "\<exists>b'. bounded_step sha1 connect b b' \<and> connections_of b' = connections_of b \<and> channel_work b' < channel_work b"
  proof (cases "cl_taken (bd_client b) < length (sw_events (cl_swarm (bd_client b)))")
    case True
    from take_progress [OF inv running True] show ?thesis .
  next
    case False
    moreover from inv False have "cl_taken (bd_client b) = length (sw_events (cl_swarm (bd_client b)))"
      by (simp add: bd_inv_def)
    ultimately obtain t where t: "t \<in> set (bd_tasks b)" "pt_forwarded t \<noteq> sent_events t"
      using assms(2) by (auto simp: settled_def)
    then obtain k where k: "k < length (bd_tasks b)" "t = bd_tasks b ! k" by (auto simp: in_set_conv_nth)
    then have "channel_ok (bd_sent b k) (bd_received b k) t" using inv by (simp add: bd_inv_def)
    with t(2) have "pt_forwarded t < sent_events t" by (simp add: channel_ok_def)
    with task_progress [OF inv running k(1)] k False show ?thesis by (simp add: event_capacity_def)
  qed
  with bounded_match [OF inv] show ?thesis by blast
qed

interpretation channels: draining "bounded_step sha1 connect" "bd_inv sha1 d0" settled connections_of channel_work
  for sha1 connect d0
  by unfold_locales (rule bounded_progress)

section \<open>Properties\<close>

lemma bd_inv_start:
  assumes "download_manager_new t bs = Some dm" "piece_count t \<le> 2 ^ 32"
    and "disk_io_new base details plen d0 = (d, Ok dio)"
  shows "bd_inv sha1 d (bounded_start (main_client pid t dio peers dm d))"
  using main_client_dm_inv [OF assms] main_client_quiet(2) [OF assms(1)]
  by (auto simp: bd_inv_def bounded_start_def main_client_def connect_peers_tasks channel_ok_def
      sent_events_def task_conn_def)

text \<open>
  C11: Bounded channels change nothing but the pace. Whatever the client does with its channels of 100
  and 1000 entries it could do with unbounded ones, so what holds of \<open>client_step\<close> holds of it;
  and however fast peers send, at most 103 events of a task and 1000 of the download channel are waiting.
\<close>

theorem bounded_channels_refine:
  assumes "download_manager_new t bs = Some dm" "piece_count t \<le> 2 ^ 32"
    and "disk_io_new base details plen d0 = (d, Ok dio)"
    and "(bounded_step sha1 connect)\<^sup>*\<^sup>* (bounded_start (main_client pid t dio peers dm d)) b"
  shows "(client_step sha1 connect)\<^sup>*\<^sup>* (main_client pid t dio peers dm d) (bd_client b) \<and>
    (\<forall>task \<in> set (bd_tasks b). sent_events task \<le> pt_forwarded task + 103) \<and> bd_queue b \<le> 1000"
proof -
  from bounded.steps_match [OF assms(4) bd_inv_start [OF assms(1-3)]]
  have inv: "bd_inv sha1 d b" and run: "(client_step sha1 connect)\<^sup>*\<^sup>* (main_client pid t dio peers dm d) (bd_client b)"
    by (simp_all add: bounded_start_def)
  have "sent_events task \<le> pt_forwarded task + 103" if "task \<in> set (bd_tasks b)" for task
    using inv that by (fastforce simp: bd_inv_def channel_ok_def channel_capacity_def in_set_conv_nth)
  with inv run show ?thesis by (simp add: bd_inv_def event_capacity_def)
qed

text \<open>
  C12: No event is stuck. In whatever state the bounded channels are, with connections waiting for room and
  channels full, the client can go on, with no connection reading or sending anything more, to a state in which every event that was
  sent has been handled or the download is complete. So the channels cannot deadlock: the download
  manager of \<open>main\<close> never waits for room in a task's command queue, because it sends no command.
\<close>

theorem no_event_is_stuck:
  assumes "download_manager_new t bs = Some dm" "piece_count t \<le> 2 ^ 32"
    and "disk_io_new base details plen d0 = (d, Ok dio)"
    and "(bounded_step sha1 connect)\<^sup>*\<^sup>* (bounded_start (main_client pid t dio peers dm d)) b"
  shows "\<exists>b'. (bounded_step sha1 connect)\<^sup>*\<^sup>* b b' \<and> settled b' \<and> connections_of b' = connections_of b"
  using channels.can_finish [OF bounded.inv_steps [OF assms(4) bd_inv_start [OF assms(1-3)]]] by blast

text \<open>A client of one peer with its task in a given phase and a number of events in the channel.\<close>

definition sample_bounded :: "client \<Rightarrow> task_phase \<Rightarrow> nat \<Rightarrow> bounded_client" where
  "sample_bounded cl ph n = \<lparr> bd_client = sample_at cl ph [], bd_sent = (\<lambda>_. 0)(0 := n), bd_received = (\<lambda>_. 0),
     bd_pending = [] \<rparr>"

lemma sample_bounded_simps [simp]:
  "bd_client (sample_bounded cl ph n) = sample_at cl ph []" "bd_sent (sample_bounded cl ph n) 0 = n"
  "bd_received (sample_bounded cl ph n) k = 0" "one_peer cl \<Longrightarrow> bounded_running (sample_bounded cl ph n)"
  by (simp_all add: sample_bounded_def bounded_running_def)

lemma sample_bounded_start: "one_peer cl \<Longrightarrow> bounded_start cl = sample_bounded cl Connecting 0"
  by (simp add: sample_bounded_def bounded_start_def sample_start fun_upd_def)

lemma sample_bounded_set:
  "set_swarm ((cl_swarm (sample_at cl ph []))\<lparr> sw_tasks := [sample_task ph' []] \<rparr>) (sample_bounded cl ph n) = sample_bounded cl ph' n"
  by (simp add: set_swarm_def sample_bounded_def sample_at_def)

lemma sample_task_simps [simp]:
  "pt_phase (sample_task ph es) = ph" "pt_commands (sample_task ph es) = []"
  by (simp_all add: sample_task_def)

lemma sample_step_start:
  assumes one: "one_peer cl" and "start_task (sample_answer body) 0 sample_peers (sample_task Connecting []) =
    sample_task (Running con) []"
  shows "bounded_step sha1 (sample_answer body) (sample_bounded cl Connecting 0) (sample_bounded cl (Running con) 0)"
proof -
  have "bounded_step sha1 (sample_answer body) (sample_bounded cl Connecting 0) (set_swarm
      ((cl_swarm (sample_at cl Connecting []))\<lparr> sw_tasks := [sample_task (Running con) []] \<rparr>) (sample_bounded cl Connecting 0))"
    using start [of "sample_bounded cl Connecting 0" 0 _ sha1 "sample_answer body" 0] assms by simp
  then show ?thesis by (simp only: sample_bounded_set)
qed

lemma sample_step_run:
  assumes one: "one_peer cl" and "run_task (FromPeer 0) [] con (sample_task (Running con) []) = sample_task (Running con') []"
    and "n = length (to_manager con)"
  shows "bounded_step sha1 connect (sample_bounded cl (Running con) n) (sample_bounded cl (Running con') n)"
proof -
  have "bounded_step sha1 connect (sample_bounded cl (Running con) n) (set_swarm
      ((cl_swarm (sample_at cl (Running con) []))\<lparr> sw_tasks := [sample_task (Running con') []] \<rparr>) (sample_bounded cl (Running con) n))"
    using run [of "sample_bounded cl (Running con) n" 0 con _ "FromPeer 0" "[]" sha1 connect] assms by simp
  then show ?thesis by (simp only: sample_bounded_set)
qed

lemma sample_step_send:
  assumes one: "one_peer cl" and "n < length (to_manager con)" "n < 100"
  shows "bounded_step sha1 connect (sample_bounded cl (Running con) n) (sample_bounded cl (Running con) (n + 1))"
proof -
  have "(sample_bounded cl (Running con) n)\<lparr> bd_sent := (bd_sent (sample_bounded cl (Running con) n))(0 := n + 1) \<rparr> =
      sample_bounded cl (Running con) (n + 1)" by (simp add: sample_bounded_def)
  with send [of "sample_bounded cl (Running con) n" 0 con sha1 connect] assms show ?thesis
    by (simp add: task_conn_def channel_capacity_def)
qed

lemma connections_sample: "connections_of (sample_bounded cl (Running con) n) = [Some con]"
  by (simp add: connections_of_def task_conn_def)

text \<open>The sample client after its peer has unchoked it: the event waits to be put into the channel.\<close>

lemma sample_waiting:
  assumes "read_message body = Ok (UnChoke, b0, [])"
  shows "\<exists>b con. (bounded_step sha1 (sample_answer body))\<^sup>*\<^sup>* (bounded_start sample_client) b \<and>
    connections_of b = [Some con] \<and> to_manager con = [PeerUnchoked] \<and> bd_sent b 0 = 0 \<and>
    sent_events (bd_tasks b ! 0) = 1 \<and> pt_forwarded (bd_tasks b ! 0) = 0"
proof -
  let ?step = "bounded_step sha1 (sample_answer body)"
  obtain con con' where con: "start_task (sample_answer body) 0 sample_peers (sample_task Connecting []) =
      sample_task (Running con) []"
    "run_task (FromPeer 0) [] con (sample_task (Running con) []) = sample_task (Running con') []"
    "to_manager con = []" "to_manager con' = [PeerUnchoked]" using sample_turns [OF assms] .
  from sample_step_start [OF sample_one_peer con(1), of sha1]
    sample_step_run [OF sample_one_peer con(2), of 0 sha1 "sample_answer body"] con(3)
  have "?step\<^sup>*\<^sup>* (sample_bounded sample_client Connecting 0) (sample_bounded sample_client (Running con') 0)"
    by (simp add: converse_rtranclp_into_rtranclp)
  then show ?thesis
    unfolding sample_bounded_start [OF sample_one_peer]
    by (intro exI [of _ "sample_bounded sample_client (Running con') 0"] exI [of _ con'])
      (simp add: con(4) connections_of_def sample_task_def task_conn_def sent_events_def)
qed

theorem bounded_channels_refine_witness:
  "\<exists>b. (client_step (\<lambda>_. []) (sample_answer (serialize (Have 1))))\<^sup>*\<^sup>* sample_client (bd_client b) \<and>
    bd_sent b 0 = 0 \<and> sent_events (bd_tasks b ! 0) = 1"
proof -
  have "read_message (serialize (Have 1)) = Ok (UnChoke, [4, 0, 0, 0, 1], [])" by code_simp
  from sample_waiting [OF this] obtain b where
    b: "(bounded_step (\<lambda>_. []) (sample_answer (serialize (Have 1))))\<^sup>*\<^sup>* (bounded_start sample_client) b"
    "bd_sent b 0 = 0" "sent_events (bd_tasks b ! 0) = 1" by blast
  from bounded_channels_refine [OF sample_dm_new _ sample_single_new b(1) [unfolded sample_client_def]] b
  show ?thesis by (auto simp: sample_count sample_client_def)
qed

theorem no_event_is_stuck_witness:
  "\<exists>b b' con. bd_sent b 0 = 0 \<and> to_manager con = [PeerUnchoked] \<and>
    (bounded_step (\<lambda>_. []) (sample_answer (serialize (Have 1))))\<^sup>*\<^sup>* b b' \<and> settled b' \<and> connections_of b' = [Some con]"
proof -
  have "read_message (serialize (Have 1)) = Ok (UnChoke, [4, 0, 0, 0, 1], [])" by code_simp
  from sample_waiting [OF this] obtain b con where
    b: "(bounded_step (\<lambda>_. []) (sample_answer (serialize (Have 1))))\<^sup>*\<^sup>* (bounded_start sample_client) b"
    "connections_of b = [Some con]" "to_manager con = [PeerUnchoked]" "bd_sent b 0 = 0" by blast
  from no_event_is_stuck [OF sample_dm_new _ sample_single_new b(1) [unfolded sample_client_def]]
  show ?thesis by (simp add: sample_count) (metis b(2-4))
qed

end
