(* ===== verification/Client_Complete.thy ===== *)
theory Client_Complete
  imports Bounded_Channels Swarm_Events
begin

text \<open>
  The invariants of the download, \<open>verified\<close> and \<open>progress\<close>, carried over to the running client: in any
  interleaving of the connections and the download manager a client that reports completion has
  verified pieces, it is complete exactly when every block has been handled, and with bounded channels it
  can always get there once every block has been sent.
\<close>

section \<open>Blocks are small\<close>

text \<open>A message is read into a buffer whose length is a \<open>u32\<close>, so no block has 4 GiB.\<close>

lemma read_small:
  assumes "read_message s = Ok (Piece i b x, buf', rest)"
  shows "length x < 2 ^ 32"
proof -
  let ?n = "unat (of_be (take 4 s) :: u32)"
  from assms have "deserialize (take ?n (drop 4 s)) = Ok (Piece i b x, buf')"
    by (auto simp: read_message_def Let_def split: if_splits)
  then have "x = drop 13 (take ?n (drop 4 s))" by (auto simp: deserialize_Ok_iff split: if_splits)
  moreover have "?n < 2 ^ 32" using unsigned_less [of "of_be (take 4 s) :: u32"] by simp
  ultimately show ?thesis by simp
qed

interpretation small: event_property small_event "\<lambda>_. True" "\<lambda>_. True"
proof unfold_locales
  fix c e c' fin
  assume ran: "run_loop [e] c = Ok (c', fin)"
  show "(fin \<or> True) \<and> (\<exists>es. to_manager c' = to_manager c @ es \<and> list_all small_event es)"
  proof (cases e)
    case (FromManager command k junk)
    with ran show ?thesis
      by (auto simp: Let_def cancel_read_def handle_manager_command_iff split: option.splits if_splits)
  next
    case (FromPeer now)
    with ran obtain m b st where read: "read_message (inbound c) = Ok (m, b, st)"
      and handled: "handle_message now m (c\<lparr> buf := b, inbound := st \<rparr>) = Ok c'" by auto
    have "length x < 2 ^ 32" if "m = Piece i g x" for i g x using read_small read that by blast
    with handled show ?thesis by (cases m) (auto simp: send_event_iff Let_def small_event_def)
  qed
qed simp

abbreviation swarm_small :: "swarm \<Rightarrow> bool" where
  "swarm_small \<equiv> swarm_all small_event (\<lambda>_. True)"

lemma deliver_small: "swarm_small sw \<Longrightarrow> swarm_small (deliver sent sw)"
proof (induction sent arbitrary: sw)
  case (Cons s sent)
  obtain k cmd where s: "s = (k, cmd)" by fastforce
  have "deliver (s # sent) sw = deliver sent (sw\<lparr> sw_tasks := enqueue k cmd (sw_tasks sw) \<rparr>)"
    by (simp add: deliver_def s)
  with Cons.IH [OF swarm_all_enqueue [OF Cons.prems]] show ?case by simp
qed (simp add: deliver_def)

lemma client_small:
  assumes "(client_step sha1 connect)\<^sup>*\<^sup>* c0 c" "swarm_small (cl_swarm c0)"
  shows "swarm_small (cl_swarm c)"
  using assms
proof (induction rule: rtranclp_induct)
  case (step c c')
  from step.hyps(2) show ?case
  proof cases
    case (connections sw)
    with small.step_all [OF connections(3)] step.IH step.prems show ?thesis by simp
  next
    case (downloads now dm w)
    with deliver_small step.IH step.prems show ?thesis by simp
  qed
qed

section \<open>A finished client is verified\<close>

text \<open>The download part of the client at its start.\<close>

lemma main_client_download:
  "(cl_dm (main_client pid t dio peers dm d0), dm_view (main_client pid t dio peers dm d0)) =
     (start_download dio [] dm, dm_view (main_client pid t dio peers dm d0))"
  "dw_disk (dm_view (main_client pid t dio peers dm d0)) = d0"
  "cl_taken (main_client pid t dio peers dm d0) = 0"
  "swarm_small (cl_swarm (main_client pid t dio peers dm d0))"
  "cl_swarm (main_client pid t dio peers dm d0) = connect_peers pid (t_info_hash t) None (take (min (length peers) 10) peers)"
  by (simp_all add: main_client_def dm_view_def start_download_def swarm_all_connect)

text \<open>The events the download manager has handled.\<close>

definition handled :: "client \<Rightarrow> (peer_event \<times> peer_ip) list" where
  "handled c = take (cl_taken c) (sw_events (cl_swarm c))"

lemma swarm_step_events:
  assumes "swarm_step connect sw sw'"
  shows "\<exists>es. sw_events sw' = sw_events sw @ es"
  using assms by cases (auto simp: forward_def Let_def)

lemma deliver_events [simp]: "sw_events (deliver sent sw) = sw_events sw"
  by (simp add: deliver_def)

lemma events_from_subset: "set (events_from ip es) \<subseteq> fst ` set es"
  by (auto simp: events_from_def)

text \<open>A step handles no event or the next one.\<close>

lemma client_step_handled:
  assumes "client_step sha1 connect c c'" "cl_taken c \<le> length (sw_events (cl_swarm c))"
  shows "(\<exists>es. handled c' = handled c @ es) \<and> cl_taken c' \<le> length (sw_events (cl_swarm c'))"
  using assms(1)
proof cases
  case (connections sw)
  with swarm_step_events [OF connections(3)] assms(2) show ?thesis by (auto simp: handled_def)
next
  case (downloads now dm w)
  then show ?thesis by (auto simp: handled_def take_Suc_conv_app_nth)
qed

lemma client_handled:
  assumes "(client_step sha1 connect)\<^sup>*\<^sup>* c0 c" "cl_taken c0 = 0"
  shows "cl_taken c \<le> length (sw_events (cl_swarm c))"
  using assms(1)
proof (induction rule: rtranclp_induct)
  case (step c c')
  from client_step_handled [OF step.hyps(2) step.IH] show ?case by blast
qed (simp add: assms(2))

lemma handled_small:
  assumes "(client_step sha1 connect)\<^sup>*\<^sup>* c0 c" "swarm_small (cl_swarm c0)" "(e, ip) \<in> set (handled c)"
  shows "small_event e"
proof -
  from assms(3) obtain k where "k < length (sw_events (cl_swarm c))" "sw_events (cl_swarm c) ! k = (e, ip)"
    by (auto simp: handled_def in_set_conv_nth dest: in_set_takeD)
  with swarm_all_event [OF client_small [OF assms(1,2)]] show ?thesis by blast
qed

context hash_writer
begin

lemma client_verified:
  assumes "(client_step sha1 connect)\<^sup>*\<^sup>* c0 c" "cl_taken c0 = 0" "verified (cl_dm c0, dm_view c0)"
    and "\<forall>(e, ip) \<in> set (handled c). known_event heard e"
  shows "verified (cl_dm c, dm_view c)"
  using assms
proof (induction rule: rtranclp_induct)
  case (step c c')
  note taken = client_handled [OF step.hyps(1) step.prems(1)]
  from client_step_handled [OF step.hyps(2) taken] have "set (handled c) \<subseteq> set (handled c')" by auto
  then have IH: "verified (cl_dm c, dm_view c)" using step.IH step.prems by blast
  from step.hyps(2) show ?case
  proof cases
    case (connections sw)
    with verified_frame [OF IH, of "(cl_dm c', dm_view c')"] show ?thesis by (simp add: dm_view_def)
  next
    case (downloads now dm w)
    then have "handled c' = handled c @ [sw_events (cl_swarm c) ! cl_taken c]"
      by (simp add: handled_def take_Suc_conv_app_nth)
    then have "known_event heard e" if "sw_events (cl_swarm c) ! cl_taken c = (e, ip)" for e ip
      using step.prems(3) that by auto
    with verified_turn [OF IH _ downloads(4)] have "verified (dm, w)" by simp
    with verified_frame [OF this, of "(cl_dm c', dm_view c')"] downloads(1) show ?thesis by (simp add: dm_view_def)
  qed
qed simp

lemma main_client_verified:
  assumes "download_manager_new t bs = Some dm" "piece_count t \<le> 2 ^ 32" "D disk"
    and "(client_step sha1 connect)\<^sup>*\<^sup>* (main_client pid t dio peers dm disk) c"
    and "\<And>i q x ip. (ReceivedPiece i q x, ip) \<in> set (handled c) \<Longrightarrow> heard i (ucast q) x"
  shows "verified (cl_dm c, dm_view c)"
proof -
  let ?first = "main_client pid t dio peers dm disk"
  from verified_start [OF assms(1,2), of "dm_view ?first" "[]"] assms(3)
  have start: "verified (cl_dm ?first, dm_view ?first)" by (simp only: main_client_download(1,2))
  have "\<forall>(e, ip) \<in> set (handled c). known_event heard e"
    using handled_small [OF assms(4) main_client_download(4)] assms(5)
    by (auto simp: known_event_def known_def small_event_def)
  from client_verified [OF assms(4) main_client_download(3) start this] show ?thesis .
qed

end

section \<open>When a client is finished\<close>

text \<open>The blocks of the content among the events handled.\<close>

definition blocks_handled :: "torrent \<Rightarrow> u32 \<Rightarrow> bytes \<Rightarrow> client \<Rightarrow> (nat \<times> nat) set" where
  "blocks_handled t bs d c = {(i, k). i < piece_count t \<and> k < block_count t bs \<and>
     block_event t bs d i k \<in> fst ` set (handled c)}"

context slice_writer
begin

lemma client_progress:
  assumes "(client_step sha1 connect)\<^sup>*\<^sup>* c0 c" "cl_taken c0 = 0"
    and "content_of sha1 t content" "piece_count t \<le> 2 ^ 32" "piece_fits (piece_length (t_info t)) bs"
    and "progress sha1 bs {} (cl_dm c0, dm_view c0)"
    and "\<forall>(e, ip) \<in> set (handled c). honest_event t bs content e"
  shows "progress sha1 bs (blocks_handled t bs content c) (cl_dm c, dm_view c) \<and>
    cl_taken c \<le> length (sw_events (cl_swarm c))"
  using assms
proof (induction rule: rtranclp_induct)
  case base
  then show ?case by (simp add: blocks_handled_def handled_def)
next
  case (step c c')
  from step.hyps(2) show ?case
  proof cases
    case (connections sw)
    from swarm_step_events [OF connections(3)] obtain es where "sw_events sw = sw_events (cl_swarm c) @ es" by blast
    moreover from this connections(1) have "set (handled c) \<subseteq> set (handled c')" by (simp add: handled_def)
    then have IH: "progress sha1 bs (blocks_handled t bs content c) (cl_dm c, dm_view c)"
      "cl_taken c \<le> length (sw_events (cl_swarm c))" using step.IH step.prems by blast+
    ultimately have "handled c' = handled c" using connections(1) by (simp add: handled_def)
    then have "blocks_handled t bs content c' = blocks_handled t bs content c" by (simp add: blocks_handled_def)
    with IH connections(1) progress_frame [OF IH(1), of "(cl_dm c', dm_view c')"]
      \<open>sw_events sw = sw_events (cl_swarm c) @ es\<close> show ?thesis by (simp add: dm_view_def)
  next
    case (downloads now dm w)
    let ?ev = "sw_events (cl_swarm c) ! cl_taken c"
    have handled: "handled c' = handled c @ [?ev]"
      using downloads(1,3) by (simp add: handled_def take_Suc_conv_app_nth)
    then have IH: "progress sha1 bs (blocks_handled t bs content c) (cl_dm c, dm_view c)"
      using step.IH step.prems by auto
    have "honest t bs content (now, Some ?ev)" using step.prems(6) handled by (auto simp: honest_def)
    from progress_turn [OF IH step.prems(2-4) this dm_view_flows] downloads(4)
    have "progress sha1 bs (blocks_handled t bs content c \<union> blocks_of t bs content [(now, Some ?ev)]) (dm, w)" by simp
    moreover have "blocks_handled t bs content c \<union> blocks_of t bs content [(now, Some ?ev)] = blocks_handled t bs content c'"
      by (cases ?ev) (auto simp: blocks_handled_def blocks_of_def handled)
    ultimately have "progress sha1 bs (blocks_handled t bs content c') (dm, w)" by simp
    from progress_frame [OF this, of "(cl_dm c', dm_view c')"] downloads(1,3) show ?thesis
      by (simp add: dm_view_def)
  qed
qed

lemma main_client_progress:
  assumes new: "download_manager_new t bs = Some dm" and count: "piece_count t \<le> 2 ^ 32" "0 < piece_count t"
    and right: "content_of sha1 t content" and disk: "D disk"
    and run: "(client_step sha1 connect)\<^sup>*\<^sup>* (main_client pid t dio peers dm disk) c"
    and honest: "\<forall>(e, ip) \<in> set (handled c). honest_event t bs content e"
  shows "progress sha1 bs (blocks_handled t bs content c) (cl_dm c, dm_view c)"
proof -
  let ?first = "main_client pid t dio peers dm disk"
  have fits: "piece_fits (piece_length (t_info t)) bs"
    using download_manager_new_piece_manager [OF new] piece_manager_new_iff [of t bs] count(2)
    by (auto simp: info_fits_def)
  from progress_start [OF new count(1) right, of "dm_view ?first" "[]"] disk
  have "progress sha1 bs {} (cl_dm ?first, dm_view ?first)" by (simp only: main_client_download(1,2))
  from client_progress [OF run main_client_download(3) right count(1) fits this honest] show ?thesis by blast
qed

lemma main_client_complete:
  assumes "download_manager_new t bs = Some dm" "piece_count t \<le> 2 ^ 32" "0 < piece_count t"
    and "content_of sha1 t content" "D disk"
    and "(client_step sha1 connect)\<^sup>*\<^sup>* (main_client pid t dio peers dm disk) c"
    and "\<forall>(e, ip) \<in> set (handled c). honest_event t bs content e"
  shows "snd (main_report c) \<longleftrightarrow>
    (\<forall>i < piece_count t. \<forall>k < block_count t bs. (i, k) \<in> blocks_handled t bs content c)"
  using progress_complete [OF main_client_progress [OF assms] assms(2)] by (simp add: main_report_def)

end

lemma client_complete_iff:
  assumes new: "download_manager_new t bs = Some dm" and count: "piece_count t \<le> 2 ^ 32" "0 < piece_count t"
    and right: "content_of sha1 t d"
    and opened: "disk_io_new base (info_files (t_info t)) (ucast (piece_length (t_info t))) d0 = (disk, Ok dio)"
    and run: "(client_step sha1 connect)\<^sup>*\<^sup>* (main_client pid t dio peers dm disk) c"
    and honest: "\<forall>(e, ip) \<in> set (handled c). honest_event t bs d e"
  shows "(snd (main_report c) \<longleftrightarrow> (\<forall>i < piece_count t. \<forall>k < block_count t bs.
      block_event t bs d i k \<in> fst ` set (handled c))) \<and>
    (snd (main_report c) \<and> single_whole t \<longrightarrow> torrent_image dio (cl_disk c) = d)"
proof -
  have "files_open dio" using disk_io_new_files [OF opened] by blast
  note iff = any.main_client_complete [OF new count right this run honest]
  have "torrent_image dio (cl_disk c) = d" if complete: "snd (main_report c)" and single: "single_whole t"
  proof -
    have L: "piece_length (t_info t) \<noteq> 0" using right by (simp add: content_of_def)
    have disk: "single_disk t dio disk \<and> length d = piece_count t * unat (piece_length (t_info t))"
      using single_disk_new [OF single count(2) L opened] content_length [OF right] by simp
    note prog = slices.main_client_progress [OF new count right disk run honest]
    then have "single_disk t dio (cl_disk c)" by (simp add: slices.progress_def dm_view_def)
    from single_image [OF this right] slices.progress_written [OF prog] iff complete show ?thesis
      by (simp add: dm_view_def)
  qed
  with iff show ?thesis by (auto simp: blocks_handled_def)
qed

section \<open>Once the blocks are sent\<close>

lemma event_sent:
  assumes "swarm_inv (cl_swarm (bd_client b))" "(e, ip) \<in> set (sw_events (cl_swarm (bd_client b)))"
  shows "\<exists>con. Some con \<in> set (connections_of b) \<and> e \<in> set (to_manager con)"
proof -
  let ?events = "sw_events (cl_swarm (bd_client b))"
  from assms obtain task where task: "task \<in> set (bd_tasks b)" "pt_ip task = ip" by (force simp: swarm_inv_def)
  have "e \<in> set (events_from ip ?events)" using assms(2) by (force simp: events_from_def)
  moreover have "task_relayed ?events task" using assms(1) task(1) by (simp add: swarm_inv_def)
  ultimately obtain con where "task_conn task = Some con" "e \<in> set (to_manager con)"
    using task(2) by (auto simp: task_relayed_def split: option.splits dest: in_set_takeD)
  with task(1) show ?thesis by (metis connections_of_def image_eqI set_map)
qed

lemma settled_event:
  assumes "swarm_inv (cl_swarm (bd_client b))" "settled b" "client_running (bd_client b)"
    and "Some con \<in> set (connections_of b)" "e \<in> set (to_manager con)"
  shows "e \<in> fst ` set (handled (bd_client b))"
proof -
  from assms(2,3) have taken: "handled (bd_client b) = sw_events (cl_swarm (bd_client b))"
    and forwarded: "\<forall>task \<in> set (bd_tasks b). pt_forwarded task = sent_events task"
    by (simp_all add: settled_def handled_def)
  from assms(4) obtain task where task: "task \<in> set (bd_tasks b)" "task_conn task = Some con"
    by (auto simp: connections_of_def)
  have "task_relayed (sw_events (cl_swarm (bd_client b))) task" using assms(1) task(1) by (simp add: swarm_inv_def)
  with task forwarded have all: "events_from (pt_ip task) (sw_events (cl_swarm (bd_client b))) = to_manager con"
    by (simp add: task_relayed_def sent_events_def)
  show ?thesis unfolding taken by (rule subsetD [OF events_from_subset assms(5) [folded all]])
qed

lemma sent_blocks_finish:
  assumes "download_manager_new t bs = Some dm"
    and "piece_count t \<le> 2 ^ 32" "0 < piece_count t" "content_of sha1 t d"
    and "disk_io_new base (info_files (t_info t)) (ucast (piece_length (t_info t))) d0 = (disk, Ok dio)"
    and "distinct peers"
    and "(bounded_step sha1 connect)\<^sup>*\<^sup>* (bounded_start (main_client pid t dio peers dm disk)) b"
    and "\<forall>con e. Some con \<in> set (connections_of b) \<and> e \<in> set (to_manager con) \<longrightarrow> honest_event t bs d e"
    and "\<forall>i < piece_count t. \<forall>k < block_count t bs.
      \<exists>con. Some con \<in> set (connections_of b) \<and> block_event t bs d i k \<in> set (to_manager con)"
  shows "\<exists>b'. (bounded_step sha1 connect)\<^sup>*\<^sup>* b b' \<and> connections_of b' = connections_of b \<and>
    (client_step sha1 connect)\<^sup>*\<^sup>* (main_client pid t dio peers dm disk) (bd_client b') \<and>
    (\<forall>(e, ip) \<in> set (handled (bd_client b')). honest_event t bs d e) \<and>
    snd (main_report (bd_client b')) \<and> (single_whole t \<longrightarrow> torrent_image dio (cl_disk (bd_client b')) = d)"
proof -
  let ?first = "main_client pid t dio peers dm disk"
  note start = bd_inv_start [OF assms(1,2,5), of sha1 pid peers]
  from channels.can_finish [OF bounded.inv_steps [OF assms(7) start]] obtain b' where
    more: "(bounded_step sha1 connect)\<^sup>*\<^sup>* b b'" and settled: "settled b'"
    and same: "connections_of b' = connections_of b" by blast
  let ?last = "bd_client b'"
  from assms(7) more have all: "(bounded_step sha1 connect)\<^sup>*\<^sup>* (bounded_start ?first) b'" by (rule rtranclp_trans)
  from bounded.steps_match [OF all start] have run: "(client_step sha1 connect)\<^sup>*\<^sup>* ?first ?last"
    by (simp add: bounded_start_def)
  have "swarm_inv (cl_swarm ?first)"
    unfolding main_client_download(5) by (rule swarm_inv_connect) (simp add: assms(6))
  from client_swarm_inv [OF run this] have inv: "swarm_inv (cl_swarm ?last)" by blast
  have honest: "\<forall>(e, ip) \<in> set (handled ?last). honest_event t bs d e"
  proof clarify
    fix e ip assume "(e, ip) \<in> set (handled ?last)"
    then have "(e, ip) \<in> set (sw_events (cl_swarm ?last))" unfolding handled_def by (rule in_set_takeD)
    from event_sent [OF inv this] show "honest_event t bs d e"
      unfolding same by (elim exE) (rule assms(8) [rule_format])
  qed
  note iff = client_complete_iff [OF assms(1-5) run honest]
  have "snd (main_report ?last)"
  proof (cases "client_running ?last")
    case False
    then show ?thesis by (simp add: client_running_def main_report_def)
  next
    case True
    note settled_event [OF inv settled this]
    then have "block_event t bs d i k \<in> fst ` set (handled ?last)" if "i < piece_count t" "k < block_count t bs" for i k
      using assms(9) that unfolding same by meson
    with iff show ?thesis by simp
  qed
  with iff more same run honest show ?thesis by blast
qed

section \<open>A run\<close>

text \<open>A client of one peer, which sends two blocks; the second has been read, and its events wait.\<close>

definition sample_frames :: "message \<Rightarrow> message \<Rightarrow> bytes" where
  "sample_frames m1 m2 = (be32 (len_u32 (serialize m1)) @ serialize m1) @ be32 (len_u32 (serialize m2)) @ serialize m2"

definition sample_wire :: bytes where
  "sample_wire = sample_frames (Piece 0 0 [1, 2]) (Piece 0 2 [3, 4])"

lemma sample_frames_read:
  assumes "wire_ok m1" "length (serialize m1) < 2 ^ 32" "wire_ok m2" "length (serialize m2) < 2 ^ 32"
  obtains b1 b2 rest where "read_message (sample_frames m1 m2) = Ok (m1, b1, rest)" "read_message rest = Ok (m2, b2, [])"
proof -
  from double_framed [OF assms(1,2)] double_framed [OF assms(3,4), of "[]"] that show thesis
    unfolding sample_frames_def append_assoc append_Nil2 by blast
qed

lemma sample_piece_read:
  assumes "read_message (inbound con) = Ok (Piece i g x, b0, rest)" "manager_open con"
  obtains con' r where
    "run_task (FromPeer 0) [] con (sample_task (Running con) []) = sample_task (Running con') []"
    "to_manager con' = to_manager con @ [ReceivedPiece i g x, DownloadRate r]" "inbound con' = rest" "manager_open con'"
proof -
  from assms(2) obtain con' r where "handle_message 0 (Piece i g x) (con\<lparr> buf := b0, inbound := rest \<rparr>) = Ok con'"
    "to_manager con' = to_manager con @ [ReceivedPiece i g x, DownloadRate r]" "inbound con' = rest" "manager_open con'"
    by (simp add: send_event_def Let_def)
  with sample_turn [OF assms(1) this(1)] that show thesis by blast
qed

lemma sample_two_sent:
  assumes one: "one_peer cl" and ok: "wire_ok (Piece i g x)" "length (serialize (Piece i g x)) < 2 ^ 32"
    "wire_ok (Piece j h y)" "length (serialize (Piece j h y)) < 2 ^ 32"
    and wire: "wire = sample_frames (Piece i g x) (Piece j h y)"
  obtains con r1 r2 where
    "(bounded_step sha1 (sample_answer wire))\<^sup>*\<^sup>* (bounded_start cl) (sample_bounded cl (Running con) 2)"
    "to_manager con = [ReceivedPiece i g x, DownloadRate r1, ReceivedPiece j h y, DownloadRate r2]"
proof -
  let ?step = "bounded_step sha1 (sample_answer wire)"
  obtain b1 b2 rest where read: "read_message wire = Ok (Piece i g x, b1, rest)"
    "read_message rest = Ok (Piece j h y, b2, [])" unfolding wire by (rule sample_frames_read [OF ok])
  obtain con where con: "start_task (sample_answer wire) 0 sample_peers
      (sample_task Connecting []) = sample_task (Running con) []"
    "inbound con = wire" "to_manager con = []" "manager_open con" using sample_connected .
  obtain con1 r1 where first: "run_task (FromPeer 0) [] con (sample_task (Running con) []) = sample_task (Running con1) []"
    "to_manager con1 = [ReceivedPiece i g x, DownloadRate r1]" "inbound con1 = rest" "manager_open con1"
    using sample_piece_read [OF _ con(4), unfolded con(2,3), OF read(1)] by (metis append_Nil)
  obtain con2 r2 where second: "run_task (FromPeer 0) [] con1 (sample_task (Running con1) []) = sample_task (Running con2) []"
    "to_manager con2 = [ReceivedPiece i g x, DownloadRate r1, ReceivedPiece j h y, DownloadRate r2]"
    using sample_piece_read [OF _ first(4), unfolded first(2,3), OF read(2)]
    by (metis append_Cons append_Nil)
  have "?step (sample_bounded cl Connecting 0) (sample_bounded cl (Running con) 0)" by (rule sample_step_start [OF one con(1)])
  moreover have "?step (sample_bounded cl (Running con) 0) (sample_bounded cl (Running con1) 0)"
    by (rule sample_step_run [OF one first(1)]) (simp add: con(3))
  moreover have "?step (sample_bounded cl (Running con1) 0) (sample_bounded cl (Running con1) 1)"
    using sample_step_send [OF one, of 0 con1] first(2) by simp
  moreover have "?step (sample_bounded cl (Running con1) 1) (sample_bounded cl (Running con1) 2)"
    using sample_step_send [OF one, of 1 con1] first(2) by (simp add: numeral_2_eq_2)
  moreover have "?step (sample_bounded cl (Running con1) 2) (sample_bounded cl (Running con2) 2)"
    by (rule sample_step_run [OF one second(1)]) (simp add: first(2))
  ultimately have "?step\<^sup>*\<^sup>* (bounded_start cl) (sample_bounded cl (Running con2) 2)"
    unfolding sample_bounded_start [OF one] by (meson rtranclp.rtrancl_into_rtrancl rtranclp.rtrancl_refl)
  with second(2) that show thesis by blast
qed

lemma sample_sent:
  obtains con r1 r2 where
    "(bounded_step sha1 (sample_answer sample_wire))\<^sup>*\<^sup>* (bounded_start sample_client) (sample_bounded sample_client (Running con) 2)"
    "to_manager con = [ReceivedPiece 0 0 [1, 2], DownloadRate r1, ReceivedPiece 0 2 [3, 4], DownloadRate r2]"
  by (rule sample_two_sent [OF sample_one_peer _ _ _ _ sample_wire_def]) (simp_all add: serialize_def)

lemma sample_all_sent:
  assumes "to_manager con = [ReceivedPiece 0 0 [1, 2], DownloadRate r1, ReceivedPiece 0 2 [3, 4], DownloadRate r2]"
  shows "\<forall>con' e. Some con' \<in> set (connections_of (sample_bounded cl (Running con) 2)) \<and> e \<in> set (to_manager con') \<longrightarrow>
      honest_event sample_torrent 2 [1, 2, 3, 4] e"
    and "\<forall>i < piece_count sample_torrent. \<forall>k < block_count sample_torrent 2.
      \<exists>con'. Some con' \<in> set (connections_of (sample_bounded cl (Running con) 2)) \<and>
        block_event sample_torrent 2 [1, 2, 3, 4] i k \<in> set (to_manager con')"
  using sample_blocks by (auto simp: connections_sample assms honest_event_def sample_count below_two)

lemma sample_finished:
  assumes "content_of sha1 sample_torrent [1, 2, 3, 4]"
  obtains c where
    "(client_step sha1 (sample_answer sample_wire))\<^sup>*\<^sup>* (main_client (replicate 20 2) sample_torrent sample_single
      [sample_ip] sample_dm (dw_disk sample_dm_world)) c"
    "\<forall>(e, ip) \<in> set (handled c). honest_event sample_torrent 2 [1, 2, 3, 4] e" "snd (main_report c)"
    "torrent_image sample_single (cl_disk c) = [1, 2, 3, 4]"
proof -
  obtain con r1 r2 where
    run: "(bounded_step sha1 (sample_answer sample_wire))\<^sup>*\<^sup>* (bounded_start sample_client) (sample_bounded sample_client (Running con) 2)"
    and sent: "to_manager con = [ReceivedPiece 0 0 [1, 2], DownloadRate r1, ReceivedPiece 0 2 [3, 4], DownloadRate r2]"
    using sample_sent .
  have "distinct [sample_ip]" by simp
  note finish = sent_blocks_finish [OF sample_dm_new sample_few sample_facts(2) assms sample_facts(4) this run [unfolded sample_client_def]]
  from finish [OF sample_all_sent [OF sent]] sample_facts(1) that show thesis by (elim exE conjE) simp
qed

section \<open>Properties\<close>

text \<open>
  C3: A client that says it is done is verified. For a single-file torrent of whole pieces below 4 GiB:
  whatever the peers send and however the connections and the download manager are interleaved, if
  the client reports that all pieces were downloaded, every piece of the file on disk has the hash
  the torrent names. That blocks are small is no assumption here: it follows from how messages are read.
\<close>

theorem finished_client_is_verified:
  assumes "download_manager_new t bs = Some dm"
    and "single_whole t" "0 < piece_count t" "piece_length (t_info t) \<noteq> 0"
    and "disk_io_new base (info_files (t_info t)) (ucast (piece_length (t_info t))) d0 = (disk, Ok dio)"
    and "(client_step sha1 connect)\<^sup>*\<^sup>* (main_client pid t dio peers dm disk) c"
    and "snd (main_report c)" "i < piece_count t"
  shows "piece_hash (t_info t) i = Some (sha1 (image_slice t dio (cl_disk c) i))"
proof -
  from hashes.main_client_verified [OF assms(1) single_whole_count [OF assms(2,4)] single_disk_new [OF assms(2-5)] assms(6) TrueI]
  have "hashes.verified t dio sha1 bs (cl_dm c, dm_view c)" .
  from hashes.verified_complete [OF this single_whole_count [OF assms(2,4)] _ assms(8)] assms(7) show ?thesis
    by (simp add: main_report_def dm_view_def on_disk_def)
qed

text \<open>
  C5: When the client is done. For a torrent of whole pieces, in whatever files: if the blocks it has handled
  are blocks of the content, it reports completion exactly when it has handled every one of them, from
  whichever peers and in whatever order. A single file below 4 GiB is then the content.
\<close>

theorem client_done_iff_all_blocks:
  assumes "download_manager_new t bs = Some dm"
    and "piece_count t \<le> 2 ^ 32" "0 < piece_count t" "content_of sha1 t d"
    and "disk_io_new base (info_files (t_info t)) (ucast (piece_length (t_info t))) d0 = (disk, Ok dio)"
    and "(client_step sha1 connect)\<^sup>*\<^sup>* (main_client pid t dio peers dm disk) c"
    and "\<forall>(e, ip) \<in> set (handled c). honest_event t bs d e"
  shows "(snd (main_report c) \<longleftrightarrow> (\<forall>i < piece_count t. \<forall>k < block_count t bs.
      block_event t bs d i k \<in> fst ` set (handled c))) \<and>
    (snd (main_report c) \<and> single_whole t \<longrightarrow> torrent_image dio (cl_disk c) = d)"
  using assms by (rule client_complete_iff)

text \<open>
  C4: Once the blocks are sent the download can finish. With bounded channels, at any point of a run:
  if the connections have between them sent every block of the content, and no other block,
  then, however full the channels are, the client can go on without reading anything more from a
  peer until it reports completion. A torrent of whole pieces may be in any files; a single one below 4 GiB is
  then the content.
\<close>

theorem sent_blocks_complete_download:
  assumes "download_manager_new t bs = Some dm"
    and "piece_count t \<le> 2 ^ 32" "0 < piece_count t" "content_of sha1 t d"
    and "disk_io_new base (info_files (t_info t)) (ucast (piece_length (t_info t))) d0 = (disk, Ok dio)"
    and "distinct peers"
    and "(bounded_step sha1 connect)\<^sup>*\<^sup>* (bounded_start (main_client pid t dio peers dm disk)) b"
    and "\<forall>con e. Some con \<in> set (connections_of b) \<and> e \<in> set (to_manager con) \<longrightarrow> honest_event t bs d e"
    and "\<forall>i < piece_count t. \<forall>k < block_count t bs.
      \<exists>con. Some con \<in> set (connections_of b) \<and> block_event t bs d i k \<in> set (to_manager con)"
  shows "\<exists>b'. (bounded_step sha1 connect)\<^sup>*\<^sup>* b b' \<and> connections_of b' = connections_of b \<and>
    snd (main_report (bd_client b')) \<and> (single_whole t \<longrightarrow> torrent_image dio (cl_disk (bd_client b')) = d)"
  using sent_blocks_finish [OF assms] by blast

text \<open>The sample client, sent both blocks, at the end of its run.\<close>

theorem finished_client_is_verified_witness:
  "\<exists>c. snd (main_report c) \<and> (client_step sample_sha1 (sample_answer sample_wire))\<^sup>*\<^sup>* sample_client c \<and>
    sample_sha1 (image_slice sample_torrent sample_single (cl_disk c) 0) = replicate 20 7"
proof -
  obtain c where c: "(client_step sample_sha1 (sample_answer sample_wire))\<^sup>*\<^sup>* (main_client (replicate 20 2) sample_torrent
      sample_single [sample_ip] sample_dm (dw_disk sample_dm_world)) c" "snd (main_report c)" using sample_finished [OF sample_facts(3)] .
  have L: "piece_length (t_info sample_torrent) \<noteq> 0" by (simp add: sample_torrent_def)
  from finished_client_is_verified [OF sample_dm_new sample_facts(1,2) L sample_facts(4) c sample_facts(2)] c
  show ?thesis by (auto simp: sample_hash sample_client_def)
qed

theorem client_done_iff_all_blocks_witness:
  "\<exists>c. snd (main_report c) \<and> torrent_image sample_single (cl_disk c) = [1, 2, 3, 4] \<and>
    ReceivedPiece 0 0 [1, 2] \<in> fst ` set (handled c) \<and> ReceivedPiece 0 2 [3, 4] \<in> fst ` set (handled c)"
proof -
  obtain c where c: "(client_step sample_sha1 (sample_answer sample_wire))\<^sup>*\<^sup>* (main_client (replicate 20 2) sample_torrent
      sample_single [sample_ip] sample_dm (dw_disk sample_dm_world)) c"
    "\<forall>(e, ip) \<in> set (handled c). honest_event sample_torrent 2 [1, 2, 3, 4] e" "snd (main_report c)"
    using sample_finished [OF sample_facts(3)] .
  from client_done_iff_all_blocks [OF sample_dm_new sample_few sample_facts(2-4) c(1,2)] c(3)
  have "\<forall>k < 2. block_event sample_torrent 2 [1, 2, 3, 4] 0 k \<in> fst ` set (handled c)"
    "torrent_image sample_single (cl_disk c) = [1, 2, 3, 4]" by (simp_all add: sample_count sample_blocks sample_facts(1))
  moreover from this(1) have "block_event sample_torrent 2 [1, 2, 3, 4] 0 0 \<in> fst ` set (handled c)"
    "block_event sample_torrent 2 [1, 2, 3, 4] 0 1 \<in> fst ` set (handled c)" by simp_all
  ultimately show ?thesis using c(3) unfolding sample_blocks by blast
qed

theorem sent_blocks_complete_download_witness:
  "\<exists>b b'. (bounded_step sample_sha1 (sample_answer sample_wire))\<^sup>*\<^sup>* (bounded_start sample_client) b \<and>
    (bounded_step sample_sha1 (sample_answer sample_wire))\<^sup>*\<^sup>* b b' \<and> snd (main_report (bd_client b')) \<and>
    torrent_image sample_single (cl_disk (bd_client b')) = [1, 2, 3, 4]"
proof -
  obtain con r1 r2 where
    run: "(bounded_step sample_sha1 (sample_answer sample_wire))\<^sup>*\<^sup>* (bounded_start sample_client) (sample_bounded sample_client (Running con) 2)"
    and sent: "to_manager con = [ReceivedPiece 0 0 [1, 2], DownloadRate r1, ReceivedPiece 0 2 [3, 4], DownloadRate r2]"
    using sample_sent .
  have "distinct [sample_ip]" by simp
  note finish = sent_blocks_complete_download [OF sample_dm_new sample_few sample_facts(2-4) this run [unfolded sample_client_def]]
  from finish [OF sample_all_sent [OF sent], folded sample_client_def] obtain b' where
    "(bounded_step sample_sha1 (sample_answer sample_wire))\<^sup>*\<^sup>* (sample_bounded sample_client (Running con) 2) b'"
    "snd (main_report (bd_client b'))" "torrent_image sample_single (cl_disk (bd_client b')) = [1, 2, 3, 4]"
    using sample_facts(1) by (elim exE conjE) simp
  with run show ?thesis by blast
qed

end
