(* ===== verification/Disk_Multi.thy ===== *)
theory Disk_Multi
  imports Disk_Layout
begin

text \<open>
  What the writer of \<open>src/core/disk_io.rs\<close> gets right for a torrent of several files. It seeks every file to
  the piece's offset in the torrent, which is the right place in the first file, and, for the
  piece at offset zero, in every file. For those pieces the storage keeps its promises.
\<close>

section \<open>The piece at offset zero\<close>

lemma pwrite_front: "length data \<le> length c \<Longrightarrow> pwrite 0 data c = data @ drop (length data) c"
  by (simp add: pwrite_def)

text \<open>One turn of the loop over the files, when it writes at offset zero.\<close>

lemma write_spans_turn:
  assumes "length (dio_files dio) = length entries" "k < length entries" "n \<noteq> 0" "off + n = length data"
    and c: "c = d_content d (dio_files dio ! k)" "length c = unat (fe_length (entries ! k))"
    and l: "l = min n (length c)"
  shows "write_spans dio entries 0 data n off k 0 d = write_spans dio entries 0 data (n - l) (off + l) (k + 1) 0
    (set_content (dio_files dio ! k) (take l (drop off data) @ drop l c) d)"
proof -
  have "l \<le> n" "length (take l (drop off data)) = l" using assms(4) l by simp_all
  moreover have "file_write (dio_files dio ! k) 0 (take l (drop off data)) d =
      (set_content (dio_files dio ! k) (take l (drop off data) @ drop l c) d, Ok ())"
    using assms(4) l by (simp add: file_write_def pwrite_front flip: c(1))
  moreover have "min n (unat (fe_length (entries ! k))) = l" by (simp add: l flip: c(2))
  ultimately show ?thesis using assms(1-4) by (subst write_spans.simps) simp
qed

lemma front_written:
  assumes "off + n = length data" "l = min n (length c)"
  shows "take l (drop off data) @ drop l c @ drop (off + l) data @ drop (n - l) r = drop off data @ drop n (c @ r)"
proof (cases "n \<le> length c")
  case False
  have "take l (drop off data) @ drop (off + l) data = drop off data"
    using append_take_drop_id [of l "drop off data"] by (simp add: add.commute)
  with False assms(2) show ?thesis by (simp flip: append_assoc)
qed (use assms in simp)

text \<open>The whole loop, from the front of file \<open>k\<close>.\<close>

lemma write_spans_front:
  assumes "length (dio_files dio) = length entries" "distinct (dio_files dio)"
    and "\<And>j. j < length entries \<Longrightarrow> length (d_content d (dio_files dio ! j)) = unat (fe_length (entries ! j))"
    and "off + n = length data" "n \<le> length (concat (map (d_content d) (drop k (dio_files dio))))"
  shows "\<exists>d'. write_spans dio entries 0 data n off k 0 d = (d', Ok ()) \<and>
    (\<forall>ino. ino \<notin> set (drop k (dio_files dio)) \<longrightarrow> d_content d' ino = d_content d ino) \<and>
    (\<forall>ino. length (d_content d' ino) = length (d_content d ino)) \<and>
    concat (map (d_content d') (drop k (dio_files dio))) =
      drop off data @ drop n (concat (map (d_content d) (drop k (dio_files dio))))"
  using assms(3-5)
proof (induction "length entries - k" arbitrary: n off k d)
  case 0
  then show ?case using assms(1) by (subst write_spans.simps) simp
next
  case (Suc m)
  then have k: "k < length entries" by simp
  show ?case
  proof (cases "n = 0")
    case True
    then show ?thesis using Suc.prems(2) by (subst write_spans.simps) simp
  next
    case False
    let ?ino = "dio_files dio ! k" and ?rest = "drop (Suc k) (dio_files dio)"
    let ?c = "d_content d ?ino"
    let ?l = "min n (length ?c)"
    let ?d = "set_content ?ino (take ?l (drop off data) @ drop ?l ?c) d"
    have drop_k: "drop k (dio_files dio) = ?ino # ?rest"
      using k assms(1) by (simp add: Cons_nth_drop_Suc)
    have fresh: "?ino \<notin> set ?rest"
      using assms(2) by (metis drop_k distinct_drop distinct.simps(2))
    note turn = write_spans_turn [OF assms(1) k False Suc.prems(2) refl Suc.prems(1) [OF k] refl]
    have same: "map (d_content ?d) ?rest = map (d_content d) ?rest" using fresh by auto
    have len: "length (d_content ?d ino) = length (d_content d ino)" for ino using Suc.prems(2) by simp
    have "n - ?l \<le> length (concat (map (d_content ?d) (drop (k + 1) (dio_files dio))))"
      using Suc.prems(3) unfolding Suc_eq_plus1 [symmetric] same by (simp add: drop_k)
    moreover have "m = length entries - (k + 1)" using Suc.hyps(2) by arith
    ultimately obtain d' where
      d': "write_spans dio entries 0 data (n - ?l) (off + ?l) (k + 1) 0 ?d = (d', Ok ())"
      "\<forall>ino. ino \<notin> set ?rest \<longrightarrow> d_content d' ino = d_content ?d ino"
      "\<forall>ino. length (d_content d' ino) = length (d_content ?d ino)"
      "concat (map (d_content d') ?rest) = drop (off + ?l) data @ drop (n - ?l) (concat (map (d_content ?d) ?rest))"
      using Suc.hyps(1) [of "k + 1" ?d "off + ?l" "n - ?l"] Suc.prems(1,2) len by auto
    have "d_content d' ?ino = take ?l (drop off data) @ drop ?l ?c" using d'(2) fresh by simp
    with d'(4) front_written [OF Suc.prems(2) refl, of ?c "concat (map (d_content d) ?rest)"]
    have "concat (map (d_content d') (drop k (dio_files dio))) =
        drop off data @ drop n (concat (map (d_content d) (drop k (dio_files dio))))"
      unfolding same by (simp add: drop_k)
    with turn d'(1-3) len fresh show ?thesis by (intro exI [of _ d']) (auto simp: drop_k)
  qed
qed

section \<open>The pieces of the first file\<close>

lemma distinct_update:
  assumes "distinct xs" "k < length xs"
  shows "map (f(xs ! k := y)) xs = (map f xs)[k := y]"
  using assms by (intro nth_equalityI) (auto simp: nth_list_update nth_eq_iff_index_eq)

definition head_piece :: "disk_io \<Rightarrow> u32 \<Rightarrow> bool" where
  "head_piece dio i \<longleftrightarrow> (\<exists>f fs. dio_file_details dio = MultiFile (f # fs) \<and>
     (piece_start dio i = 0 \<or> piece_start dio i + piece_extent dio i \<le> unat (fe_length f)))"

text \<open>A seek to offset zero finds the first file that is not empty.\<close>

lemma seek_zero:
  assumes "seek_file entries 0 cur k = (cur', k')" "cur = 0"
  shows "cur' = 0 \<and> k \<le> k' \<and> k' \<le> k + length entries \<and> (\<forall>j < k' - k. fe_length (entries ! j) = 0)"
  using assms
proof (induction entries "0 :: u64" cur k rule: seek_file.induct)
  case (2 f fs cur k)
  show ?case
  proof (cases "0 < fe_length f")
    case False
    then have "fe_length f = 0" by (simp add: word_less_nat_alt unsigned_word_eqI)
    with 2 have "cur' = 0 \<and> k + 1 \<le> k' \<and> k' \<le> k + 1 + length fs \<and> (\<forall>j < k' - (k + 1). fe_length (fs ! j) = 0)"
      by simp
    with \<open>fe_length f = 0\<close> show ?thesis by (auto simp: nth_Cons split: nat.splits)
  qed (use 2 in simp)
qed simp

lemma write_piece_front:
  assumes wf: "disk_wf dio d" and dist: "distinct (dio_files dio)" and range: "in_range dio i"
    and multi: "dio_file_details dio = MultiFile entries" and zero: "piece_start dio i = 0"
    and len: "length data = piece_extent dio i"
  shows "\<exists>d'. write_piece dio i data d = (d', Ok ()) \<and> disk_wf dio d' \<and>
    torrent_image dio d' = splice (torrent_image dio d) 0 data"
proof -
  have pos: "ucast (i * dio_piece_length dio) = (0 :: u64)"
    using in_range_start [OF range] zero by (intro word_unat_eq_iff [THEN iffD2]) simp
  have below: "\<not> dio_total_size dio \<le> 0" using range zero by (auto simp: in_range_def)
  obtain cur k where seek: "seek_file entries 0 0 0 = (cur, k)" by fastforce
  from seek_zero [OF this refl] have cur: "cur = 0" and k: "k \<le> length entries"
    and empty: "\<And>j. j < k \<Longrightarrow> fe_length (entries ! j) = 0" by auto
  note files = multi_nth [OF wf multi]
  have front: "concat (map (d_content d) (take k (dio_files dio))) = []"
  proof -
    have "d_content d (dio_files dio ! j) = []" if "j < k" for j
      using files(2) [of j] empty [OF that] that k by simp
    then show ?thesis by (auto simp: in_set_conv_nth)
  qed
  have split: "torrent_image dio e = concat (map (d_content e) (take k (dio_files dio))) @
      concat (map (d_content e) (drop k (dio_files dio)))" for e
    by (simp add: torrent_image_def flip: concat_append map_append)
  have fits: "length data \<le> length (torrent_image dio d)"
    using in_range_fits [OF range] length_image [OF wf] len by simp
  then have less: "k < length entries"
  proof (rule_tac ccontr)
    assume "\<not> k < length entries"
    with front split [of d] k files(1) have "length (torrent_image dio d) = 0" by simp
    with length_image [OF wf] below show False by (simp add: word_le_nat_alt)
  qed
  from write_spans_front [OF files(1) dist conjunct1 [OF files(2)], of 0 "length data" data k] fits front split [of d]
  obtain d' where d': "write_spans dio entries 0 data (length data) 0 k 0 d = (d', Ok ())"
    "\<forall>ino. ino \<notin> set (drop k (dio_files dio)) \<longrightarrow> d_content d' ino = d_content d ino"
    "\<forall>ino. length (d_content d' ino) = length (d_content d ino)"
    "concat (map (d_content d') (drop k (dio_files dio))) =
      data @ drop (length data) (concat (map (d_content d) (drop k (dio_files dio))))" by auto
  have front': "concat (map (d_content d') (take k (dio_files dio))) = []"
    using front d'(3) by simp (metis length_0_conv)
  have "torrent_image dio d' = splice (torrent_image dio d) 0 data"
    unfolding split front front' d'(4) by (simp add: splice_def)
  moreover have "disk_wf dio d'" using wf d'(3) by (simp add: disk_wf_def)
  moreover have "write_piece dio i data d = (d', Ok ())"
    using d'(1) less below seek cur pos by (simp add: write_piece_def Let_def multi write_multi_file_piece_def)
  ultimately show ?thesis by blast
qed

lemma write_piece_head:
  assumes wf: "disk_wf dio d" and dist: "distinct (dio_files dio)" and valid: "piece_valid dio i data"
    and head: "head_piece dio i"
  shows "\<exists>d'. write_piece dio i data d = (d', Ok ()) \<and> disk_wf dio d' \<and>
    torrent_image dio d' = splice (torrent_image dio d) (piece_start dio i) data"
proof -
  from valid have range: "in_range dio i" and len: "length data = piece_extent dio i"
    by (simp_all add: piece_valid_def)
  from head obtain f fs where multi: "dio_file_details dio = MultiFile (f # fs)"
    and at: "piece_start dio i = 0 \<or> piece_start dio i + piece_extent dio i \<le> unat (fe_length f)"
    by (auto simp: head_piece_def)
  show ?thesis
  proof (cases "piece_start dio i = 0")
    case True
    with write_piece_front [OF wf dist range multi True len] show ?thesis by simp
  next
    case False
    then have inside: "piece_start dio i + length data \<le> unat (fe_length f)" using at len by simp
    have "data \<noteq> []"
      using False range len by (auto simp: in_range_def piece_extent_def piece_start_def)
    note files = multi_nth [OF wf multi]
    obtain ino inos where inos: "dio_files dio = ino # inos" using files(1) by (cases "dio_files dio") auto
    have c: "length (d_content d ino) = unat (fe_length f)" using files(2) [of 0] inos by simp
    let ?d = "set_content ino (splice (d_content d ino) (piece_start dio i) data) d"
    have "write_piece dio i data d = (?d, Ok ())"
      using write_piece_multi [OF wf range _ len \<open>data \<noteq> []\<close>, of "[]" f fs ino] multi inside inos c
      by (simp add: pwrite_inside)
    moreover have "map (d_content ?d) inos = map (d_content d) inos"
      using dist inos by auto
    then have rest: "concat (map (d_content ?d) inos) = concat (map (d_content d) inos)" by (rule arg_cong)
    have "torrent_image dio ?d = splice (torrent_image dio d) (piece_start dio i) data"
      using inside c unfolding torrent_image_def inos list.map concat.simps rest by (simp add: splice_def)
    moreover have "length (d_content ?d x) = length (d_content d x)" for x using inside c by simp
    then have "disk_wf dio ?d" using wf by (simp add: disk_wf_def del: set_content_get)
    ultimately show ?thesis by blast
  qed
qed

section \<open>Storage\<close>

definition multi_ok :: "disk_io \<Rightarrow> disk \<Rightarrow> bool" where
  "multi_ok dio d \<longleftrightarrow> disk_wf dio d \<and> distinct (dio_files dio)"

definition head_valid :: "disk_io \<Rightarrow> u32 \<Rightarrow> bytes \<Rightarrow> bool" where
  "head_valid dio i data \<longleftrightarrow> piece_valid dio i data \<and> head_piece dio i"

interpretation head: piece_storage "multi_ok dio" "head_valid dio" "write_piece dio" "read_piece dio"
  for dio
proof unfold_locales
  fix d i data
  assume "multi_ok dio d" "head_valid dio i data"
  then have wf: "disk_wf dio d" "distinct (dio_files dio)" "piece_valid dio i data" "head_piece dio i"
    by (simp_all add: multi_ok_def head_valid_def)
  from write_piece_head [OF this] obtain d1 where d1: "write_piece dio i data d = (d1, Ok ())"
    "disk_wf dio d1" "torrent_image dio d1 = splice (torrent_image dio d) (piece_start dio i) data" by blast
  show "\<exists>d'. write_piece dio i data d = (d', Ok ()) \<and> multi_ok dio d'"
    using d1 wf(2) by (simp add: multi_ok_def)
  fix d' r assume "write_piece dio i data d = (d', r)"
  then have d': "d' = d1" using d1 by simp
  show "read_piece dio i d' = Ok data"
    unfolding d' by (rule splice_storage [OF wf(1) d1(2) wf(3) d1(3)])
  fix j data' assume "head_valid dio j data'" and "i \<noteq> j"
  then show "read_piece dio j d' = read_piece dio j d"
    unfolding d' head_valid_def by (blast intro: splice_storage(2) [OF wf(1) d1(2) wf(3) d1(3)])
qed

section \<open>Opening\<close>

text \<open>Each entry's file is the one its path resolves to, and gets the entry's length.\<close>

lemma open_files_entry:
  assumes "open_files base fs files n d = (d', Ok (files', n'))" "distinct files'"
  shows "\<exists>opened. files' = files @ opened \<and>
    (\<forall>ino. ino \<notin> set opened \<longrightarrow> d_content d' ino = d_content d ino) \<and>
    (\<forall>f \<in> set fs. \<exists>path ino. entry_path base (fe_path f) = Ok path \<and> d_resolve d path = Some ino \<and>
       ino \<in> set opened \<and> d_content d' ino = resize (unat (fe_length f)) (d_content d ino))"
  using assms
proof (induction base fs files n d rule: open_files.induct)
  case (2 base f fs files n d)
  from 2(2) obtain path ino d1 where path: "entry_path base (fe_path f) = Ok path"
    and opened: "open_file path (fe_length f) d = (d1, Ok ino)"
    and rest: "open_files base fs (files @ [ino]) (n + fe_length f) d1 = (d', Ok (files', n'))"
    by (auto split: outcome.splits prod.splits)
  from 2(1) [OF path opened [symmetric] refl rest 2(3)] obtain more where more: "files' = (files @ [ino]) @ more"
    and kept: "\<forall>i. i \<notin> set more \<longrightarrow> d_content d' i = d_content d1 i"
    and IH: "\<forall>f \<in> set fs. \<exists>path i. entry_path base (fe_path f) = Ok path \<and> d_resolve d1 path = Some i \<and>
       i \<in> set more \<and> d_content d' i = resize (unat (fe_length f)) (d_content d1 i)" by blast
  have d1: "d1 = set_content ino (resize (unat (fe_length f)) (d_content d ino)) d" "d_resolve d path = Some ino"
    using open_file_Ok [OF opened] opened by (auto simp: open_file_def split: option.splits if_splits)
  have fresh: "ino \<notin> set more" using 2(3) more by auto
  have here: "d_content d' ino = resize (unat (fe_length f)) (d_content d ino)" using d1 kept fresh by simp
  have later: "d_content d1 i = d_content d i" if "i \<in> set more" for i using that fresh d1 by auto
  have "\<exists>path i. entry_path base (fe_path g) = Ok path \<and> d_resolve d path = Some i \<and>
      i \<in> set (ino # more) \<and> d_content d' i = resize (unat (fe_length g)) (d_content d i)" if g: "g \<in> set fs" for g
  proof -
    from IH g obtain path i where "entry_path base (fe_path g) = Ok path" "d_resolve d1 path = Some i"
      "i \<in> set more" "d_content d' i = resize (unat (fe_length g)) (d_content d1 i)" by blast
    with later d1(1) show ?thesis by auto
  qed
  with path here kept d1 more show ?case by (intro exI [of _ "ino # more"]) auto
qed simp

lemma absolute_path:
  "entry_path base (xs @ [47 # c]) = Ok path \<Longrightarrow> path = 47 # c"
  by (induction xs arbitrary: base) (auto simp: path_push_def split: if_splits)

section \<open>Properties\<close>

text \<open>
  C24: Loading a torrent can cut off or fill up any file. When opening succeeds, an entry whose last path
  component starts with a slash names the file of that absolute path, whatever the download directory
  and the components before it, and that file has been set to the entry's length.
\<close>

theorem torrent_resizes_any_file:
  assumes "disk_io_new base (MultiFile fs) plen d = (d', Ok dio)" "distinct (dio_files dio)"
    and "f \<in> set fs" "fe_path f = xs @ [47 # c]"
  shows "\<exists>ino. d_resolve d (47 # c) = Some ino \<and> ino \<in> set (dio_files dio) \<and>
    d_content d' ino = resize (unat (fe_length f)) (d_content d ino)"
proof -
  from assms(1) obtain files n where "open_files base fs [] 0 d = (d', Ok (files, n))" "dio_files dio = files"
    by (auto simp: disk_io_new_def split: if_splits prod.splits)
  with open_files_entry [OF this(1)] assms(2,3) obtain path ino where
    "entry_path base (fe_path f) = Ok path" "d_resolve d path = Some ino" "ino \<in> set (dio_files dio)"
    "d_content d' ino = resize (unat (fe_length f)) (d_content d ino)" by fastforce
  with absolute_path assms(4) show ?thesis by metis
qed

text \<open>A file of three bytes outside the directory \<open>[97]\<close>, and a torrent that says it has one.\<close>

theorem torrent_resizes_any_file_witness:
  "d_content (fst (disk_io_new [97] (MultiFile [\<lparr> fe_length = 1, fe_path = [[98], [47, 99]] \<rparr>]) 4
     \<lparr> d_mkdir = (\<lambda>_. True), d_resolve = [[47, 99] \<mapsto> 7], d_content = (\<lambda>_. [1, 2, 3]) \<rparr>)) 7 = [1]"
  (is "d_content (fst ?new) 7 = _")
proof -
  have "is_utf8 [98]" "is_utf8 [47, 99]" by code_simp+
  then obtain d' dio where new: "?new = (d', Ok dio)" "distinct (dio_files dio)"
    by (simp add: disk_io_new_def open_file_def path_push_def)
  from torrent_resizes_any_file [OF new, of _ "[[98]]" "[99]"] new(1) show ?thesis by (simp add: resize_def)
qed

text \<open>
  C23: Storage with several files, as far as it goes. Pieces that lie in the first file, and the piece at
  offset zero even when it runs through several files, can be written in any order and any number of
  times, and each then reads as it was last written.
\<close>

theorem multi_file_storage:
  assumes "disk_wf dio d" "distinct (dio_files dio)"
    and "\<forall>(i, data) \<in> set xs. in_range dio i \<and> length data = piece_extent dio i \<and> head_piece dio i"
    and "in_range dio j" "head_piece dio j"
  shows "read_piece dio j (foldl (\<lambda>d (i, data). fst (write_piece dio i data d)) d xs) =
    (case map_of (rev xs) j of Some data \<Rightarrow> Ok data | None \<Rightarrow> read_piece dio j d)"
proof -
  have ok: "multi_ok dio d" using assms(1,2) by (simp add: multi_ok_def)
  have valid: "\<forall>(i, data) \<in> set xs. head_valid dio i data" using assms(3) by (auto simp: head_valid_def piece_valid_def)
  have j: "head_valid dio j (replicate (piece_extent dio j) 0)"
    using assms(4,5) by (simp add: head_valid_def piece_valid_def)
  show ?thesis by (rule head.store_all [OF ok valid j, THEN conjunct2])
qed

text \<open>The two files of two and three bytes again, in pieces of four: piece 0 spans both.\<close>

theorem multi_file_storage_witness:
  "read_piece (sample_io\<lparr> dio_piece_length := 4 \<rparr>) 0
     (foldl (\<lambda>d (i, data). fst (write_piece (sample_io\<lparr> dio_piece_length := 4 \<rparr>) i data d)) sample_opened
       [(0, [1, 2, 3, 4]), (0, [5, 6, 7, 8])]) = Ok [5, 6, 7, 8]"
  (is "read_piece ?io _ (foldl _ _ ?xs) = _")
proof -
  have "disk_wf ?io sample_opened" using sample_wf by (simp add: disk_wf_def)
  moreover have "distinct (dio_files ?io)" by (simp add: sample_io_def)
  moreover have "in_range ?io 0" "piece_extent ?io 0 = 4" "head_piece ?io 0"
    by (simp_all add: in_range_def piece_start_def piece_extent_def head_piece_def)
      (simp_all add: sample_io_def sample_details_def)
  ultimately show ?thesis using multi_file_storage [of ?io sample_opened ?xs 0] by simp
qed

end
