(* ===== verification/Disk_Later.thy ===== *)
theory Disk_Later
  imports Disk_Multi Download_Disk
begin

text \<open>
  What the writer of \<open>src/core/disk_io.rs\<close> leaves alone in a torrent of several files. Every file a piece runs
  through is written at the piece's offset in the torrent, so a file that begins further back keeps its
  front: the pieces that reach it are all written behind it.
\<close>

abbreviation sizes :: "file_entry list \<Rightarrow> nat" where
  "sizes fs \<equiv> sum_list (map (\<lambda>f. unat (fe_length f)) fs)"

section \<open>Below the offset\<close>

text \<open>A file is as it was below a position, and no shorter.\<close>

definition kept_below :: "nat \<Rightarrow> bytes \<Rightarrow> bytes \<Rightarrow> bool" where
  "kept_below n c c' \<longleftrightarrow> length c \<le> length c' \<and> (\<forall>k < n. k < length c \<longrightarrow> c' ! k = c ! k)"

lemma kept_below_refl [simp]: "kept_below n c c"
  by (simp add: kept_below_def)

lemma kept_below_trans: "kept_below n c c1 \<Longrightarrow> kept_below n c1 c2 \<Longrightarrow> kept_below n c c2"
  by (auto simp: kept_below_def)

lemma kept_below_mono: "kept_below n c c' \<Longrightarrow> m \<le> n \<Longrightarrow> kept_below m c c'"
  by (auto simp: kept_below_def)

lemma kept_below_take: "kept_below n c c' \<Longrightarrow> n \<le> length c \<Longrightarrow> take n c' = take n c"
  by (rule nth_equalityI) (auto simp: kept_below_def)

lemma kept_below_pwrite: "kept_below pos c (pwrite pos data c)"
  by (auto simp: kept_below_def pwrite_def nth_append)

lemma kept_below_file_write:
  "file_write i pos data d = (d', r) \<Longrightarrow> kept_below (unat pos) (d_content d ino) (d_content d' ino)"
  by (auto simp: file_write_def kept_below_pwrite split: if_splits)

text \<open>A turn of the loop over the files: nothing is written, or the file is, and the loop may go on.\<close>

lemma write_spans_cases:
  assumes "write_spans dio entries pos data n q k fo d = (d', r)"
  obtains "d' = d"
  | d1 r1 x l where "0 < n" "k < length entries" "k < length (dio_files dio)"
    "l = min n (unat (fe_length (entries ! k) - fo))" "file_write (dio_files dio ! k) pos x d = (d1, r1)"
    "d' = d1 \<or> write_spans dio entries pos data (n - l) (q + l) (k + 1) 0 d1 = (d', r)"
proof -
  let ?l = "min n (unat (fe_length (entries ! k) - fo))"
  show thesis
  proof (cases "0 < n \<and> k < length entries \<and> k < length (dio_files dio) \<and> q + ?l \<le> length data")
    case True
    obtain d1 r1 where wr: "file_write (dio_files dio ! k) pos (take ?l (drop q data)) d = (d1, r1)" by fastforce
    have "d' = d1 \<or> write_spans dio entries pos data (n - ?l) (q + ?l) (k + 1) 0 d1 = (d', r)"
      using assms True wr by (subst (asm) write_spans.simps) (cases r1; simp add: Let_def)
    with True wr that(2) show thesis by blast
  next
    case False
    with assms have "d' = d"
      by (subst (asm) write_spans.simps) (auto simp: Let_def idx_def subslice_def split: if_splits)
    with that(1) show thesis .
  qed
qed

lemma write_spans_below:
  assumes "write_spans dio entries pos data n q k fo d = (d', r)"
  shows "kept_below (unat pos) (d_content d ino) (d_content d' ino)"
  using assms
proof (induction "length entries - k" arbitrary: n q k fo d)
  case 0
  from 0(2) show ?case by (rule write_spans_cases) (use 0 in simp_all)
next
  case (Suc m)
  from Suc.prems show ?case
  proof (cases rule: write_spans_cases)
    case (2 d1 r1 x l)
    from kept_below_file_write [OF 2(5), of ino] 2(6) Suc.hyps(1) [of "k + 1" "n - l" "q + l" 0 d1] Suc.hyps(2)
    show ?thesis by (auto intro: kept_below_trans)
  qed simp
qed

section \<open>Before the file\<close>

lemma write_spans_before:
  assumes "write_spans dio entries pos data n q k fo d = (d', r)"
    and "distinct (dio_files dio)" "length (dio_files dio) = length entries" "m < length entries" "k \<le> m"
    and "k < m \<longrightarrow> unat fo \<le> unat (fe_length (entries ! k))"
    and "n + unat fo \<le> sizes (take (m - k) (drop k entries))"
  shows "d_content d' (dio_files dio ! m) = d_content d (dio_files dio ! m)"
  using assms(1,5-7)
proof (induction "m - k" arbitrary: n q k fo d)
  case 0
  then have "n = 0" by simp
  with 0 show ?case by (subst (asm) write_spans.simps) simp
next
  case (Suc j)
  then have k: "k < m" "k < length entries" "k < length (dio_files dio)" using assms(3,4) by simp_all
  have fo: "unat (fe_length (entries ! k) - fo) = unat (fe_length (entries ! k)) - unat fo"
    using Suc.prems(3) k by (intro unat_diff64) simp
  have split: "take (m - k) (drop k entries) = entries ! k # take (m - Suc k) (drop (Suc k) entries)"
    using k by (simp add: Cons_nth_drop_Suc [symmetric] Suc_diff_Suc [symmetric])
  from Suc.prems(1) show ?case
  proof (cases rule: write_spans_cases)
    case (2 d1 r1 x l)
    have other: "dio_files dio ! m \<noteq> dio_files dio ! k"
      using assms(2-4) k by (simp add: nth_eq_iff_index_eq)
    have kept: "d_content d1 (dio_files dio ! m) = d_content d (dio_files dio ! m)"
      using 2(5) other by (auto simp: file_write_def split: if_splits)
    have "n - l + unat (0 :: u64) \<le> sizes (take (m - (k + 1)) (drop (k + 1) entries))"
      using Suc.prems(4) fo 2(4) by (simp add: split)
    with 2(6) kept Suc.hyps(1) [of "k + 1" "n - l" "q + l" 0 d1] Suc.hyps(2) k show ?thesis by auto
  qed simp
qed

section \<open>A piece\<close>

text \<open>
  The file after \<open>pre\<close> keeps everything below the last piece boundary before it: a piece that starts
  below that boundary ends before the file, and any other is written at or behind the boundary.
\<close>

lemma multiple_below:
  fixes a b F L :: nat
  assumes "a = b * L" "a < F div L * L"
  shows "a + L \<le> F"
proof -
  have "b < F div L" using assms by simp
  then have "(b + 1) * L \<le> F div L * L" by (intro mult_le_mono1) simp
  also have "\<dots> \<le> F" by simp
  finally show ?thesis by (simp add: assms(1))
qed

lemma prefix_split:
  assumes "pre @ xs = pre' @ ys" "length pre \<le> length pre'"
  obtains zs where "pre' = pre @ zs" "xs = zs @ ys"
  using assms by (auto simp: append_eq_append_conv2)

lemma write_piece_later:
  assumes multi: "dio_file_details dio = MultiFile (pre @ f # post)" and files: "files_open dio"
    and dist: "distinct (dio_files dio)"
    and total: "unat (dio_total_size dio) = sizes (pre @ f # post)"
    and L: "unat (dio_piece_length dio) = L" "unat i * L < 2 ^ 32" "length data = L"
    and wr: "write_piece dio i data d = (d', r)"
  shows "kept_below (sizes pre div L * L) (d_content d (dio_files dio ! length pre))
    (d_content d' (dio_files dio ! length pre))"
proof -
  let ?es = "pre @ f # post" and ?pos = "ucast (i * dio_piece_length dio) :: u64"
  let ?ino = "dio_files dio ! length pre"
  have len: "length (dio_files dio) = length ?es" using files multi by (simp add: files_open_def entry_sizes_def)
  have pos: "unat ?pos = unat i * L" using unat_mult32 [of i "dio_piece_length dio"] L(1,2) by simp
  obtain cur k where seek: "seek_file ?es ?pos 0 0 = (cur, k)" by fastforce
  show ?thesis
  proof (cases "dio_total_size dio \<le> ?pos \<or> length ?es \<le> k")
    case True
    with wr have "d' = d"
      by (auto simp: write_piece_def multi write_multi_file_piece_def seek Let_def split: if_splits)
    then show ?thesis by simp
  next
    case False
    then have wr: "write_spans dio ?es ?pos data (length data) 0 k (?pos - cur) d = (d', r)"
      using wr by (simp add: write_piece_def multi write_multi_file_piece_def seek Let_def)
    show ?thesis
    proof (cases "unat ?pos < sizes pre div L * L")
      case False
      then have "sizes pre div L * L \<le> unat ?pos" by simp
      from kept_below_mono [OF write_spans_below [OF wr] this] show ?thesis .
    next
      case below: True
      have ends: "unat ?pos + L \<le> sizes pre" using multiple_below [OF pos below] .
      have "\<not> dio_total_size dio \<le> ?pos" using False by blast
      then have "unat ?pos < unat (dio_total_size dio)" by (simp only: word_le_nat_alt not_le)
      then obtain pre' g post' where g: "?es = pre' @ g # post'" "k = length pre'" "unat cur = sizes pre'"
        "unat cur \<le> unat ?pos" "unat ?pos < unat cur + unat (fe_length g)"
        using seek_file_found [OF seek] total unat_u64_less [of "dio_total_size dio"] by auto
      have "d_content d' ?ino = d_content d ?ino"
      proof (rule write_spans_before [OF wr dist len])
        have "\<not> length pre < length pre'"
        proof
          assume "length pre < length pre'"
          with prefix_split [OF g(1)] obtain zs where "pre' = pre @ zs" by (metis less_imp_le_nat)
          with ends g(3,4) below show False by (cases L) auto
        qed
        then have k: "length pre' \<le> length pre" by simp
        from prefix_split [OF g(1) [symmetric] k] obtain zs where zs: "pre = pre' @ zs" by metis
        show "k \<le> length pre" using g(2) k by simp
        have diff: "unat (?pos - cur) = unat ?pos - unat cur" by (rule unat_diff64 [OF g(4)])
        have entry: "?es ! k = g" unfolding g(1,2) by simp
        show "k < length pre \<longrightarrow> unat (?pos - cur) \<le> unat (fe_length (?es ! k))"
          unfolding entry diff using g(5) by linarith
        have rest: "take (length pre - k) (drop k ?es) = zs" unfolding g(2) zs by simp
        have "sizes pre = sizes pre' + sizes zs" by (simp add: zs)
        then show "length data + unat (?pos - cur) \<le> sizes (take (length pre - k) (drop k ?es))"
          unfolding rest diff using ends g(3,4) L(3) by linarith
      qed simp
      then show ?thesis by simp
    qed
  qed
qed

end
