(* ===== verification/Client_Files.thy ===== *)
theory Client_Files
  imports Client_Complete Disk_Later
begin

text \<open>
  The running client and torrents as they come: with a short last piece, and with several files. Whatever the
  peers send, a short piece keeps the client from ever being done, and the front of a later file is never written.
\<close>

section \<open>Opening\<close>

lemma open_files_nth:
  assumes "open_files base fs files n d = (d', Ok (files', n'))" "distinct files'" "k < length fs"
  shows "d_content d' (files' ! (length files + k)) =
    resize (unat (fe_length (fs ! k))) (d_content d (files' ! (length files + k)))"
  using assms
proof (induction base fs files n d arbitrary: k rule: open_files.induct)
  case (2 base f fs files n d)
  from 2(2) obtain path ino d1 where path: "entry_path base (fe_path f) = Ok path"
    and opened: "open_file path (fe_length f) d = (d1, Ok ino)"
    and rest: "open_files base fs (files @ [ino]) (n + fe_length f) d1 = (d', Ok (files', n'))"
    by (auto split: outcome.splits prod.splits)
  from open_files_entry [OF rest 2(3)] obtain more where more: "files' = (files @ [ino]) @ more"
    and kept: "\<forall>i. i \<notin> set more \<longrightarrow> d_content d' i = d_content d1 i" by blast
  from open_file_Ok [OF opened] have d1: "d1 = set_content ino (resize (unat (fe_length f)) (d_content d ino)) d" by blast
  show ?case
  proof (cases k)
    case 0
    with kept more 2(3) d1 show ?thesis by (simp add: nth_append)
  next
    case (Suc m)
    have "more ! m \<noteq> ino" if "m < length more" using 2(3) more that by (auto dest: nth_mem)
    moreover have "length more = length fs"
      using open_files_length [OF rest] more by simp
    ultimately show ?thesis
      using 2(1) [OF path opened [symmetric] refl rest 2(3), of m] 2(4) d1 Suc more by (simp add: nth_append)
  qed
qed simp

lemma opened_nth:
  assumes "disk_io_new base (MultiFile fs) plen d = (d', Ok dio)" "distinct (dio_files dio)" "k < length fs"
  shows "d_content d' (dio_files dio ! k) = resize (unat (fe_length (fs ! k))) (d_content d (dio_files dio ! k))"
proof -
  from assms(1) obtain files n where "open_files base fs [] 0 d = (d', Ok (files, n))" "dio_files dio = files"
    by (auto simp: disk_io_new_def split: if_splits prod.splits)
  with open_files_nth [OF this(1), of k] assms(2,3) show ?thesis by simp
qed

section \<open>Later files\<close>

lemma exact_kept:
  assumes multi: "dio_file_details dio = MultiFile (pre @ f # post)" "files_open dio" "distinct (dio_files dio)"
    and total: "unat (dio_total_size dio) = sizes (pre @ f # post)"
    and L: "0 < piece_count t \<Longrightarrow> unat (dio_piece_length dio) = unat (piece_length (t_info t))"
    and small: "piece_count t * unat (piece_length (t_info t)) \<le> 2 ^ 32" and pos: "0 < unat (piece_length (t_info t))"
    and writes: "exact_writes sha1 t dio d0 d"
  shows "kept_below (sizes pre div unat (piece_length (t_info t)) * unat (piece_length (t_info t)))
    (d_content d0 (dio_files dio ! length pre)) (d_content d (dio_files dio ! length pre))"
  using writes
proof induction
  case (piece_write d i data)
  let ?L = "unat (piece_length (t_info t))"
  have "unat i * ?L < piece_count t * ?L" using piece_write(2) pos by simp
  then have "unat i * ?L < 2 ^ 32" using small by linarith
  moreover have "unat (dio_piece_length dio) = ?L" using L piece_write(2) by simp
  ultimately have "kept_below (sizes pre div ?L * ?L) (d_content d (dio_files dio ! length pre))
      (d_content (fst (write_piece dio i data d)) (dio_files dio ! length pre))"
    using write_piece_later [OF multi(1-3) total _ _ piece_write(4)] by (simp add: prod_eq_iff)
  with piece_write.IH show ?case by (rule kept_below_trans)
qed simp

lemma opened_total:
  assumes "disk_io_new base (MultiFile fs) plen d = (d', Ok dio)" "distinct (dio_files dio)" "sizes fs < 2 ^ 64"
  shows "unat (dio_total_size dio) = sizes fs" "length (dio_files dio) = length fs"
proof -
  have "sum_list (entry_sizes (MultiFile fs)) < 2 ^ 64" using assms(3) by (simp add: entry_sizes_def)
  from disk_io_new_wf [OF assms(1,2) this] have wf: "disk_wf dio d'" "dio_file_details dio = MultiFile fs" by simp_all
  then show "unat (dio_total_size dio) = sizes fs" by (simp add: disk_wf_def entry_sizes_def comp_def)
  from multi_nth(1) [OF wf] show "length (dio_files dio) = length fs" .
qed

section \<open>Properties\<close>

text \<open>
  C20: A short last piece keeps the download from ever being complete. If the data \<open>x\<close> of some piece is shorter than
  the piece length, as the last piece of most torrents is, then whatever the peers send and in whatever
  files, the client only reports completion after the peers have sent it, block by block, other data \<open>y\<close> of the full
  piece length with the same SHA-1. Peers who cannot find a second preimage of \<open>x\<close> cannot complete the download.
\<close>

theorem short_piece_never_completes:
  assumes "download_manager_new t bs = Some dm" "piece_count t \<le> 2 ^ 32"
    and "disk_io_new base (info_files (t_info t)) (ucast (piece_length (t_info t))) d0 = (disk, Ok dio)"
    and "(client_step sha1 connect)\<^sup>*\<^sup>* (main_client pid t dio peers dm disk) c"
    and "i < piece_count t" "piece_hash (t_info t) i = Some (sha1 x)"
    and "length x \<noteq> unat (piece_length (t_info t))" "snd (main_report c)"
  shows "\<exists>y. y \<noteq> x \<and> sha1 y = sha1 x \<and> length y = unat (piece_length (t_info t)) \<and>
    (\<forall>k < block_count t bs. ReceivedPiece (word_of_nat i) (ucast (off bs k)) (part y (piece_length (t_info t)) bs k)
       \<in> fst ` set (handled c))"
proof -
  let ?heard = "\<lambda>j (q :: u64) y. ReceivedPiece j (ucast q) y \<in> fst ` set (handled c)"
  have disk: "files_open dio \<and> exact_writes sha1 t dio disk disk"
    using disk_io_new_files [OF assms(3)] exact_writes.start by blast
  have heard: "?heard j (ucast q) y" if "(ReceivedPiece j q y, ip) \<in> set (handled c)" for j q y ip
    unfolding ucast_down_up using that by (metis fst_conv image_eqI)
  from exact.verified_complete [OF exact.main_client_verified [OF assms(1,2) disk assms(4), where heard = ?heard, OF heard] assms(2) _ assms(5)]
    assms(8) have "has_data sha1 t bs ?heard i" by (simp add: main_report_def)
  then obtain y where y: "piece_hash (t_info t) i = Some (sha1 y)" "length y = unat (piece_length (t_info t))"
    "assembled t bs ?heard (word_of_nat i) y" unfolding has_data_def by blast
  with assms(6,7) show ?thesis by (auto simp: assembled_def)
qed

text \<open>
  C19: The front of a later file is never downloaded. For a torrent of several distinct files, below 4 GiB: of a
  file that begins at some offset in the torrent, the bytes up to the last piece boundary before that offset are,
  whatever the peers send and even when the client reports completion, what they were when the file was
  opened; zeros, when the file was new. A file no longer than that boundary is not downloaded at all.
\<close>

theorem later_file_front_lost:
  assumes "download_manager_new t bs = Some dm" "piece_count t \<le> 2 ^ 32"
    and "info_files (t_info t) = MultiFile (pre @ f # post)" "sizes (pre @ f # post) < 2 ^ 64"
    and "piece_count t * unat (piece_length (t_info t)) \<le> 2 ^ 32"
    and "disk_io_new base (info_files (t_info t)) (ucast (piece_length (t_info t))) d0 = (disk, Ok dio)"
    and "distinct (dio_files dio)"
    and "(client_step sha1 connect)\<^sup>*\<^sup>* (main_client pid t dio peers dm disk) c"
    and "n \<le> sizes pre div unat (piece_length (t_info t)) * unat (piece_length (t_info t))"
    and "n \<le> unat (fe_length f)"
  shows "take n (d_content (cl_disk c) (dio_files dio ! length pre)) =
    take n (resize (unat (fe_length f)) (d_content d0 (dio_files dio ! length pre)))"
proof (cases "unat (piece_length (t_info t)) = 0")
  case False
  let ?ino = "dio_files dio ! length pre" and ?L = "unat (piece_length (t_info t))"
  note opened = assms(6) [unfolded assms(3)]
  note total = opened_total [OF opened assms(7,4)]
  have dio: "files_open dio" "dio_file_details dio = MultiFile (pre @ f # post)"
    "dio_piece_length dio = ucast (piece_length (t_info t))" using disk_io_new_files [OF opened] by simp_all
  then have disk: "files_open dio \<and> exact_writes sha1 t dio disk disk" using exact_writes.start by blast
  from exact.main_client_verified [OF assms(1,2) disk assms(8), where heard = "\<lambda>_ _ _. True"]
  have writes: "exact_writes sha1 t dio disk (cl_disk c)" by (simp add: exact.verified_def dm_view_def)
  have "unat (dio_piece_length dio) = ?L" if "0 < piece_count t"
    using download_manager_new_piece_manager [OF assms(1)] piece_manager_new_iff [of t bs] that
    by (auto simp: dio(3) info_fits_def piece_fits_def unat_down32)
  from exact_kept [OF dio(2,1) assms(7) total(1) this assms(5) _ writes] False
  have "kept_below n (d_content disk ?ino) (d_content (cl_disk c) ?ino)"
    using assms(9) kept_below_mono by blast
  moreover have front: "d_content disk ?ino = resize (unat (fe_length f)) (d_content d0 ?ino)"
    using opened_nth [OF opened assms(7), of "length pre"] by simp
  ultimately show ?thesis using kept_below_take assms(10) by simp
qed (use assms(9) in simp)

text \<open>
  With a hash that is the same for everything the sample download is done, whatever it should have been, and the
  other data is what the peer sent.
\<close>

theorem short_piece_never_completes_witness:
  "\<exists>c y. (client_step (\<lambda>_. replicate 20 7) (sample_answer sample_wire))\<^sup>*\<^sup>* sample_client c \<and> snd (main_report c) \<and>
    y \<noteq> [1 :: u8] \<and> length y = 4 \<and>
    (\<forall>k < block_count sample_torrent 2. ReceivedPiece 0 (ucast (off 2 k)) (part y 4 2 k) \<in> fst ` set (handled c))"
proof -
  have content: "content_of (\<lambda>_. replicate 20 7) sample_torrent [1, 2, 3, 4]"
    using sample_facts(3) by (simp add: content_of_def sample_count sample_hash)
  obtain c where c: "(client_step (\<lambda>_. replicate 20 7) (sample_answer sample_wire))\<^sup>*\<^sup>* (main_client (replicate 20 2)
      sample_torrent sample_single [sample_ip] sample_dm (dw_disk sample_dm_world)) c" "snd (main_report c)"
    using sample_finished [OF content] .
  have len: "piece_length (t_info sample_torrent) = 4" by (simp add: sample_torrent_def)
  have "\<exists>y. y \<noteq> [1 :: u8] \<and> replicate 20 (7 :: u8) = replicate 20 7 \<and> length y = unat (piece_length (t_info sample_torrent)) \<and>
      (\<forall>k < block_count sample_torrent 2. ReceivedPiece (word_of_nat 0) (ucast (off 2 k))
         (part y (piece_length (t_info sample_torrent)) 2 k) \<in> fst ` set (handled c))"
    by (rule short_piece_never_completes [OF sample_dm_new sample_few sample_facts(4) c(1) sample_facts(2) sample_hash _ c(2)])
      (simp add: len)
  then show ?thesis using c by (auto simp: len sample_client_def)
qed

text \<open>
  A torrent of two files of four bytes, one piece each. The peer sends both pieces, the client reports
  completion, and the second file is still the four zeros it was opened with.
\<close>

definition sample_pair :: torrent where
  "sample_pair = sample_torrent\<lparr> t_info := (t_info sample_torrent)\<lparr> raw_pieces := replicate 40 7,
     info_files := MultiFile ([\<lparr> fe_length = 4, fe_path = [[98]] \<rparr>] @ \<lparr> fe_length = 4, fe_path = [[99]] \<rparr> # []) \<rparr> \<rparr>"

definition sample_pair_io :: disk_io where
  "sample_pair_io = \<lparr> dio_base_path = [97], dio_file_details = info_files (t_info sample_pair), dio_piece_length = 4,
     dio_files = [1, 2], dio_total_size = 8 \<rparr>"

definition sample_pair_disk :: disk where
  "sample_pair_disk = set_content 2 [0, 0, 0, 0] (set_content 1 [0, 0, 0, 0] sample_disk)"

definition sample_pair_dm :: download_manager where
  "sample_pair_dm = the (download_manager_new sample_pair 4)"

lemma sample_pair_simps:
  "piece_count sample_pair = 2" "piece_length (t_info sample_pair) = 4"
  "info_files (t_info sample_pair) = MultiFile ([\<lparr> fe_length = 4, fe_path = [[98]] \<rparr>] @ \<lparr> fe_length = 4, fe_path = [[99]] \<rparr> # [])"
  "t_info_hash sample_pair = replicate 20 1"
  by (simp_all add: sample_pair_def piece_count_def sample_torrent_def)

lemma sample_pair_new: "download_manager_new sample_pair 4 = Some sample_pair_dm"
proof -
  have "info_fits (t_info sample_pair) 4" by (simp add: info_fits_def piece_fits_def sample_pair_simps)
  then have "piece_manager_new sample_pair 4 \<noteq> None" using piece_manager_new_eq [of sample_pair 4] by simp
  then show ?thesis by (auto simp: sample_pair_dm_def download_manager_new_def)
qed

lemma sample_pair_opened:
  "disk_io_new [97] (info_files (t_info sample_pair)) (ucast (piece_length (t_info sample_pair))) sample_disk =
     (sample_pair_disk, Ok sample_pair_io)"
  by (simp add: sample_pair_simps disk_io_new_def sample_disk_def sample_pair_disk_def sample_pair_io_def
      open_file_def path_push_def is_utf8.simps(2) utf8_step.simps(2) resize_def replicate_numeral)

lemma sample_pair_content: "content_of (\<lambda>_. replicate 20 7) sample_pair [1, 2, 3, 4, 5, 6, 7, 8]"
proof -
  have "piece_hash (t_info sample_pair) i = Some (replicate 20 7)" if "i < 2" for i
    using that by (simp add: piece_hash_eq sample_pair_def less_2_cases_iff) (auto simp: take_replicate)
  then show ?thesis by (simp add: content_of_def sample_pair_simps)
qed

lemma sample_pair_blocks:
  "block_count sample_pair 4 = 1"
  "block_event sample_pair 4 [1, 2, 3, 4, 5, 6, 7, 8] 0 0 = ReceivedPiece 0 0 [1, 2, 3, 4]"
  "block_event sample_pair 4 [1, 2, 3, 4, 5, 6, 7, 8] (Suc 0) 0 = ReceivedPiece 1 0 [5, 6, 7, 8]"
  by (simp_all add: sample_pair_simps block_count_def nblocks_def block_event_def slice_of_def off_def)
    (simp_all add: Piece_Verify.part_def off_def blen_def)

lemma sample_pair_done:
  obtains c where "(client_step (\<lambda>_. replicate 20 7)
      (sample_answer (sample_frames (Piece 0 0 [1, 2, 3, 4]) (Piece 1 0 [5, 6, 7, 8]))))\<^sup>*\<^sup>*
    (main_client (replicate 20 2) sample_pair sample_pair_io [sample_ip] sample_pair_dm sample_pair_disk) c"
    "snd (main_report c)"
proof -
  let ?first = "main_client (replicate 20 2) sample_pair sample_pair_io [sample_ip] sample_pair_dm sample_pair_disk"
  let ?sha1 = "\<lambda>_. replicate 20 7"
  let ?connect = "sample_answer (sample_frames (Piece 0 0 [1, 2, 3, 4]) (Piece 1 0 [5, 6, 7, 8]))"
  have one: "one_peer ?first" by (rule one_peer_main [OF sample_pair_simps(4)])
  have ok: "wire_ok (Piece 0 0 [1, 2, 3, 4])" "length (serialize (Piece 0 0 [1, 2, 3, 4])) < 2 ^ 32"
    "wire_ok (Piece 1 0 [5, 6, 7, 8])" "length (serialize (Piece 1 0 [5, 6, 7, 8])) < 2 ^ 32"
    by (simp_all add: serialize_def)
  obtain con r1 r2 where
    run: "(bounded_step ?sha1 ?connect)\<^sup>*\<^sup>* (bounded_start ?first) (sample_bounded ?first (Running con) 2)"
    and sent: "to_manager con = [ReceivedPiece 0 0 [1, 2, 3, 4], DownloadRate r1, ReceivedPiece 1 0 [5, 6, 7, 8], DownloadRate r2]"
    by (rule sample_two_sent [OF one ok refl])
  have honest: "\<forall>con' e. Some con' \<in> set (connections_of (sample_bounded ?first (Running con) 2)) \<and> e \<in> set (to_manager con') \<longrightarrow>
      honest_event sample_pair 4 [1, 2, 3, 4, 5, 6, 7, 8] e"
    and all: "\<forall>i < piece_count sample_pair. \<forall>k < block_count sample_pair 4.
      \<exists>con'. Some con' \<in> set (connections_of (sample_bounded ?first (Running con) 2)) \<and>
        block_event sample_pair 4 [1, 2, 3, 4, 5, 6, 7, 8] i k \<in> set (to_manager con')"
    using sample_pair_blocks
    by (auto simp: connections_sample sent honest_event_def sample_pair_simps(1) below_two)
  have few: "piece_count sample_pair \<le> 2 ^ 32" "0 < piece_count sample_pair" "distinct [sample_ip]"
    by (simp_all add: sample_pair_simps)
  from sent_blocks_finish [OF sample_pair_new few(1,2) sample_pair_content sample_pair_opened few(3) run honest all] that
  show thesis by blast
qed

theorem later_file_front_lost_witness:
  "\<exists>c. snd (main_report c) \<and> take 4 (d_content (cl_disk c) 2) = [0, 0, 0, 0]"
proof -
  obtain c where c: "(client_step (\<lambda>_. replicate 20 7)
      (sample_answer (sample_frames (Piece 0 0 [1, 2, 3, 4]) (Piece 1 0 [5, 6, 7, 8]))))\<^sup>*\<^sup>*
    (main_client (replicate 20 2) sample_pair sample_pair_io [sample_ip] sample_pair_dm sample_pair_disk) c"
    "snd (main_report c)" using sample_pair_done .
  have "take 4 (d_content (cl_disk c) (dio_files sample_pair_io ! length [\<lparr> fe_length = 4, fe_path = [[98 :: u8]] \<rparr>])) =
      take 4 (resize (unat (fe_length \<lparr> fe_length = 4, fe_path = [[99]] \<rparr>))
        (d_content sample_disk (dio_files sample_pair_io ! length [\<lparr> fe_length = 4, fe_path = [[98 :: u8]] \<rparr>])))"
    by (rule later_file_front_lost [OF sample_pair_new _ sample_pair_simps(3) _ _ sample_pair_opened _ c(1)])
      (simp_all add: sample_pair_simps(1,2), simp add: sample_pair_io_def)
  then have "take 4 (d_content (cl_disk c) 2) = [0, 0, 0, 0]"
    by (simp add: sample_pair_io_def sample_disk_def resize_def replicate_numeral)
  with c(2) show ?thesis by blast
qed

end
