(* ===== verification/Tracker_Time.thy ===== *)
theory Tracker_Time
  imports Tracker_UDP
begin

text \<open>
  How much the UDP tracker client may ask of the network and of its caller: the number of datagrams it sends
  and the time it takes, which \<open>CONNECTION_TIMEOUT\<close> bounds once the resolver has answered.
\<close>

text \<open>At most \<open>k\<close> exchanges lead from one state of the network to the other.\<close>

definition udp_within :: "nat \<Rightarrow> udp_world \<Rightarrow> udp_world \<Rightarrow> bool" where
  "udp_within k w w' \<longleftrightarrow> same_net w w' \<and> u_count w \<le> u_count w' \<and> u_count w' \<le> u_count w + k \<and>
     (\<exists>reqs. u_sent w' = u_sent w @ reqs \<and> length reqs \<le> k) \<and> u_clock w \<le> u_clock w' \<and>
     u_clock w' \<le> u_clock w + k * connection_timeout"

lemma udp_within_refl [simp]: "udp_within k w w"
  by (simp add: udp_within_def)

lemma udp_within_mono: "udp_within k w w' \<Longrightarrow> k \<le> m \<Longrightarrow> udp_within m w w'"
  using mult_le_mono1 [of k m connection_timeout] by (auto simp: udp_within_def intro: order_trans)

lemma udp_within_trans:
  assumes "udp_within k w w1" "udp_within m w1 w2"
  shows "udp_within (k + m) w w2"
proof -
  from assms obtain xs ys where "u_sent w1 = u_sent w @ xs" "length xs \<le> k" "u_sent w2 = u_sent w1 @ ys" "length ys \<le> m"
    unfolding udp_within_def by blast
  then have "\<exists>reqs. u_sent w2 = u_sent w @ reqs \<and> length reqs \<le> k + m" by (intro exI [of _ "xs @ ys"]) simp
  then show ?thesis
    using assms same_net_trans [of w w1 w2] by (auto simp: udp_within_def algebra_simps intro: le_trans)
qed

lemma udp_within_exchange: "exchange req w = (w', r) \<Longrightarrow> udp_within 1 w w'"
  by (auto simp: exchange_def udp_within_def same_net_def Let_def split: if_splits)

lemma udp_within_next:
  "exchange req w = (w1, r) \<Longrightarrow> udp_within k w1 w' \<Longrightarrow> udp_within (Suc k) w w'"
  using udp_within_trans [OF udp_within_exchange] by fastforce

lemma udp_within_once: "exchange req w = (w', r) \<Longrightarrow> udp_within (Suc k) w w'"
  using udp_within_mono [OF udp_within_exchange] by simp

lemma connect_loop_within: "get_connection_id_loop k w = (w', r) \<Longrightarrow> udp_within k w w'"
proof (induction k arbitrary: w)
  case (Suc k)
  obtain w1 r1 where ex: "exchange (create_connect_request (u_random w (u_count w))) w = (w1, r1)" by fastforce
  show ?case
    using Suc.prems Suc.IH [of w1] udp_within_next [OF ex] udp_within_once [OF ex] ex
    by (auto simp: Let_def split: outcome.splits option.splits if_splits)
qed simp

lemma announce_loop_within: "announce_loop k cid stats req w = (w', r) \<Longrightarrow> udp_within k w w'"
proof (induction k arbitrary: w)
  case (Suc k)
  obtain w1 r1 where
    ex: "exchange (announce_request_to_bytes stats req cid (u_random w (u_count w))) w = (w1, r1)" by fastforce
  show ?case
    using Suc.prems Suc.IH [of w1] udp_within_next [OF ex] udp_within_once [OF ex] ex
    by (auto simp: Let_def split: outcome.splits option.splits if_splits)
qed simp

lemma get_connection_id_within: "get_connection_id w = (w', r) \<Longrightarrow> udp_within 3 w w'"
  by (simp add: get_connection_id_def max_retries_def connect_loop_within)

lemma announce_udp_within: "announce_udp cid stats req w = (w', r) \<Longrightarrow> udp_within 3 w w'"
  by (simp add: announce_udp_def max_retries_def announce_loop_within)

lemma connect_announce_within:
  assumes "udp_within 3 w w1" "announce_udp cid stats req w1 = (w', r)"
  shows "udp_within 6 w w'"
  using udp_within_trans [OF assms(1) announce_udp_within [OF assms(2)]] by simp

lemma parse_udp_url_time:
  "parse_udp_url lookup_host url w = (w', r) \<Longrightarrow>
     w' = w \<and> (\<forall>a. r \<noteq> Ok a) \<or> w' = w\<lparr> u_clock := u_clock w + u_lookup w \<rparr>"
  by (auto simp: parse_udp_url_def Let_def split: if_splits)

lemma tracker_udp_new_within:
  assumes "tracker_udp_new lookup_host bind_ok key url ih pid stats port w = (w', r)"
  shows "\<exists>n \<le> u_lookup w. udp_within 6 (w\<lparr> u_clock := u_clock w + n \<rparr>) w'"
proof -
  obtain wp rp where parse: "parse_udp_url lookup_host url w = (wp, rp)" by fastforce
  obtain w1 r1 where conn: "get_connection_id wp = (w1, r1)" by fastforce
  note within = get_connection_id_within [OF conn]
  obtain n where n: "n \<le> u_lookup w" "wp = w\<lparr> u_clock := u_clock w + n \<rparr>"
    using parse_udp_url_time [OF parse] that [of 0] that [of "u_lookup w"] by auto
  have "w' = w \<or> udp_within 6 wp w'"
    using udp_within_mono [OF within, of 6] connect_announce_within [OF within] assms conn parse
    by (auto simp: tracker_udp_new_def Let_def split: if_splits outcome.splits prod.splits)
  then show ?thesis
  proof
    assume "w' = w"
    then have "udp_within 6 (w\<lparr> u_clock := u_clock w + 0 \<rparr>) w'" by simp
    then show ?thesis by blast
  next
    assume "udp_within 6 wp w'"
    with n show ?thesis by blast
  qed
qed

lemma tracker_connection_within:
  assumes "tracker_get_connection_id t w = ((w', t'), r)"
  shows "udp_within 3 w w'"
proof -
  obtain w1 r1 where conn: "get_connection_id w = (w1, r1)" by fastforce
  from get_connection_id_within [OF conn] assms conn show ?thesis
    by (auto simp: tracker_get_connection_id_def refresh_connection_def split: if_splits outcome.splits)
qed

lemma udp_get_peers_within:
  assumes "udp_get_peers stats t w = ((w', t'), r)"
  shows "udp_within 6 w w'"
proof -
  obtain w1 t1 r1 where conn: "tracker_get_connection_id t w = ((w1, t1), r1)" by (metis prod.exhaust)
  note within = tracker_connection_within [OF conn]
  with udp_within_mono [OF within, of 6] connect_announce_within [OF within] assms conn show ?thesis
    by (auto simp: udp_get_peers_def tracker_announce_def split: if_splits outcome.splits prod.splits)
qed

section \<open>Properties\<close>

text \<open>
  C39: The UDP tracker keeps nobody waiting. Creating the tracker, and asking it for peers, makes at most six
  exchanges, three to connect and three to announce, whatever comes back and however late. As the
  timeout ends the wait for each reply after 15 seconds, asking for peers takes at most 90 seconds, and creating the
  tracker as much after the resolver has answered, for which the code sets no limit.
\<close>

theorem udp_requests_bounded:
  "(let w' = fst (tracker_udp_new lookup_host bind_ok key url ih pid stats port w) in
      u_count w' \<le> u_count w + 6 \<and> length (u_sent w') \<le> length (u_sent w) + 6 \<and>
      u_clock w' \<le> u_clock w + u_lookup w + 90 * 1000000000) \<and>
   (let w' = fst (fst (udp_get_peers stats t w)) in
      u_count w' \<le> u_count w + 6 \<and> length (u_sent w') \<le> length (u_sent w) + 6 \<and>
      u_clock w' \<le> u_clock w + 90 * 1000000000)"
proof -
  obtain n where "n \<le> u_lookup w"
    "udp_within 6 (w\<lparr> u_clock := u_clock w + n \<rparr>) (fst (tracker_udp_new lookup_host bind_ok key url ih pid stats port w))"
    using tracker_udp_new_within prod.collapse by metis
  moreover have "udp_within 6 w (fst (fst (udp_get_peers stats t w)))"
    by (metis udp_get_peers_within prod.collapse)
  ultimately show ?thesis by (auto simp: udp_within_def connection_timeout_def)
qed

text \<open>The bound is reached: the tracker answers each request the third time it is sent, at the last moment.\<close>

definition sample_slow :: udp_world where
  "sample_slow = sample_world\<lparr> u_reply := (\<lambda>n. honest_tracker 42 sample_response),
     u_delay := (\<lambda>n. if n mod 3 = 2 then connection_timeout else connection_timeout + n + 1), u_lookup := 0 \<rparr>"

lemma connect_timed_out:
  assumes "connection_timeout < u_delay w (u_count w)" "u_sendable w (u_count w)"
  shows "get_connection_id_loop (Suc k) w = get_connection_id_loop k (after_connect w)"
  using assms by (simp add: exchange_def Let_def exchanged_def)

lemma announce_timed_out:
  assumes "connection_timeout < u_delay w (u_count w)" "u_sendable w (u_count w)"
  shows "announce_loop (Suc k) cid stats req w = announce_loop k cid stats req
    (exchanged (announce_request_to_bytes stats req cid (u_random w (u_count w))) w)"
  using assms by (simp add: exchange_def Let_def exchanged_def)

lemma sample_slow_simps [simp]:
  "u_reply sample_slow n = honest_tracker 42 sample_response" "u_sendable sample_slow n"
  "u_delay sample_slow n = (if n mod 3 = 2 then connection_timeout else connection_timeout + n + 1)"
  "u_count sample_slow = 0" "u_clock sample_slow = 100" "u_lookup sample_slow = 0" "u_sent sample_slow = []"
  by (simp_all add: sample_slow_def sample_world_def)

lemma sample_slow_connect:
  "get_connection_id sample_slow = (after_connect (after_connect (after_connect sample_slow)), Ok 42)"
proof -
  have "get_connection_id sample_slow = get_connection_id_loop (Suc 0) (after_connect (after_connect sample_slow))"
    unfolding get_connection_id_def max_retries_def numeral_3_eq_3
    by (simp del: get_connection_id_loop.simps add: connect_timed_out)
  also have "\<dots> = (after_connect (after_connect (after_connect sample_slow)), Ok 42)"
    by (rule honest_connect_loop [where resp = sample_response]) simp_all
  finally show ?thesis .
qed

lemma sample_slow_announce:
  assumes "u_reply w = u_reply sample_slow" "u_sendable w = u_sendable sample_slow" "u_count w = 3"
    and "u_delay w = u_delay sample_slow" "length (arq_info_hash req) = 20" "length (arq_peer_id req) = 20"
  obtains w' resp where "announce_udp cid stats req w = (w', Ok resp)" "u_count w' = 6"
    "u_clock w' = u_clock w + 3 * connection_timeout"
proof -
  let ?next = "\<lambda>w. exchanged (announce_request_to_bytes stats req cid (u_random w (u_count w))) w"
  have "announce_udp cid stats req w = announce_loop (Suc 0) cid stats req (?next (?next w))"
    unfolding announce_udp_def max_retries_def numeral_3_eq_3
    using assms(1-4) by (simp del: announce_loop.simps add: announce_timed_out)
  also have "\<dots> = (?next (?next (?next w)), Ok (sample_response\<lparr> ar_action := 1,
      ar_transaction_id := u_random w 5 \<rparr>))"
    by (subst honest_announce_loop [where cid = 42 and resp = sample_response])
      (use assms in \<open>simp_all add: sample_response_def announce_ok_def\<close>)
  finally show thesis by (rule that) (use assms in simp_all)
qed

lemma sample_slow_run:
  "\<exists>w' t. tracker_udp_new (\<lambda>h. if h = ascii ''t'' then Some [V6 [], V4 [1, 2, 3, 4, 0, 80]] else None)
     True 9 (ascii ''udp://t/a'') (replicate 20 1) (replicate 20 2) (torrent_stats_new 5) 6881 sample_slow = (w', Ok t) \<and>
   u_count w' = 6 \<and> u_clock w' = u_clock sample_slow + 90 * 1000000000"
proof -
  let ?w = "after_connect (after_connect (after_connect sample_slow))"
    and ?req = "announce_request_new (replicate 20 1) (replicate 20 2) 6881 9"
    and ?lookup = "\<lambda>h. if h = ascii ''t'' then Some [V6 [], V4 [1, 2, 3, 4, 0, 80]] else None"
  obtain w' resp where "announce_udp 42 (torrent_stats_new 5) ?req ?w = (w', Ok resp)" "u_count w' = 6"
    "u_clock w' = u_clock ?w + 3 * connection_timeout"
    by (rule sample_slow_announce [of ?w ?req]) (simp_all add: announce_request_new_def fun_eq_iff)
  moreover have "fst (parse_udp_url ?lookup (ascii ''udp://t/a'') sample_slow) = sample_slow"
    by (simp add: parse_udp_url_def Let_def)
  then have "parse_udp_url ?lookup (ascii ''udp://t/a'') sample_slow = (sample_slow, Ok (V4 [1, 2, 3, 4, 0, 80]))"
    using sample_url(2) [of sample_slow] by (metis prod.collapse)
  ultimately show ?thesis
    by (simp add: tracker_udp_new_def sample_url(1) sample_slow_connect Let_def connection_timeout_def)
qed

end
