(* ===== verification/Spec2Isabelle.thy ===== *)
theory Spec2Isabelle
  imports Client_Protocol Client_Files Tracker_Time
begin

text \<open>
  MotteSeed, a BitTorrent client in Rust: a model of the crate under \<open>src/src\<close> and what holds of it.

  \<^bold>\<open>The program.\<close> \<open>main.rs\<close> reads a torrent file (\<open>core/torrent/torrent.rs\<close>, over
  \<open>util/bencode/bencode_decodable.rs\<close>), asks its tracker for peers (\<open>core/tracker\<close>: a manager, a factory,
  a UDP and an HTTP client), opens the files (\<open>core/disk_io.rs\<close>), and starts two things that talk by
  channels: the peer manager, with a task per peer that runs one connection (\<open>core/peer/peer_manager.rs\<close>,
  \<open>peer_connection.rs\<close>, \<open>handshake.rs\<close>, \<open>message.rs\<close>, \<open>peer_state.rs\<close>), and the download manager
  (\<open>download_manager.rs\<close>), which owns the pieces and their blocks (\<open>core/peer/piece\<close>) and writes verified
  pieces to disk.

  \<^bold>\<open>Theories.\<close> Every definition is named as in the code, with the module's name in front where two would
  clash.
  \<^item> \<open>Prelude\<close>: machine integers, byte strings, Rust's slices and hash maps (a list of pairs with distinct
    keys), and \<open>outcome\<close>, the result of a call: \<open>Ok\<close>, \<open>Err\<close> or \<open>Panic\<close>.
  \<^item> \<open>Codec\<close>: what an encoder and a decoder of a wire format promise each other, as locales; the big-endian
    integers are the first interpretations. \<open>Machine\<close>: a component whose operations end and keep an
    invariant, and one whose answers are right in every reachable state, as locales, with a piece, the piece
    manager and the download manager as interpretations; a simulation between step relations, and a system whose
    pending work can always be finished, with the bounded channels as their interpretation.
  \<^item> \<open>Message\<close>, \<open>Handshake\<close>, \<open>Peer_State\<close>, \<open>Peer_Connection\<close>, \<open>Peer_Manager\<close>: the peer protocol. A stream
    is the bytes not yet read and the bytes written; one turn of \<open>select!\<close> is a \<open>select_event\<close>, and a read that
    is cancelled loses what it has taken from the stream. \<open>swarm_step\<close> is the relation by which
    the tasks of all peers take turns.
  \<^item> \<open>Block\<close>, \<open>Pieces\<close>, \<open>Piece_Layout\<close>, \<open>Piece_Verify\<close>, \<open>Piece_Data\<close>, \<open>Piece_Manager\<close>: \<open>core/peer/piece\<close>. The loops that may not
    end are \<open>partial_function (option)\<close>, \<open>None\<close> being a loop that goes on for ever; \<open>Piece_Layout\<close> and
    \<open>Piece_Verify\<close> prove when they end; \<open>Piece_Data\<close> follows the data of a piece back to the blocks received. No fuel is used.
  \<^item> \<open>Disk_IO\<close> and \<open>Disk_Layout\<close>: the disk is a map from files to contents; the second states what the
    storage of pieces should be as a locale, and relates files to the torrent's bytes. \<open>Disk_Multi\<close>: how much
    of that storage there is with several files, and what opening does to files outside the directory;
    \<open>Disk_Later\<close>: what the writer leaves alone in a file that is not the first.
  \<^item> \<open>Utf8\<close>, \<open>Bencode_Decode\<close>, \<open>Torrent\<close>: metadata, from parsed bencode to the torrent record.
  \<^item> \<open>Torrent_Stats\<close>, \<open>Tracker_UDP\<close>, \<open>Tracker_HTTP\<close>, \<open>Tracker_Manager\<close>: the trackers; the trait \<open>Tracker\<close>
    is the locale \<open>tracker_contract\<close>, interpreted for both clients and for the boxed trait object.
    \<open>Tracker_Time\<close>: how many datagrams the UDP client sends and how long its timeouts let it take.
  \<^item> \<open>Download_Manager\<close>, \<open>Download_Facts\<close>, \<open>Download_Disk\<close>, \<open>Download_Complete\<close>, \<open>Download_Verified\<close>: the event
    loop, its invariant, that a download completes, and that a finished one is verified. What these need of the
    disk are the locales of \<open>Download_Disk\<close>: \<open>piece_writer\<close>, and with it \<open>slice_writer\<close> for honest peers and
    \<open>hash_writer\<close> for any. They are interpreted on \<open>write_piece\<close> for a single file, where writes succeed, and for
    any files, where a write may fail and little is known of the disk.
  \<^item> \<open>Client\<close>: \<open>main\<close>, and the running client as a step relation over the peer manager's tasks and the
    download manager. \<open>Swarm_Events\<close>: a locale for properties of every event the connections send.
    \<open>Client_Protocol\<close>: the client among peers that speak the protocol. \<open>Bounded_Channels\<close>: the client with
    the channels' capacities, waiting senders included, and its refinement of the former; \<open>Client_Complete\<close>: when
    the client is done, and that it can get there; \<open>Client_Files\<close>: torrents with a short last piece or with
    several files. The root theory, this one, has the properties that span components.

  \<^bold>\<open>What the lemmas show.\<close> Formats: messages, handshakes, UDP packets, announce URLs and torrents are read
  back as they were written, and the parsers reject or never panic on anything else. Integrity: from
  construction on, whatever events arrive, only data with the torrent's hash is handed out or written.
  Completion, for a torrent of whole pieces: if every block of the content arrives, and the registered peers, whose
  command queues have 100 places, take their commands, the event loop returns with the download complete. For a single file below 4 GiB the file is then the content, and when the event loop returns,
  every piece on disk has its hash, whoever the peers are. With a short last piece the download is never complete,
  unless the peers have sent a second preimage under SHA-1, and with several files the front of every later file is never written. All are carried over to the running client, with every
  interleaving of its tasks; its bounded channels lose no event and cannot deadlock. The bounds are the code's own: piece
  indices and offsets are 32-bit, so they are hypotheses, and theorems say what happens beyond them.
  Several theorems describe behaviour the code cannot have meant: frames that are read without their prefix, a
  send buffer that no command clears, writes to multi-file torrents at the wrong offset, a last piece of the wrong
  length, blocks accepted for verified pieces, one request per unchoke, a download manager that knows no peers.

  \<^bold>\<open>Parameters.\<close> What is not in the repository is an argument: SHA-1, the bencode parser and printer, the
  random numbers, the clock (an \<open>instant\<close> is a number of nanoseconds), the replies of the network and of the operating system, the
  \<open>http\<close>, \<open>hyper\<close> and \<open>itoa\<close> crates (\<open>http_env\<close>), the order in which a hash set is listed.

  \<^bold>\<open>Not modelled.\<close> Printing and the texts of error messages (\<open>util/errors.rs\<close> and the \<open>Display\<close> derivations);
  memory exhaustion; file system races; failures of the disk other than a path that cannot be resolved or a file past \<open>2^63\<close>
  bytes, so no full disk and no partial write. A datagram is sent at once. A hash map is listed in the order of
  insertion where Rust leaves the order open, and a bencode number is any integer where the crate has 64 bits. What the map leaves out of the source is comments, derivations, imports and such texts. Arithmetic wraps as in a release build. A transfer rate is an exact rational where the code rounds to \<open>f64\<close>.
\<close>

section \<open>Properties\<close>

text \<open>
  C14: What starting the program can come to. It panics only when an argument is not UTF-8 or when it is run without even
  its own name as an argument; that the torrent cannot be loaded or the trackers fail are ends it reports. The disk is not touched unless the
  torrent was read and a tracker gave peers. Once started, the client is the one of the torrent that was read, with a
  connection for each of at most ten distinct peers. It hangs in the constructor of the download
  manager only for a torrent with pieces of 4 GiB or more, and then after its files have been created.
\<close>

theorem main_outcomes:
  assumes "http_env_ok (tw_env w)" "\<And>ps. mset (order ps) = mset ps"
    and "\<And>bs. from_buffer bs \<noteq> Panic" "\<And>b. to_bytes b \<noteq> Panic"
  shows "case main_program args fs_read from_buffer to_bytes sha1 rng order w d of
      (d', Usage) \<Rightarrow> d' = d \<and> length args = 1
    | (d', LoadFailed) \<Rightarrow> d' = d \<and> (\<exists>e. torrent_from_file fs_read from_buffer to_bytes sha1 (args ! 1) = Err e)
    | (d', NoPeers) \<Rightarrow> d' = d
    | (d', DiskFailed) \<Rightarrow> \<exists>tf e. torrent_from_file fs_read from_buffer to_bytes sha1 (args ! 1) = Ok tf \<and>
        disk_io_new (ascii ''./downloads'') (info_files (t_info (tf_torrent tf)))
          (ucast (piece_length (t_info (tf_torrent tf)))) d = (d', Err e)
    | (d', Stuck) \<Rightarrow> \<exists>tf dio. torrent_from_file fs_read from_buffer to_bytes sha1 (args ! 1) = Ok tf \<and>
        disk_io_new (ascii ''./downloads'') (info_files (t_info (tf_torrent tf)))
          (ucast (piece_length (t_info (tf_torrent tf)))) d = (d', Ok dio) \<and>
        piece_count (tf_torrent tf) \<noteq> 0 \<and> 2 ^ 32 \<le> unat (piece_length (t_info (tf_torrent tf)))
    | (d', Crashed) \<Rightarrow> d' = d \<and> (args = [] \<or> (\<exists>a \<in> set args. \<not> is_utf8 a))
    | (d', Started c) \<Rightarrow> \<exists>tf dio peers dm. torrent_from_file fs_read from_buffer to_bytes sha1 (args ! 1) = Ok tf \<and>
        disk_io_new (ascii ''./downloads'') (info_files (t_info (tf_torrent tf)))
          (ucast (piece_length (t_info (tf_torrent tf)))) d = (d', Ok dio) \<and>
        download_manager_new (tf_torrent tf) 16384 = Some dm \<and>
        peers \<noteq> [] \<and> distinct peers \<and> six_bytes peers \<and>
        c = main_client (peer_id rng) (tf_torrent tf) dio peers dm d' \<and>
        length (sw_tasks (cl_swarm c)) = min 10 (length peers)"
proof (cases "list_all is_utf8 args \<and> 2 \<le> length args")
  case True
  let ?load = "torrent_from_file fs_read from_buffer to_bytes sha1 (args ! 1)"
  show ?thesis
  proof (cases ?load)
    case (Ok tf)
    let ?t = "tf_torrent tf"
    obtain w1 tm1 where new: "tracker_manager_new (t_announce ?t) None (t_info_hash ?t) (peer_id rng)
        (total_size (info_files (t_info ?t))) 6881 w = (w1, tm1)" by fastforce
    obtain w2 tm2 where poll: "poll_all_trackers tm1 w1 = (w2, tm2)" by fastforce
    from tracker_manager_new_inv [OF new] assms(1) have "tm_inv tm1" "http_env_ok (tw_env w1)" by simp_all
    from poll_all_spec [OF this poll] have "tm_inv tm2" by blast
    note order = assms(2) [of "tm_peer_pool tm2"]
    from \<open>tm_inv tm2\<close> mset_eq_imp_distinct_iff [OF order] mset_eq_setD [OF order]
    have peers: "distinct (order (tm_peer_pool tm2)) \<and> six_bytes (order (tm_peer_pool tm2))"
      by (simp add: tm_inv_def six_bytes_def)
    obtain d1 r where disk: "disk_io_new (ascii ''./downloads'') (info_files (t_info ?t))
        (ucast (piece_length (t_info ?t))) d = (d1, r)" by fastforce
    have stuck: "piece_count ?t \<noteq> 0 \<and> 2 ^ 32 \<le> unat (piece_length (t_info ?t))"
      if "download_manager_new ?t 16384 = None"
      using that piece_manager_new_iff [of ?t 16384]
      by (auto simp: download_manager_new_def info_fits_def piece_fits_def)
    show ?thesis
      using True Ok new poll disk peers stuck disk_io_new_no_panic [OF disk]
      by (auto simp: main_program_def Let_def get_all_peers_vec_def main_client_def connect_peers_tasks
          split: outcome.splits option.splits)
  next
    case Panic
    have "?load \<noteq> Panic" by (rule load_no_panic) (use assms in auto)
    with Panic show ?thesis by simp
  qed (use True in \<open>auto simp: main_program_def\<close>)
next
  case False
  then show ?thesis by (cases args; cases "tl args") (auto simp: main_program_def list_all_iff)
qed

text \<open>A run: a torrent of one piece, an HTTP tracker that names one peer, and a working disk.\<close>

definition sample_body :: bencode where
  "sample_body = Dict [(ascii ''interval'', number 1800), (ascii ''peers'', ByteString [127, 0, 0, 1, 26, 225])]"

definition sample_main_world :: "(unit, unit) tracker_world" where
  "sample_main_world = sample_tworld\<lparr> tw_env := (tw_env sample_tworld)\<lparr> h_request := \<lambda>_ _ _ _. Ok [],
     h_from_buffer := \<lambda>_. Ok sample_body \<rparr> \<rparr>"

definition sample_main :: "disk \<times> main_outcome" where
  "sample_main = main_program [[], []] (\<lambda>_. Some []) (\<lambda>_. Ok (torrent_bencode sample_torrent) :: (unit, bencode) outcome)
     (\<lambda>_. Ok []) (\<lambda>_. replicate 20 1) (\<lambda>_. 65) rev sample_main_world
     \<lparr> d_mkdir = (\<lambda>_. True), d_resolve = (\<lambda>_. Some 1), d_content = (\<lambda>_. []) \<rparr>"

lemma sample_torrent_decode:
  "torrent_decode (\<lambda>_. Ok []) (\<lambda>_. replicate 20 1) (torrent_bencode sample_torrent) = Ok sample_torrent"
  by (rule torrent_decode_bencode [where raw = "[]"])
    (simp_all add: torrent_ok_def sample_torrent_def is_utf8.simps(1))

lemma sample_tracker:
  "create_tracker [] (replicate 20 1) pid (torrent_stats_new 4) 6881 sample_main_world =
    (after_http \<lparr> hw_count = 1, hw_delay = (\<lambda>_. 1), hw_clock = 101 \<rparr> sample_main_world,
     Ok (TrHTTP \<lparr> th_request = \<lparr> hr_tracker = [], hr_url_info_hash = url_encode (replicate 20 1),
         hr_url_peer_id = url_encode pid, hr_port = 6881, hr_compact = True \<rparr>, th_last_announce = 101,
       th_response = \<lparr> hp_interval = 1800, hp_peers = [[127, 0, 0, 1, 26, 225]] \<rparr> \<rparr>))"
proof -
  have peers: "chunks_exact 6 [127, 0, 0, 1, 26, 225 :: u8] = [[127, 0, 0, 1, 26, 225]]"
    by (simp add: chunks_exact.simps)
  have decode: "announce_response_http_decode sample_body =
      Ok \<lparr> hp_interval = 1800, hp_peers = [[127, 0, 0, 1, 26, 225]] \<rparr>"
    by (simp del: obind_Ok_iff add: sample_body_def announce_response_http_decode_def get_struct_value_def
        get_struct_value_from_bytestring_def peers)
  have req: "announce_request_http_new [] (replicate 20 1) pid 6881 True = Ok
      \<lparr> hr_tracker = [], hr_url_info_hash = url_encode (replicate 20 1), hr_url_peer_id = url_encode pid,
        hr_port = 6881, hr_compact = True \<rparr>" by (simp add: announce_request_http_new_def)
  show ?thesis
    by (simp add: create_tracker_def determine_type_def ascii_def tracker_http_new_def req announce_http_def
        build_url_def sample_main_world_def sample_tworld_def decode)
qed

lemma sample_main_started:
  "\<exists>d' c. sample_main = (d', Started c)"
proof -
  let ?t = sample_torrent
  have load: "torrent_from_file (\<lambda>_. Some []) (\<lambda>_. Ok (torrent_bencode ?t) :: (unit, bencode) outcome)
      (\<lambda>_. Ok []) (\<lambda>_. replicate 20 1) [] = Ok \<lparr> tf_data = [], tf_bencode = torrent_bencode ?t, tf_torrent = ?t \<rparr>"
    by (simp del: obind_Ok_iff add: torrent_from_file_def torrent_from_bytes_def sample_torrent_decode)
  have fields: "t_announce ?t = []" "t_info_hash ?t = replicate 20 1" "total_size (SingleFile 4) = 4"
    "info_files (t_info ?t) = SingleFile 4"
    by (simp_all add: sample_torrent_def total_size_def)
  obtain w1 tm1 where new: "tracker_manager_new [] None (replicate 20 1) (peer_id (\<lambda>_. 65)) 4 6881 sample_main_world
      = (w1, tm1)" by fastforce
  obtain w2 tm2 where poll: "poll_all_trackers tm1 w1 = (w2, tm2)" by fastforce
  have pool: "tm_peer_pool tm2 = [[127, 0, 0, 1, 26, 225]]"
  proof -
    have "w1 = after_http \<lparr> hw_count = 1, hw_delay = (\<lambda>_. 1), hw_clock = 101 \<rparr> sample_main_world"
      "tm_peer_pool tm1 = []" "\<exists>req. tm_trackers tm1 = [TrHTTP \<lparr> th_request = req, th_last_announce = 101,
         th_response = \<lparr> hp_interval = 1800, hp_peers = [[127, 0, 0, 1, 26, 225]] \<rparr> \<rparr>]"
      using new by (auto simp: tracker_manager_new_def sample_tracker Let_def)
    with poll show ?thesis
      by (auto simp: poll_all_trackers_def tracker_get_peers_def http_get_peers_def after_http_def
          elapsed_secs_def hs_insert_def)
  qed
  obtain dm where dm: "download_manager_new ?t 16384 = Some dm"
    using piece_manager_new_iff [of ?t 16384]
    by (auto simp: download_manager_new_def info_fits_def piece_fits_def sample_torrent_def)
  show ?thesis
    using dm by (simp add: sample_main_def main_program_def load fields new poll pool get_all_peers_vec_def
        disk_io_new_def open_file_def Let_def)
qed

theorem main_outcomes_witness:
  "\<exists>d' c. sample_main = (d', Started c) \<and> length (sw_tasks (cl_swarm c)) \<in> {1..10}"
proof -
  obtain d' c where main: "sample_main = (d', Started c)" using sample_main_started by blast
  have "http_env_ok (tw_env sample_main_world)"
    by (simp add: http_env_ok_def sample_main_world_def sample_tworld_def)
  from main_outcomes [OF this, where order = rev and args = "[[], []]" and fs_read = "\<lambda>_. Some []" and
      from_buffer = "\<lambda>_. Ok (torrent_bencode sample_torrent) :: (unit, bencode) outcome" and
      to_bytes = "\<lambda>_. Ok []" and ?sha1.0 = "\<lambda>_. replicate 20 1" and rng = "\<lambda>_. 65" and
      d = "\<lparr> d_mkdir = (\<lambda>_. True), d_resolve = (\<lambda>_. Some 1), d_content = (\<lambda>_. []) \<rparr>"] main
  have "\<exists>peers :: peer_ip list. peers \<noteq> [] \<and> length (sw_tasks (cl_swarm c)) = min 10 (length peers)"
    unfolding sample_main_def by (simp, blast)
  then obtain peers :: "peer_ip list" where
    "peers \<noteq> []" "length (sw_tasks (cl_swarm c)) = min 10 (length peers)" by blast
  then have "length (sw_tasks (cl_swarm c)) \<in> {1..10}" by (cases peers) simp_all
  with main show ?thesis by blast
qed

text \<open>
  C10: The event channel is a faithful account of every peer. Whatever the interleaving of the
  connections, the forwarding and the download manager, with distinct peers: the events tagged with
  a peer are the ones its connection sent, in order and without loss or repetition, and when none is
  outstanding, replaying them gives the connection's flags, bitfield and byte count.
\<close>

theorem events_arrive_in_order:
  assumes "distinct peers" "cl_swarm c0 = connect_peers pid ih bf peers"
    and "(client_step sha1 connect)\<^sup>*\<^sup>* c0 c"
    and "t \<in> set (sw_tasks (cl_swarm c))" "task_conn t = Some con"
  shows "events_from (pt_ip t) (sw_events (cl_swarm c)) = take (pt_forwarded t) (to_manager con) \<and>
    (pt_forwarded t = length (to_manager con) \<longrightarrow>
       view (pstate con) = replay (events_from (pt_ip t) (sw_events (cl_swarm c))))"
proof -
  from swarm_inv_connect [OF assms(1)] client_swarm_inv [OF assms(3)] assms(2)
  have "swarm_inv (cl_swarm c)" by simp
  with assms(4,5) have "task_relayed (sw_events (cl_swarm c)) t" "mirrored con"
    by (auto simp: swarm_inv_def task_relayed_def)
  with assms(5) show ?thesis by (simp add: task_relayed_def mirrored_def)
qed

text \<open>A run in which a peer completes the handshake and unchokes us, in the framing the reader takes.\<close>

definition sample_connect :: "bytes \<times> u16 \<Rightarrow> (bytes \<times> bool) option" where
  "sample_connect = sample_answer (be32 5 @ serialize UnChoke @ [])"

lemma sample_reach:
  "\<exists>c t con. (client_step sha1 sample_connect)\<^sup>*\<^sup>* sample_client c \<and> sw_tasks (cl_swarm c) = [t] \<and>
    task_conn t = Some con \<and> pt_ip t = sample_ip \<and> pt_forwarded t = 1 \<and> to_manager con = [PeerUnchoked] \<and>
    sw_events (cl_swarm c) = [(PeerUnchoked, sample_ip)]"
proof -
  obtain b where "read_message (be32 5 @ serialize UnChoke @ []) = Ok (UnChoke, b, [])"
    using double_framed [of UnChoke "[]"] by (auto simp: serialize_def len_u32_def)
  from sample_run [OF this] show ?thesis by (simp only: sample_connect_def)
qed

theorem events_arrive_in_order_witness:
  "\<exists>c (con :: peer_connection). (client_step (\<lambda>_. []) sample_connect)\<^sup>*\<^sup>* sample_client c \<and>
    view (pstate con) = replay (events_from sample_ip (sw_events (cl_swarm c))) \<and>
    events_from sample_ip (sw_events (cl_swarm c)) = [PeerUnchoked]"
proof -
  obtain c t con where c: "(client_step (\<lambda>_. []) sample_connect)\<^sup>*\<^sup>* sample_client c" "sw_tasks (cl_swarm c) = [t]"
    "task_conn t = Some con" "pt_ip t = sample_ip" "pt_forwarded t = 1" "to_manager con = [PeerUnchoked]"
    using sample_reach [of "\<lambda>_. []"] by blast
  from events_arrive_in_order [OF _ sample_client_swarm c(1), of t con] c
  have "view (pstate con) = replay (events_from sample_ip (sw_events (cl_swarm c)))"
    "events_from sample_ip (sw_events (cl_swarm c)) = [PeerUnchoked]" by auto
  with c(1) show ?thesis by blast
qed

text \<open>
  C18: The client never asks a peer for anything. In every state \<open>main\<close> can reach, all that has been
  written to any peer is the handshake: no interest, no request, no have message, because the
  connections are added to the peer manager only and the download manager knows none of them.
\<close>

theorem only_handshakes_are_sent:
  assumes "download_manager_new t bs = Some dm"
    and "(client_step sha1 connect)\<^sup>*\<^sup>* (main_client pid t dio peers dm d) c"
    and "task \<in> set (sw_tasks (cl_swarm c))" "task_conn task = Some con"
  shows "outbound con = handshake_message pid (t_info_hash t)"
proof -
  let ?c0 = "main_client pid t dio peers dm d"
  note quiet = main_client_quiet [OF assms(1), of pid dio peers d]
  have "swarm_quiet (cl_swarm c)" using client_quiet [OF assms(2) quiet(1,2)] by simp
  moreover have "sw_manager (cl_swarm c) = sw_manager (cl_swarm ?c0)"
    using assms(2)
  proof (induction rule: rtranclp_induct)
    case (step c c')
    from step(2,3) show ?case
      by (auto elim!: client_stepE swarm_stepE simp: deliver_def forward_def Let_def)
  qed simp
  ultimately have "task_quiet (sw_manager (cl_swarm ?c0)) task"
    using assms(3) by (auto simp: swarm_quiet_def)
  with assms(4) quiet(3) show ?thesis by (simp add: task_quiet_def connect_peers_tasks)
qed

theorem only_handshakes_are_sent_witness:
  "\<exists>c t con. (client_step (\<lambda>_. []) sample_connect)\<^sup>*\<^sup>* sample_client c \<and> sw_tasks (cl_swarm c) = [t] \<and>
    task_conn t = Some con \<and> to_manager con = [PeerUnchoked] \<and>
    outbound con = handshake_message (replicate 20 2) (replicate 20 1)"
proof -
  obtain c t con where c: "(client_step (\<lambda>_. []) sample_connect)\<^sup>*\<^sup>* sample_client c" "sw_tasks (cl_swarm c) = [t]"
    "task_conn t = Some con" "to_manager con = [PeerUnchoked]"
    using sample_reach [of "\<lambda>_. []"] by blast
  from only_handshakes_are_sent [OF sample_dm_new c(1) [unfolded sample_client_def], of t con] c
  have "outbound con = handshake_message (replicate 20 2) (replicate 20 1)"
    by (simp add: sample_torrent_def)
  with c show ?thesis by blast
qed

text \<open>
  C6: Whatever peers do, the files only ever hold what the torrent names. In every state the client can
  reach from its start, with all connections and the download manager interleaved in any way, the
  disk has changed only by piece writes whose data has the torrent's hash for that piece; and the
  download manager is never stuck on an event.
\<close>

theorem client_disk_integrity:
  assumes "download_manager_new t bs = Some dm" "piece_count t \<le> 2 ^ 32"
    and "disk_io_new base details plen d0 = (d, Ok dio)"
    and "(client_step sha1 connect)\<^sup>*\<^sup>* (main_client pid t dio peers dm d) c"
  shows "hash_writes sha1 t (Some dio) d (cl_disk c) \<and>
    turn sha1 (now, Some event) (cl_dm c, dm_view c) \<noteq> None"
proof -
  let ?c0 = "main_client pid t dio peers dm d"
  from client_dm_inv [OF assms(4) main_client_dm_inv [OF assms(1-3), of sha1 pid peers]]
  have inv: "dm_inv sha1 d (cl_dm c, dm_view c)"
    "pm_ident (dm_piece_manager (cl_dm c)) = pm_ident (dm_piece_manager (cl_dm ?c0))"
    "dm_disk_io (cl_dm c) = dm_disk_io (cl_dm ?c0)" by simp_all
  have "pm_torrent (dm_piece_manager dm) = t"
    using download_manager_new_piece_manager [OF assms(1)]
    by (auto simp: piece_manager_new_def dest: arg_cong [where f = pm_torrent])
  with inv have "hash_writes sha1 t (Some dio) d (cl_disk c)"
    using pm_ident_torrent [OF inv(2)] by (simp add: dm_inv_def main_client_def set_disk_io_def dm_view_def)
  moreover from turn_ok [OF inv(1) dm_view_flows, of "(now, Some event)"] have
    "turn sha1 (now, Some event) (cl_dm c, dm_view c) \<noteq> None" by auto
  ultimately show ?thesis by blast
qed

theorem client_disk_integrity_witness:
  "\<exists>c. (client_step (\<lambda>_. []) sample_connect)\<^sup>*\<^sup>* sample_client c \<and>
    sw_events (cl_swarm c) = [(PeerUnchoked, sample_ip)] \<and>
    hash_writes (\<lambda>_. []) sample_torrent (Some sample_single) (dw_disk sample_dm_world) (cl_disk c) \<and>
    turn (\<lambda>_. []) (0, Some (PeerUnchoked, sample_ip)) (cl_dm c, dm_view c) \<noteq> None"
proof -
  obtain c where c: "(client_step (\<lambda>_. []) sample_connect)\<^sup>*\<^sup>* sample_client c"
    "sw_events (cl_swarm c) = [(PeerUnchoked, sample_ip)]"
    using sample_reach [of "\<lambda>_. []"] by blast
  from client_disk_integrity [OF sample_dm_new _ sample_single_new c(1) [unfolded sample_client_def],
      of 0 "(PeerUnchoked, sample_ip)"] c
  show ?thesis by (auto simp: sample_count)
qed

end
